(* ===== verification/Prelude.thy ===== *)
theory Prelude
  imports Main "HOL-Library.Word" "HOL-Library.AList" "HOL-Library.Signed_Division"
begin

unbundle bit_operations_syntax

text \<open>
  Shared vocabulary of the development: the collections of rewrite rules and
  introduction rules the component theories add to, the machine-integer types,
  generic lemmas on lists and association lists, and the two interfaces every
  component with state is an instance of (a keyed store, and a transition
  system with an invariant).
\<close>

named_theorems step_simps \<open>executable equations of the component operations\<close>
named_theorems inv_intros \<open>preservation of the component invariants\<close>

type_synonym u8 = "8 word"
type_synonym u16 = "16 word"
type_synonym u32 = "32 word"
type_synonym u64 = "64 word"

text \<open>
  \<open>std::map\<close> and \<open>boost::unordered_map\<close> are association lists: the list order is
  the container's iteration order, which the code never relies on.
\<close>

type_synonym ('k, 'v) assoc = "('k \<times> 'v) list"

abbreviation lookup :: "('k, 'v) assoc \<Rightarrow> 'k \<Rightarrow> 'v option" where
  "lookup m k \<equiv> map_of m k"

abbreviation has_key :: "('k, 'v) assoc \<Rightarrow> 'k \<Rightarrow> bool" where
  "has_key m k \<equiv> map_of m k \<noteq> None"

subsection \<open>Lists\<close>

text \<open>The vector without the element at position \<open>i\<close> (\<open>erase(begin() + i)\<close>).\<close>

definition erase_at :: "nat \<Rightarrow> 'a list \<Rightarrow> 'a list" where
  "erase_at i xs = take i xs @ drop (Suc i) xs"

lemma length_erase_at [simp]: "i < length xs \<Longrightarrow> length (erase_at i xs) = length xs - 1"
  by (simp add: erase_at_def)

lemma set_erase_at: "set (erase_at i xs) \<subseteq> set xs"
  by (auto simp: erase_at_def dest: in_set_takeD in_set_dropD)

lemma filter_erase_at [simp]:
  assumes "i < length xs" and "\<not> P (xs ! i)"
  shows "filter P (erase_at i xs) = filter P xs"
proof -
  have "xs = take i xs @ xs ! i # drop (Suc i) xs"
    using assms(1) by (rule id_take_nth_drop)
  then have "filter P xs = filter P (take i xs @ xs ! i # drop (Suc i) xs)"
    by (rule arg_cong)
  then show ?thesis using assms(2) by (simp add: erase_at_def)
qed

lemma distinct_erase_at [simp]:
  assumes "distinct xs"
  shows "distinct (erase_at i xs)"
proof -
  have "set (take i xs) \<inter> set (drop (Suc i) xs) = {}"
    using assms by (rule set_take_disj_set_drop_if_distinct) simp
  then show ?thesis using assms by (simp add: erase_at_def)
qed

lemma set_map_filter: "y \<in> set (List.map_filter f xs) \<longleftrightarrow> (\<exists>x \<in> set xs. f x = Some y)"
  by (induction xs) (auto simp: List.map_filter_simps split: option.split)

lemma set_filter_subset: "set (filter P xs) \<subseteq> set xs"
  by auto

subsection \<open>Association lists\<close>

lemma map_of_update [simp]: "map_of (AList.update k v m) = (map_of m)(k \<mapsto> v)"
  by (rule update_conv')

lemma map_of_delete [simp]: "map_of (AList.delete k m) = (map_of m)(k := None)"
  by (rule delete_conv')

lemma distinct_keys_update [simp]:
  "distinct (map fst m) \<Longrightarrow> distinct (map fst (AList.update k v m))"
  by (rule distinct_update)

lemma distinct_keys_delete [simp]:
  "distinct (map fst m) \<Longrightarrow> distinct (map fst (AList.delete k m))"
  by (rule distinct_delete)

lemma map_of_filter_distinct:
  assumes "distinct (map fst m)"
  shows "map_of (filter (\<lambda>(k, v). P k v) m) k =
    (case map_of m k of None \<Rightarrow> None | Some v \<Rightarrow> if P k v then Some v else None)"
  using assms
proof (induction m)
  case Nil
  then show ?case by simp
next
  case (Cons a m)
  obtain k' v' where a: "a = (k', v')" by (cases a)
  have "map_of m k' = None"
    using Cons.prems a by (auto simp: map_of_eq_None_iff)
  then show ?case using Cons a by (auto split: option.splits)
qed

lemma distinct_keys_filter [simp]: "distinct (map fst m) \<Longrightarrow> distinct (map fst (filter P m))"
  by (rule distinct_map_filter)

subsection \<open>C strings and decimal numbers\<close>

text \<open>\<open>std::string(s.c_str())\<close>: the characters before the first NUL.\<close>

definition c_str :: "string \<Rightarrow> string" where
  "c_str s = takeWhile (\<lambda>c. c \<noteq> CHR 0x00) s"

lemma c_str_id: "CHR 0x00 \<notin> set s \<Longrightarrow> c_str s = s"
  unfolding c_str_def by (subst takeWhile_eq_all_conv) auto

definition digit_char :: "nat \<Rightarrow> char" where
  "digit_char d = char_of (48 + d)"

text \<open>What a stream prints for an unsigned integer.\<close>

fun show_nat :: "nat \<Rightarrow> string" where
  "show_nat n = (if n < 10 then [digit_char n] else show_nat (n div 10) @ [digit_char (n mod 10)])"

declare show_nat.simps [simp del]

definition show_int :: "int \<Rightarrow> string" where
  "show_int i = (if i < 0 then CHR ''-'' # show_nat (nat (- i)) else show_nat (nat i))"

definition is_digit :: "char \<Rightarrow> bool" where
  "is_digit c \<longleftrightarrow> 48 \<le> (of_char c :: nat) \<and> (of_char c :: nat) \<le> 57"

definition digit_val :: "char \<Rightarrow> nat" where
  "digit_val c = (of_char c :: nat) - 48"

text \<open>The value of a run of digits, as the C library's number readers accumulate it.\<close>

definition read_nat :: "string \<Rightarrow> nat" where
  "read_nat s = foldl (\<lambda>n c. 10 * n + digit_val c) 0 (takeWhile is_digit s)"

lemma digit_char_props:
  assumes "d < 10"
  shows "is_digit (digit_char d)" and "digit_val (digit_char d) = d"
proof -
  have "(of_char (digit_char d) :: nat) = 48 + d"
    using assms by (simp add: digit_char_def)
  then show "is_digit (digit_char d)" and "digit_val (digit_char d) = d"
    using assms by (simp_all add: is_digit_def digit_val_def)
qed

lemma show_nat_digits: "c \<in> set (show_nat n) \<Longrightarrow> is_digit c"
proof (induction n rule: show_nat.induct)
  case (1 n)
  show ?case
  proof (cases "n < 10")
    case True
    then show ?thesis using "1.prems" digit_char_props by (auto simp: show_nat.simps [of n])
  next
    case False
    then have "c \<in> set (show_nat (n div 10)) \<or> c = digit_char (n mod 10)"
      using "1.prems" by (simp add: show_nat.simps [of n] disj_commute)
    then show ?thesis using "1.IH" [OF False] digit_char_props(1) [of "n mod 10"] by auto
  qed
qed

lemma read_show_nat [simp]: "read_nat (show_nat n) = n"
proof -
  have all: "takeWhile is_digit (show_nat m) = show_nat m" for m
    using show_nat_digits by (auto simp: takeWhile_eq_all_conv)
  have "foldl (\<lambda>n c. 10 * n + digit_val c) 0 (show_nat n) = n"
  proof (induction n rule: show_nat.induct)
    case (1 n)
    then show ?case
      by (cases "n < 10") (simp_all add: show_nat.simps [of n] digit_char_props)
  qed
  then show ?thesis by (simp add: read_nat_def all)
qed

lemma show_nat_nonempty [simp]: "show_nat n \<noteq> []"
  by (simp add: show_nat.simps [of n])

subsection \<open>Random draws\<close>

text \<open>
  The values \<open>rand_r\<close> returns are an input of the model: a list the operations
  consume from the front (\<open>0\<close> once it is used up).
\<close>

fun draw :: "nat list \<Rightarrow> nat \<times> nat list" where
  "draw [] = (0, [])"
| "draw (r # rs) = (r, rs)"

subsection \<open>A keyed store\<close>

text \<open>
  The contract of every container of the code that binds keys to values: what a
  lookup returns after an insertion and after a removal, under the container's
  well-formedness invariant.
\<close>

locale keyed_store =
  fixes find :: "'s \<Rightarrow> 'k \<Rightarrow> 'v option"
    and put :: "'k \<Rightarrow> 'v \<Rightarrow> 's \<Rightarrow> 's"
    and del :: "'k \<Rightarrow> 's \<Rightarrow> 's"
    and wf :: "'s \<Rightarrow> bool"
  assumes find_put: "wf s \<Longrightarrow> find (put k v s) k' = (if k' = k then Some v else find s k')"
    and find_del: "wf s \<Longrightarrow> find (del k s) k' = (if k' = k then None else find s k')"
    and wf_put: "wf s \<Longrightarrow> wf (put k v s)"
    and wf_del: "wf s \<Longrightarrow> wf (del k s)"
begin

fun put_all :: "('k \<times> 'v) list \<Rightarrow> 's \<Rightarrow> 's" where
  "put_all [] s = s"
| "put_all ((k, v) # kvs) s = put_all kvs (put k v s)"

lemma wf_put_all: "wf s \<Longrightarrow> wf (put_all kvs s)"
  by (induction kvs s rule: put_all.induct) (auto intro: wf_put)

lemma find_put_all:
  "wf s \<Longrightarrow> find (put_all kvs s) k = (case map_of (rev kvs) k of None \<Rightarrow> find s k | Some v \<Rightarrow> Some v)"
proof (induction kvs s rule: put_all.induct)
  case (1 s)
  then show ?case by simp
next
  case (2 k' v kvs s)
  then show ?case
    by (auto simp: find_put wf_put map_add_def split: option.splits)
qed

lemma find_del_put: "wf s \<Longrightarrow> find (del k (put k v s)) k' = (if k' = k then None else find s k')"
  by (auto simp: find_del find_put wf_put)

lemma put_put_same: "wf s \<Longrightarrow> find (put k v (put k w s)) = find (put k v s)"
  by (rule ext) (simp add: find_put wf_put)

lemma put_swap:
  "wf s \<Longrightarrow> k \<noteq> k' \<Longrightarrow> find (put k v (put k' w s)) = find (put k' w (put k v s))"
  by (rule ext) (simp add: find_put wf_put)

end

interpretation al: keyed_store map_of AList.update AList.delete "\<lambda>m. distinct (map fst m)"
  by unfold_locales simp_all

subsection \<open>Transition systems\<close>

inductive reach :: "('s \<Rightarrow> bool) \<Rightarrow> ('s \<Rightarrow> 's \<Rightarrow> bool) \<Rightarrow> 's \<Rightarrow> bool"
  for init :: "'s \<Rightarrow> bool" and step :: "'s \<Rightarrow> 's \<Rightarrow> bool" where
  reach_init: "init s \<Longrightarrow> reach init step s"
| reach_step: "reach init step s \<Longrightarrow> step s t \<Longrightarrow> reach init step t"

locale invariant_system =
  fixes init :: "'s \<Rightarrow> bool"
    and step :: "'s \<Rightarrow> 's \<Rightarrow> bool"
    and inv :: "'s \<Rightarrow> bool"
  assumes inv_init: "init s \<Longrightarrow> inv s"
    and inv_step: "inv s \<Longrightarrow> step s t \<Longrightarrow> inv t"
begin

lemma reach_inv: "reach init step s \<Longrightarrow> inv s"
  by (induction rule: reach.induct) (auto intro: inv_init inv_step)

lemma steps_inv: "step\<^sup>*\<^sup>* s t \<Longrightarrow> inv s \<Longrightarrow> inv t"
  by (induction rule: rtranclp_induct) (auto intro: inv_step)

end

subsection \<open>Encoders and decoders\<close>

locale codec =
  fixes enc :: "'a \<Rightarrow> 'b"
    and dec :: "'b \<Rightarrow> 'a option"
    and ok :: "'a \<Rightarrow> bool"
  assumes dec_enc: "ok x \<Longrightarrow> dec (enc x) = Some x"
begin

lemma enc_inj: "ok x \<Longrightarrow> ok y \<Longrightarrow> enc x = enc y \<Longrightarrow> x = y"
  by (metis dec_enc option.inject)

lemma map_dec_enc: "(\<And>x. x \<in> set xs \<Longrightarrow> ok x) \<Longrightarrow> map dec (map enc xs) = map Some xs"
  by (induction xs) (auto simp: dec_enc)

end

end
