(* ===== verification/PathUtil.thy ===== *)
theory PathUtil
  imports Prelude
begin

text \<open>
  The string and path helpers of the agent: \<open>gko-src/src/path.cpp\<close>,
  \<open>gko-src/src/string_util.cpp\<close>. A C++ \<open>string\<close> is a list of bytes; a
  \<open>size_type\<close> that may be \<open>npos\<close> is an option. \<open>std::string::find\<close>,
  \<open>rfind\<close>, \<open>find_first_of\<close> and \<open>substr\<close> are written out as list functions;
  the file system (\<open>stat\<close>, \<open>mkdir\<close>) is a parameter.
\<close>

abbreviation slash :: char where "slash \<equiv> CHR ''/''"

subsection \<open>The string operations the code uses\<close>

text \<open>\<open>s.find_first_of(delims, start)\<close>, with the set of delimiters as a predicate.\<close>

function find_first_of :: "(char \<Rightarrow> bool) \<Rightarrow> string \<Rightarrow> nat \<Rightarrow> nat option" where
  "find_first_of p s i =
     (if i < length s then (if p (s ! i) then Some i else find_first_of p s (Suc i)) else None)"
  by pat_completeness auto
termination by (relation "measure (\<lambda>(p, s, i). length s - i)") auto

declare find_first_of.simps [simp del]

text \<open>\<open>s.rfind(c)\<close>: the last position, scanning down from \<open>n\<close> characters.\<close>

fun rfind_upto :: "char \<Rightarrow> string \<Rightarrow> nat \<Rightarrow> nat option" where
  "rfind_upto c s 0 = None"
| "rfind_upto c s (Suc n) = (if s ! n = c then Some n else rfind_upto c s n)"

definition rfind :: "char \<Rightarrow> string \<Rightarrow> nat option" where
  "rfind c s = rfind_upto c s (length s)"

lemma find_first_of_Some:
  "find_first_of p s i = Some j \<Longrightarrow>
     i \<le> j \<and> j < length s \<and> p (s ! j) \<and> (\<forall>k. i \<le> k \<and> k < j \<longrightarrow> \<not> p (s ! k))"
proof (induction p s i rule: find_first_of.induct)
  case (1 p s i)
  show ?case
  proof (cases "i < length s \<and> \<not> p (s ! i)")
    case True
    with 1 have "Suc i \<le> j \<and> j < length s \<and> p (s ! j) \<and> (\<forall>k. Suc i \<le> k \<and> k < j \<longrightarrow> \<not> p (s ! k))"
      by (auto simp: find_first_of.simps [of p s i])
    with True show ?thesis
      by (metis Suc_le_eq le_less less_imp_le)
  next
    case False
    with 1 show ?thesis by (auto simp: find_first_of.simps [of p s i] split: if_splits)
  qed
qed

lemma find_first_of_None:
  "find_first_of p s i = None \<Longrightarrow> \<forall>k. i \<le> k \<and> k < length s \<longrightarrow> \<not> p (s ! k)"
proof (induction p s i rule: find_first_of.induct)
  case (1 p s i)
  show ?case
  proof (cases "i < length s \<and> \<not> p (s ! i)")
    case True
    with 1 have "\<forall>k. Suc i \<le> k \<and> k < length s \<longrightarrow> \<not> p (s ! k)"
      by (auto simp: find_first_of.simps [of p s i])
    with True show ?thesis by (metis Suc_leI le_less)
  next
    case False
    with 1 show ?thesis by (auto simp: find_first_of.simps [of p s i] split: if_splits)
  qed
qed

lemma rfind_upto_Some:
  "rfind_upto c s n = Some j \<Longrightarrow> j < n \<and> s ! j = c \<and> (\<forall>k. j < k \<and> k < n \<longrightarrow> s ! k \<noteq> c)"
  by (induction n) (auto split: if_splits simp: less_Suc_eq)

lemma rfind_upto_None: "rfind_upto c s n = None \<Longrightarrow> \<forall>k < n. s ! k \<noteq> c"
  by (induction n) (auto split: if_splits simp: less_Suc_eq)

lemma rfind_Some:
  assumes "rfind c s = Some j"
  shows "j < length s" and "s ! j = c" and "c \<notin> set (drop (Suc j) s)"
  using rfind_upto_Some [OF assms [unfolded rfind_def]]
  by (auto simp: in_set_conv_nth)

lemma rfind_None: "rfind c s = None \<Longrightarrow> c \<notin> set s"
  using rfind_upto_None [of c s "length s"] by (auto simp: rfind_def in_set_conv_nth)

lemma rfind_split:
  assumes "rfind c s = Some j"
  shows "s = take j s @ c # drop (Suc j) s"
  using rfind_Some [OF assms] id_take_nth_drop [of j s] by simp

subsection \<open>Trimming slashes\<close>

text \<open>
  \<open>pos\<close> runs down from \<open>length - 1\<close> and passes through \<open>npos\<close>; here the argument
  is \<open>pos + 1\<close>, so \<open>npos\<close> is 0.
\<close>

fun tbs_loop :: "string \<Rightarrow> nat \<Rightarrow> nat" where
  "tbs_loop path 0 = 0"
| "tbs_loop path (Suc pos) = (if path ! pos = slash then tbs_loop path pos else Suc pos)"

definition trim_back_slash :: "string \<Rightarrow> string" where
  "trim_back_slash path = take (tbs_loop path (length path)) path"

function tfs_loop :: "string \<Rightarrow> nat \<Rightarrow> nat" where
  "tfs_loop path pos =
     (if pos < length path \<and> path ! pos = slash then tfs_loop path (Suc pos) else pos)"
  by pat_completeness auto
termination by (relation "measure (\<lambda>(path, pos). length path - pos)") auto

declare tfs_loop.simps [simp del]

definition trim_front_slash :: "string \<Rightarrow> string" where
  "trim_front_slash path = drop (tfs_loop path 0) path"

lemma tbs_loop_le: "tbs_loop s n \<le> n"
  by (induction n) (auto intro: le_SucI)

lemma tbs_loop_last: "tbs_loop s n = Suc k \<Longrightarrow> s ! k \<noteq> slash"
  by (induction n) (auto split: if_splits)

lemma tbs_loop_dropped: "tbs_loop s n \<le> k \<Longrightarrow> k < n \<Longrightarrow> s ! k = slash"
  by (induction n) (auto split: if_splits simp: less_Suc_eq)

lemma trim_back_slash_last:
  assumes "trim_back_slash s \<noteq> []"
  shows "last (trim_back_slash s) \<noteq> slash"
proof -
  let ?n = "tbs_loop s (length s)"
  have "?n \<noteq> 0" using assms by (auto simp: trim_back_slash_def)
  then obtain k where k: "?n = Suc k" by (cases ?n) auto
  have "k < length s" using tbs_loop_le [of s "length s"] k by simp
  then have "last (take (Suc k) s) = s ! k" by (simp add: take_Suc_conv_app_nth)
  then show ?thesis
    using tbs_loop_last [OF k] by (simp add: trim_back_slash_def k)
qed

lemma trim_back_slash_prefix:
  "\<exists>n. s = trim_back_slash s @ replicate n slash"
proof -
  let ?n = "tbs_loop s (length s)"
  have "drop ?n s = replicate (length s - ?n) slash"
    by (rule nth_equalityI) (auto intro: tbs_loop_dropped [of s "length s"])
  then have "s = trim_back_slash s @ replicate (length s - ?n) slash"
    by (metis append_take_drop_id trim_back_slash_def)
  then show ?thesis ..
qed

lemma length_trim_back_slash: "length (trim_back_slash s) \<le> length s"
  by (simp add: trim_back_slash_def)

subsection \<open>Splitting a path\<close>

text \<open>\<open>Some (parent_path, short_name)\<close> for \<open>true\<close>; the out-parameters are untouched otherwise.\<close>

definition path_slipt :: "string \<Rightarrow> (string \<times> string) option" where
  "path_slipt path =
     (let tmp_path = trim_back_slash path in
      case rfind slash tmp_path of
        Some pos \<Rightarrow>
          if pos \<noteq> length tmp_path - 1
          then Some (if pos = 0 then ''/'' else take pos tmp_path, drop (pos + 1) tmp_path)
          else None
      | None \<Rightarrow> None)"

definition parent_path :: "string \<Rightarrow> string" where
  "parent_path path =
     (let tmp_path = trim_back_slash path in
      case rfind slash tmp_path of
        Some pos \<Rightarrow> if pos = 0 then ''/'' else take pos tmp_path
      | None \<Rightarrow> [])"

definition file_name :: "string \<Rightarrow> string" where
  "file_name path =
     (let tmp_path = trim_back_slash path in
      case rfind slash tmp_path of Some pos \<Rightarrow> drop (pos + 1) tmp_path | None \<Rightarrow> tmp_path)"

definition subpath :: "string \<Rightarrow> string" where
  "subpath path =
     (let tmp_path = trim_front_slash path in
      case find_first_of (\<lambda>c. c = slash) tmp_path 0 of
        Some pos \<Rightarrow> drop (pos + 1) tmp_path
      | None \<Rightarrow> [])"

definition complete_full_path :: "string \<Rightarrow> string \<Rightarrow> string" where
  "complete_full_path cwd path =
     (if path = [] \<or> path ! 0 \<noteq> slash then cwd @ ''/'' @ path else path)"

text \<open>\<open>path[0]\<close> of an empty string is the terminating NUL.\<close>

definition is_absolute_path :: "string \<Rightarrow> bool" where
  "is_absolute_path path = (path \<noteq> [] \<and> path ! 0 = slash)"

lemma rfind_not_last:
  assumes "trim_back_slash path = t" and "rfind slash t = Some pos"
  shows "pos \<noteq> length t - 1" and "drop (Suc pos) t \<noteq> []"
proof -
  have "t \<noteq> []" using assms(2) by (auto simp: rfind_def)
  then have "last t \<noteq> slash" using trim_back_slash_last assms(1) by blast
  then have l: "t ! (length t - 1) \<noteq> slash" using \<open>t \<noteq> []\<close> by (simp add: last_conv_nth)
  then show "pos \<noteq> length t - 1" using rfind_Some(2) [OF assms(2)] by metis
  then show "drop (Suc pos) t \<noteq> []" using rfind_Some(1) [OF assms(2)] by auto
qed

lemma path_slipt_iff:
  "path_slipt path = Some (p, n) \<longleftrightarrow> (\<exists>pos. rfind slash (trim_back_slash path) = Some pos)
     \<and> p = parent_path path \<and> n = file_name path"
  using rfind_not_last(1) [OF refl, of path]
  by (auto simp: path_slipt_def parent_path_def file_name_def Let_def split: option.splits)

lemma file_name_no_slash: "slash \<notin> set (file_name path)"
  by (auto simp: file_name_def Let_def rfind_None dest: rfind_Some(3) split: option.splits)

lemma file_name_nonempty:
  assumes "trim_back_slash path \<noteq> []"
  shows "file_name path \<noteq> []"
  using assms rfind_not_last(2) [OF refl, of path]
  by (auto simp: file_name_def Let_def split: option.splits)

lemma parent_file_join:
  assumes "rfind slash (trim_back_slash path) = Some pos"
  shows "trim_back_slash path =
    (if parent_path path = ''/'' \<and> pos = 0 then ''/'' @ file_name path
     else parent_path path @ ''/'' @ file_name path)"
proof -
  let ?t = "trim_back_slash path"
  have "?t = take pos ?t @ slash # drop (Suc pos) ?t" using assms by (rule rfind_split)
  then show ?thesis using assms by (auto simp: parent_path_def file_name_def Let_def)
qed

lemma parent_path_shorter:
  assumes "parent_path path \<noteq> []"
  shows "length (parent_path path) < length path"
proof -
  let ?t = "trim_back_slash path"
  obtain pos where r: "rfind slash ?t = Some pos"
    using assms by (auto simp: parent_path_def Let_def split: option.splits)
  have p: "pos < length ?t" using r by (rule rfind_Some(1))
  have "drop (Suc pos) ?t \<noteq> []" using r rfind_not_last(2) by blast
  then have "Suc pos < length ?t" by simp
  then show ?thesis
    using r p length_trim_back_slash [of path] by (auto simp: parent_path_def Let_def)
qed

subsection \<open>Escaping, normalising\<close>

function ibs_loop :: "string \<Rightarrow> nat \<Rightarrow> string \<Rightarrow> string" where
  "ibs_loop path start tmp =
     (case find_first_of (\<lambda>c. c = slash) path start of
        Some pos \<Rightarrow> ibs_loop path (pos + 1) (tmp @ take (pos - start) (drop start path) @ [CHR 0x5C, slash])
      | None \<Rightarrow> tmp @ drop start path)"
  by pat_completeness auto
termination
  by (relation "measure (\<lambda>(path, start, tmp). length path - start)")
    (auto dest: find_first_of_Some)

declare ibs_loop.simps [simp del]

definition insert_back_slash :: "string \<Rightarrow> string" where
  "insert_back_slash path = ibs_loop path 0 []"

text \<open>
  One component of \<open>trim_path\<close>. \<open>None\<close> is the early \<open>return string()\<close>,
  taken when \<open>..\<close> would leave the first component.
\<close>

definition tp_component :: "string \<Rightarrow> string list \<Rightarrow> string list option" where
  "tp_component tmp v =
     (if tmp = [] \<or> tmp = ''.'' then Some v
      else if tmp = ''..'' then (if length v \<le> 1 then None else Some (butlast v))
      else Some (v @ [tmp]))"

function tp_loop :: "string \<Rightarrow> nat \<Rightarrow> string list \<Rightarrow> string list option" where
  "tp_loop path start v =
     (case find_first_of (\<lambda>c. c = slash) path start of
        Some pos \<Rightarrow>
          (case tp_component (take (pos - start) (drop start path)) v of
             None \<Rightarrow> None
           | Some v' \<Rightarrow> tp_loop path (pos + 1) v')
      | None \<Rightarrow> tp_component (drop start path) v)"
  by pat_completeness auto
termination
  by (relation "measure (\<lambda>(path, start, v). length path - start)")
    (auto dest!: find_first_of_Some)

declare tp_loop.simps [simp del]

text \<open>The outer \<open>None\<close> is the failed \<open>assert(!v.empty())\<close>, reached by a path such as \<open>.\<close>.\<close>

definition trim_path :: "string \<Rightarrow> string option" where
  "trim_path path =
     (if path = [] then Some path
      else case tp_loop path 0 (if path ! 0 = slash then [''/''] else []) of
             None \<Rightarrow> Some []
           | Some [] \<Rightarrow> None
           | Some (v0 # vs) \<Rightarrow>
               Some ((if v0 = ''/'' then [] else v0) @ concat (map ((#) slash) vs)))"

text \<open>A component the loop may push: neither empty nor a dot name, and with no slash in it.\<close>

definition plain :: "string \<Rightarrow> bool" where
  "plain c \<longleftrightarrow> c \<noteq> [] \<and> c \<noteq> ''.'' \<and> c \<noteq> ''..'' \<and> slash \<notin> set c"

lemma segment_no_slash:
  assumes "find_first_of (\<lambda>c. c = slash) path start = Some p"
  shows "slash \<notin> set (take (p - start) (drop start path))"
proof
  assume "slash \<in> set (take (p - start) (drop start path))"
  then obtain k where k: "k < length (take (p - start) (drop start path))"
    and "take (p - start) (drop start path) ! k = slash"
    by (metis in_set_conv_nth)
  then have "path ! (start + k) = slash" and "start + k < p" by auto
  then show False using find_first_of_Some [OF assms] by auto
qed

lemma last_segment_no_slash:
  assumes "find_first_of (\<lambda>c. c = slash) path start = None"
  shows "slash \<notin> set (drop start path)"
  using find_first_of_None [OF assms] by (auto simp: in_set_conv_nth)

text \<open>The stack: an optional root marker, then plain components.\<close>

definition path_stack :: "bool \<Rightarrow> string list \<Rightarrow> bool" where
  "path_stack rooted v \<longleftrightarrow>
     (if rooted then v \<noteq> [] \<and> hd v = ''/'' \<and> list_all plain (tl v) else list_all plain v)"

lemma tp_component_stack:
  assumes "path_stack rooted v" and "slash \<notin> set tmp" and "tp_component tmp v = Some w"
  shows "path_stack rooted w"
proof -
  have bl: "list_all plain (butlast xs)" if "list_all plain xs" for xs
    using that by (auto simp: list_all_iff dest: in_set_butlastD)
  have tb: "tl (butlast v) = butlast (tl v)" by (cases v) auto
  have hb: "length v > 1 \<Longrightarrow> butlast v \<noteq> [] \<and> hd (butlast v) = hd v" by (cases v) auto
  consider "w = v" | "w = butlast v" "length v > 1" | "w = v @ [tmp]" "plain tmp"
    using assms(2,3) by (auto simp: tp_component_def plain_def split: if_splits)
  then show ?thesis
  proof cases
    case 1
    then show ?thesis using assms(1) by simp
  next
    case 2
    then show ?thesis using assms(1) hb tb bl by (simp add: path_stack_def split: if_splits)
  next
    case 3
    then show ?thesis using assms(1) by (cases v) (auto simp: path_stack_def split: if_splits)
  qed
qed

lemma tp_loop_stack:
  "tp_loop path start v = Some w \<Longrightarrow> path_stack rooted v \<Longrightarrow> path_stack rooted w"
proof (induction path start v rule: tp_loop.induct)
  case (1 path start v)
  show ?case
  proof (cases "find_first_of (\<lambda>c. c = slash) path start")
    case None
    with 1 show ?thesis
      using tp_component_stack last_segment_no_slash [OF None]
      by (simp add: tp_loop.simps [of path start v])
  next
    case (Some p)
    then obtain v' where v': "tp_component (take (p - start) (drop start path)) v = Some v'"
      and rest: "tp_loop path (p + 1) v' = Some w"
      using "1.prems"(1) by (auto simp: tp_loop.simps [of path start v] split: option.splits)
    have "path_stack rooted v'"
      using tp_component_stack "1.prems"(2) segment_no_slash [OF Some] v' by blast
    then show ?thesis using "1.IH" [OF Some v' rest] by blast
  qed
qed

subsection \<open>Splitting by delimiters\<close>

function sv_loop :: "(char \<Rightarrow> bool) \<Rightarrow> string \<Rightarrow> nat \<Rightarrow> string list \<Rightarrow> string list" where
  "sv_loop delim str start_pos v =
     (case find_first_of delim str start_pos of
        Some end_pos \<Rightarrow>
          sv_loop delim str (end_pos + 1)
            (if end_pos \<noteq> start_pos then v @ [take (end_pos - start_pos) (drop start_pos str)] else v)
      | None \<Rightarrow> if start_pos < length str then v @ [drop start_pos str] else v)"
  by pat_completeness auto
termination
  by (relation "measure (\<lambda>(delim, str, start_pos, v). length str - start_pos)")
    (auto dest!: find_first_of_Some)

declare sv_loop.simps [simp del]

text \<open>An empty input returns before \<open>v->clear()\<close>, so the vector keeps its old content.\<close>

definition SliptStringToVector :: "string \<Rightarrow> string \<Rightarrow> string list \<Rightarrow> string list" where
  "SliptStringToVector str delimiter v =
     (if str = [] then v else sv_loop (\<lambda>c. c \<in> set delimiter) str 0 [])"

text \<open>
  \<open>SliptStringToSet\<close> runs the same loop with \<open>insert\<close> into a \<open>std::set\<close> in place
  of \<open>push_back\<close>.
\<close>

definition SliptStringToSet :: "string \<Rightarrow> string \<Rightarrow> string set \<Rightarrow> string set" where
  "SliptStringToSet str delimiter s =
     (if str = [] then s else set (sv_loop (\<lambda>c. c \<in> set delimiter) str 0 []))"

text \<open>The specification: the maximal runs of non-delimiters.\<close>

fun words_of :: "(char \<Rightarrow> bool) \<Rightarrow> string \<Rightarrow> string \<Rightarrow> string list" where
  "words_of d w [] = (if w = [] then [] else [w])"
| "words_of d w (c # cs) =
     (if d c then (if w = [] then [] else [w]) @ words_of d [] cs else words_of d (w @ [c]) cs)"

lemma words_of_run:
  "\<forall>c \<in> set xs. \<not> d c \<Longrightarrow> words_of d w (xs @ ys) = words_of d (w @ xs) ys"
  by (induction xs arbitrary: w) auto

lemma sv_loop_words: "start_pos \<le> length str \<Longrightarrow> sv_loop d str start_pos v = v @ words_of d [] (drop start_pos str)"
proof (induction d str start_pos v rule: sv_loop.induct)
  case (1 d str start_pos v)
  show ?case
  proof (cases "find_first_of d str start_pos")
    case None
    have "\<forall>c \<in> set (drop start_pos str). \<not> d c"
      using find_first_of_None [OF None] by (auto simp: in_set_conv_nth)
    from words_of_run [OF this, of "[]" "[]"] show ?thesis
      using None "1.prems" by (simp add: sv_loop.simps [of d str start_pos v])
  next
    case (Some e)
    note e = find_first_of_Some [OF Some]
    let ?w = "take (e - start_pos) (drop start_pos str)"
    have split: "drop start_pos str = ?w @ str ! e # drop (Suc e) str"
    proof -
      have "drop start_pos str = ?w @ drop (e - start_pos) (drop start_pos str)"
        by (metis append_take_drop_id)
      also have "drop (e - start_pos) (drop start_pos str) = drop e str"
        using e by simp
      also have "drop e str = str ! e # drop (Suc e) str"
        using e by (simp add: Cons_nth_drop_Suc)
      finally show ?thesis .
    qed
    have nd: "\<forall>c \<in> set ?w. \<not> d c"
      using e by (auto simp: in_set_conv_nth)
    have "words_of d [] (drop start_pos str) = (if ?w = [] then [] else [?w]) @ words_of d [] (drop (Suc e) str)"
      using words_of_run [OF nd, of "[]" "str ! e # drop (Suc e) str"] e split by simp
    moreover have "?w = [] \<longleftrightarrow> e = start_pos" using e by auto
    ultimately show ?thesis
      using Some "1.IH" [OF Some] e by (simp add: sv_loop.simps [of d str start_pos v])
  qed
qed

lemma concat_words_of:
  "\<forall>c \<in> set w. \<not> d c \<Longrightarrow> concat (words_of d w s) = w @ filter (\<lambda>c. \<not> d c) s"
  by (induction s arbitrary: w) simp_all

lemma words_of_nonempty: "x \<in> set (words_of d w s) \<Longrightarrow> x \<noteq> []"
  by (induction s arbitrary: w) (auto split: if_splits)

lemma words_of_no_delim:
  assumes "\<forall>c \<in> set w. \<not> d c" and "x \<in> set (words_of d w s)" and "c \<in> set x"
  shows "\<not> d c"
proof -
  have "c \<in> set (concat (words_of d w s))" using assms(2,3) by auto
  then show ?thesis using assms(1) by (auto simp: concat_words_of)
qed

subsection \<open>Creating directories\<close>

datatype fkind = Dir | NotDir

type_synonym fs = "string \<Rightarrow> fkind option"

text \<open>
  \<open>stat\<close> reads the file system \<open>fs\<close>; \<open>mk p fs\<close> is the kernel's \<open>mkdir\<close>:
  \<open>None\<close> when it fails. The result is the returned flag and the file system left behind.
\<close>

definition check_and_mkdir :: "(string \<Rightarrow> fs \<Rightarrow> fs option) \<Rightarrow> fs \<Rightarrow> string \<Rightarrow> bool \<times> fs" where
  "check_and_mkdir mk fs path =
     (case fs path of
        None \<Rightarrow> (case mk path fs of None \<Rightarrow> (False, fs) | Some fs' \<Rightarrow> (True, fs'))
      | Some k \<Rightarrow> (k = Dir, fs))"

function check_and_mkdir_r :: "(string \<Rightarrow> fs \<Rightarrow> fs option) \<Rightarrow> fs \<Rightarrow> string \<Rightarrow> bool \<times> fs" where
  "check_and_mkdir_r mk fs path =
     (let parent = parent_path path in
      if parent \<noteq> [] then
        (case fs parent of
           None \<Rightarrow> (let (ok, fs') = check_and_mkdir_r mk fs parent in
                    if ok then check_and_mkdir mk fs' path else (False, fs'))
         | Some k \<Rightarrow> if k = Dir then check_and_mkdir mk fs path else (False, fs))
      else check_and_mkdir mk fs path)"
  by pat_completeness auto
termination
  by (relation "measure (\<lambda>(mk, fs, path). length path)") (auto intro: parent_path_shorter)

declare check_and_mkdir_r.simps [simp del]

text \<open>What the code relies on: a successful \<open>mkdir\<close> adds exactly that directory.\<close>

definition mkdir_law :: "(string \<Rightarrow> fs \<Rightarrow> fs option) \<Rightarrow> bool" where
  "mkdir_law mk \<longleftrightarrow> (\<forall>p fs fs'. mk p fs = Some fs' \<longrightarrow> fs' = fs(p \<mapsto> Dir))"

lemma check_and_mkdir_keeps:
  assumes "mkdir_law mk" and "check_and_mkdir mk fs path = (ok, fs')"
  shows "fs q = Some k \<Longrightarrow> fs' q = Some k" and "ok \<Longrightarrow> fs' path = Some Dir"
proof -
  have *: "mk path fs = Some g \<Longrightarrow> g = fs(path \<mapsto> Dir)" for g
    using assms(1) by (simp add: mkdir_law_def)
  show "fs q = Some k \<Longrightarrow> fs' q = Some k" and "ok \<Longrightarrow> fs' path = Some Dir"
    using assms(2) by (auto simp: check_and_mkdir_def dest!: * split: option.splits)
qed

lemma check_and_mkdir_le:
  assumes "mkdir_law mk" and "check_and_mkdir mk fs path = (ok, fs')"
  shows "fs \<subseteq>\<^sub>m fs'"
  using check_and_mkdir_keeps(1) [OF assms] by (auto simp: map_le_def dom_def)

lemma check_and_mkdir_r_keeps:
  "mkdir_law mk \<Longrightarrow> check_and_mkdir_r mk fs path = (ok, fs') \<Longrightarrow>
    fs \<subseteq>\<^sub>m fs' \<and> (ok \<longrightarrow> fs' path = Some Dir \<and> (parent_path path \<noteq> [] \<longrightarrow> fs' (parent_path path) = Some Dir))"
proof (induction mk fs path arbitrary: ok fs' rule: check_and_mkdir_r.induct)
  case (1 mk fs path)
  note law = "1.prems"(1)
  let ?p = "parent_path path"
  show ?case
  proof (cases "?p = [] \<or> fs ?p \<noteq> None")
    case True
    then have "check_and_mkdir mk fs path = (ok, fs') \<and> (?p \<noteq> [] \<longrightarrow> fs ?p = Some Dir) \<or> \<not> ok \<and> fs' = fs"
      using "1.prems"(2) by (auto simp: check_and_mkdir_r.simps [of mk fs path] Let_def split: option.splits if_splits)
    then show ?thesis
      by (metis check_and_mkdir_keeps [OF law] check_and_mkdir_le [OF law] map_le_refl)
  next
    case False
    obtain ok1 fs1 where rec: "check_and_mkdir_r mk fs ?p = (ok1, fs1)" by fastforce
    have ih: "fs \<subseteq>\<^sub>m fs1 \<and> (ok1 \<longrightarrow> fs1 ?p = Some Dir)"
      using "1.IH" [OF refl _ _ law rec] False by simp
    show ?thesis
    proof (cases ok1)
      case True
      then have last: "check_and_mkdir mk fs1 path = (ok, fs')"
        using "1.prems"(2) False rec by (simp add: check_and_mkdir_r.simps [of mk fs path] Let_def)
      show ?thesis
        using ih True check_and_mkdir_le [OF law last] check_and_mkdir_keeps [OF law last] map_le_trans
        by blast
    next
      case no: False
      then show ?thesis
        using "1.prems"(2) False rec ih by (simp add: check_and_mkdir_r.simps [of mk fs path] Let_def)
    qed
  qed
qed

subsection \<open>Properties\<close>

text \<open>A successful \<open>path_slipt\<close> cuts the path at its last separator: the short name is
  non-empty and free of slashes, and the two parts rebuild the path up to trailing slashes.\<close>

theorem path_slipt_rebuilds:
  assumes "path_slipt path = Some (parent, short)"
  shows "short \<noteq> [] \<and> slash \<notin> set short \<and>
    (\<exists>k. path = parent @ slash # short @ replicate k slash
       \<or> parent = ''/'' \<and> path = parent @ short @ replicate k slash)"
proof -
  from assms obtain pos where pos: "rfind slash (trim_back_slash path) = Some pos"
    and eq: "parent = parent_path path" "short = file_name path"
    by (auto simp: path_slipt_iff)
  have "trim_back_slash path \<noteq> []" using pos by (auto simp: rfind_def)
  then have "short \<noteq> []" using eq file_name_nonempty by simp
  moreover obtain k where "path = trim_back_slash path @ replicate k slash"
    using trim_back_slash_prefix by blast
  ultimately show ?thesis
    using parent_file_join [OF pos] eq file_name_no_slash by (metis append.assoc append_Cons append_Nil)
qed

theorem path_slipt_rebuilds_witness:
  "path_slipt ''/a/b//'' = Some (''/a'', ''b'') \<and> ''b'' \<noteq> [] \<and> slash \<notin> set ''b''"
proof -
  have "path_slipt ''/a/b//'' = Some (''/a'', ''b'')"
    by (simp add: path_slipt_def trim_back_slash_def rfind_def Let_def)
  from path_slipt_rebuilds [OF this] this show ?thesis by simp
qed

text \<open>What \<open>trim_path\<close> returns is in normal form: separator-joined components, none of
  them empty, a dot or a double dot, rooted exactly when the input was.\<close>

theorem trim_path_normal_form:
  assumes "trim_path path = Some r"
  shows "\<exists>cs. list_all plain cs \<and>
    r = (if is_absolute_path path then concat (map ((#) slash) cs)
         else (case cs of [] \<Rightarrow> [] | c # cs' \<Rightarrow> c @ concat (map ((#) slash) cs')))"
proof (cases "path = [] \<or> r = []")
  case True
  then show ?thesis using assms by (intro exI [of _ "[]"]) (auto simp: trim_path_def)
next
  case False
  let ?v = "if path ! 0 = slash then [''/''] else []"
  have "path_stack (is_absolute_path path) ?v"
    using False by (simp add: path_stack_def is_absolute_path_def)
  moreover obtain v0 vs where loop: "tp_loop path 0 ?v = Some (v0 # vs)"
    and r: "r = (if v0 = ''/'' then [] else v0) @ concat (map ((#) slash) vs)"
    using assms False by (auto simp: trim_path_def split: option.splits list.splits)
  ultimately have st: "path_stack (is_absolute_path path) (v0 # vs)" by (metis tp_loop_stack)
  show ?thesis
  proof (cases "is_absolute_path path")
    case True
    then show ?thesis using st r by (intro exI [of _ vs]) (simp add: path_stack_def)
  next
    case rel: False
    then have "v0 \<noteq> ''/''" using st by (auto simp: path_stack_def plain_def)
    then show ?thesis using st r rel by (intro exI [of _ "v0 # vs"]) (simp add: path_stack_def)
  qed
qed

theorem trim_path_normal_form_witness:
  "trim_path ''/a/./b/..//c/'' = Some ''/a/c''
   \<and> (\<exists>cs. list_all plain cs \<and> ''/a/c'' = concat (map ((#) slash) cs))"
proof -
  have t: "trim_path ''/a/./b/..//c/'' = Some ''/a/c''"
    by (simp add: trim_path_def tp_loop.simps tp_component_def find_first_of.simps)
  from trim_path_normal_form [OF t] t show ?thesis
    by (simp add: is_absolute_path_def)
qed

text \<open>On a non-empty input \<open>SliptStringToVector\<close> yields exactly the maximal runs of
  non-delimiter characters: non-empty, free of delimiters, in order, losing no other character.\<close>

theorem SliptStringToVector_tokens:
  assumes "str \<noteq> []"
  shows "SliptStringToVector str delimiter v = words_of (\<lambda>c. c \<in> set delimiter) [] str
    \<and> concat (SliptStringToVector str delimiter v) = filter (\<lambda>c. c \<notin> set delimiter) str
    \<and> (\<forall>x \<in> set (SliptStringToVector str delimiter v). x \<noteq> [] \<and> set x \<inter> set delimiter = {})"
proof -
  let ?d = "\<lambda>c. c \<in> set delimiter"
  have eq: "SliptStringToVector str delimiter v = words_of ?d [] str"
    using assms sv_loop_words [of 0 str ?d "[]"] by (simp add: SliptStringToVector_def)
  show ?thesis unfolding eq
    using concat_words_of [of "[]" ?d str] words_of_nonempty words_of_no_delim [of "[]" ?d]
    by fastforce
qed

theorem SliptStringToVector_tokens_witness:
  "SliptStringToVector ''a,,b'' '','' [''x''] = [''a'', ''b'']"
proof -
  have "''a,,b'' \<noteq> []" by simp
  from SliptStringToVector_tokens [OF this, of "'',''" "[''x'']"] show ?thesis by simp
qed

text \<open>When \<open>check_and_mkdir_r\<close> returns true the path and its parent are directories; in
  every case nothing that existed before is lost.\<close>

theorem check_and_mkdir_r_creates:
  assumes "mkdir_law mk" and "check_and_mkdir_r mk fs path = (ok, fs')"
  shows "fs \<subseteq>\<^sub>m fs' \<and> (ok \<longrightarrow> fs' path = Some Dir \<and>
    (parent_path path \<noteq> [] \<longrightarrow> fs' (parent_path path) = Some Dir))"
  using assms by (rule check_and_mkdir_r_keeps)

theorem check_and_mkdir_r_creates_witness:
  "(let mk = (\<lambda>p (g :: fs). Some (g(p \<mapsto> Dir))); g = snd (check_and_mkdir_r mk (\<lambda>_. None) ''/a/b'')
    in g ''/a/b'' = Some Dir \<and> g ''/a'' = Some Dir)"
proof -
  let ?mk = "\<lambda>p (g :: fs). Some (g(p \<mapsto> Dir))"
  have law: "mkdir_law ?mk" by (simp add: mkdir_law_def)
  obtain ok g where run: "check_and_mkdir_r ?mk (\<lambda>_. None) ''/a/b'' = (ok, g)" by fastforce
  have p: "parent_path ''/a/b'' = ''/a''" "parent_path ''/a'' = ''/''" "parent_path ''/'' = []"
    by (simp_all add: parent_path_def trim_back_slash_def rfind_def Let_def)
  have ok: "ok" using run by (simp add: check_and_mkdir_r.simps check_and_mkdir_def p Let_def)
  show ?thesis using check_and_mkdir_r_creates [OF law run] run ok p by (simp add: Let_def)
qed

end
