(* ===== verification/Encode.thy ===== *)
theory Encode
  imports Prelude
begin

text \<open>
  Text encodings shared by the agent and the tracker:
  \<open>gko-tracker-src/src/encode.cpp\<close> (the agent's \<open>encode.cpp\<close> is the same code). A
  \<open>char\<close> is a byte; a function with a \<open>bool\<close> result and an out-parameter returns an
  option. Boost's base64 iterators are not under \<open>src/\<close>: they are the parameters
  \<open>b64e\<close> and \<open>b64d\<close>.
\<close>

subsection \<open>Bytes\<close>

definition byte_of :: "char \<Rightarrow> u8" where
  "byte_of c = of_char c"

definition char_of_byte :: "u8 \<Rightarrow> char" where
  "char_of_byte b = char_of (unat b)"

lemma unat_byte_of: "unat (byte_of c) = of_char c"
proof -
  have "byte_of c = of_nat (of_char c)" by (simp add: byte_of_def of_nat_of_char)
  then show ?thesis by (simp add: unat_of_nat)
qed

lemma char_of_byte_of [simp]: "char_of_byte (byte_of c) = c"
  by (simp add: char_of_byte_def unat_byte_of)

lemma byte_of_char_of_byte [simp]: "byte_of (char_of_byte b) = b"
proof -
  have "unat b < 256" using unsigned_less [of b, where 'a = nat] by simp
  then have "unat (byte_of (char_of_byte b)) = unat b"
    by (simp add: unat_byte_of) (simp add: char_of_byte_def)
  then show ?thesis by (simp only: word_unat_eq_iff)
qed

subsection \<open>Hexadecimal\<close>

definition HexcharToDigit :: "char \<Rightarrow> u8 option" where
  "HexcharToDigit c =
     (let n = (of_char c :: nat) in
      if 48 \<le> n \<and> n \<le> 57 then Some (byte_of c - 48)
      else if 97 \<le> n \<and> n \<le> 102 then Some (byte_of c - 97 + 10)
      else if 65 \<le> n \<and> n \<le> 70 then Some (byte_of c - 65 + 10)
      else None)"

definition DigitToHex :: "u8 \<Rightarrow> char" where
  "DigitToHex digit = ''0123456789abcdef'' ! unat (digit AND 0x0f)"

text \<open>The loop of \<open>HexstrToBytes\<close>, two characters a round; the length is even here.\<close>

fun hex_loop :: "string \<Rightarrow> string option" where
  "hex_loop (h # l # rest) =
     (case HexcharToDigit h of
        None \<Rightarrow> None
      | Some hi \<Rightarrow>
          (case HexcharToDigit l of
             None \<Rightarrow> None
           | Some lo \<Rightarrow> map_option (\<lambda>bs. char_of_byte (push_bit 4 hi + lo) # bs) (hex_loop rest)))"
| "hex_loop _ = Some []"

definition HexstrToBytes :: "string \<Rightarrow> string option" where
  "HexstrToBytes hex = (if length hex mod 2 \<noteq> 0 then None else hex_loop hex)"

fun BytesToHex :: "string \<Rightarrow> string" where
  "BytesToHex [] = []"
| "BytesToHex (b # bs) =
     DigitToHex (drop_bit 4 (byte_of b AND 0xf0)) # DigitToHex (byte_of b AND 0x0f) # BytesToHex bs"

lemma nibble_mask: "(0x0f :: u8) = mask 4"
  by (simp add: mask_eq_exp_minus_1)

lemma nibble_lt: "unat (b AND 0x0f :: u8) < 16"
proof -
  have "unat (take_bit 4 b) = take_bit 4 (unat b)" by (rule unsigned_take_bit_eq)
  also have "\<dots> < 2 ^ 4" by (rule take_bit_nat_less_exp)
  finally show ?thesis by (simp add: nibble_mask take_bit_eq_mask)
qed

lemma hex_digit_small: "n < 16 \<Longrightarrow> HexcharToDigit (''0123456789abcdef'' ! n) = Some (of_nat n)"
  by (auto simp: eval_nat_numeral less_Suc_eq HexcharToDigit_def byte_of_def)

lemma hex_digit_roundtrip: "HexcharToDigit (DigitToHex b) = Some (b AND 0x0f)"
  using hex_digit_small [OF nibble_lt, of b] by (simp add: DigitToHex_def)

lemma hex_byte_parts:
  "push_bit 4 (drop_bit 4 (b AND 0xf0) AND 0x0f) + (b AND 0x0f) = (b :: u8)"
proof -
  have hi: "drop_bit 4 (b AND 0xf0) = drop_bit 4 b AND (mask 4 :: u8)"
    by (simp add: drop_bit_and mask_eq_exp_minus_1)
  have cut: "drop_bit 4 b AND (mask 4 :: u8) = drop_bit 4 b"
    by (rule bit_eqI) (auto simp: bit_simps dest: bit_imp_le_length)
  show ?thesis unfolding hi nibble_mask
    by (simp only: cut) (simp add: bits_ident flip: take_bit_eq_mask)
qed

lemma length_BytesToHex [simp]: "length (BytesToHex bs) = 2 * length bs"
  by (induction bs) auto

lemma hex_loop_BytesToHex: "hex_loop (BytesToHex bs) = Some bs"
  by (induction bs) (simp_all add: hex_digit_roundtrip hex_byte_parts del: push_bit_and drop_bit_and)

lemma hex_loop_None_iff:
  "even (length hex) \<Longrightarrow> hex_loop hex = None \<longleftrightarrow> (\<exists>c \<in> set hex. HexcharToDigit c = None)"
  by (induction hex rule: hex_loop.induct) (auto split: option.splits)

lemma hex_loop_length: "hex_loop hex = Some bs \<Longrightarrow> length bs = length hex div 2"
  by (induction hex arbitrary: bs rule: hex_loop.induct) (auto split: option.splits)

interpretation hex: codec BytesToHex HexstrToBytes "\<lambda>_. True"
  by unfold_locales (simp add: HexstrToBytes_def hex_loop_BytesToHex)

subsection \<open>Base64\<close>

text \<open>
  \<open>b64e\<close> is what copying the whole string through \<open>Base64EncodeIterator\<close> writes;
  \<open>b64d\<close> is the same for the decoder, \<open>None\<close> when it throws.
\<close>

definition Base64Encode :: "(string \<Rightarrow> string) \<Rightarrow> string \<Rightarrow> string option" where
  "Base64Encode b64e input =
     (if input = [] then Some []
      else let output = b64e input @ replicate ((3 - length input mod 3) mod 3) CHR ''=''
           in if output = [] then None else Some output)"

definition strip_padding :: "string \<Rightarrow> nat" where
  "strip_padding input =
     (let size = length input in
      if size \<noteq> 0 \<and> input ! (size - 1) = CHR ''='' then
        (let size = size - 1 in
         if size \<noteq> 0 \<and> input ! (size - 1) = CHR ''='' then size - 1 else size)
      else size)"

definition Base64Decode :: "(string \<Rightarrow> string option) \<Rightarrow> string \<Rightarrow> string option" where
  "Base64Decode b64d input =
     (let size = strip_padding input in
      if size = 0 then Some []
      else case b64d (take size input) of
             None \<Rightarrow> None
           | Some output \<Rightarrow> if output = [] then None else Some output)"

definition HexToBase64 :: "(string \<Rightarrow> string) \<Rightarrow> string \<Rightarrow> string option" where
  "HexToBase64 b64e hex =
     (case HexstrToBytes hex of None \<Rightarrow> None | Some bytes \<Rightarrow> Base64Encode b64e bytes)"

definition Base64ToHex :: "(string \<Rightarrow> string option) \<Rightarrow> string \<Rightarrow> string option" where
  "Base64ToHex b64d base64str =
     (case Base64Decode b64d base64str of None \<Rightarrow> None | Some bytes \<Rightarrow> Some (BytesToHex bytes))"

text \<open>
  What the code relies on of the two iterators: the encoder writes something for a
  non-empty input, never the padding character, and the decoder inverts it.
\<close>

definition b64_law :: "(string \<Rightarrow> string) \<Rightarrow> (string \<Rightarrow> string option) \<Rightarrow> bool" where
  "b64_law b64e b64d \<longleftrightarrow>
     (\<forall>x. x \<noteq> [] \<longrightarrow> b64e x \<noteq> [] \<and> CHR ''='' \<notin> set (b64e x) \<and> b64d (b64e x) = Some x)"

lemma strip_padding_append:
  assumes "e \<noteq> []" and "CHR ''='' \<notin> set e" and "n \<le> 2"
  shows "strip_padding (e @ replicate n CHR ''='') = length e"
proof -
  have l: "e ! (length e - 1) \<noteq> CHR ''=''" using assms(1,2) by (metis last_conv_nth last_in_set)
  consider "n = 0" | "n = 1" | "n = 2" using assms(3) by linarith
  then show ?thesis
    using assms(1) l by cases (auto simp: strip_padding_def Let_def nth_append numeral_2_eq_2)
qed

lemma Base64_roundtrip:
  assumes law: "b64_law b64e b64d"
  shows "\<exists>e. Base64Encode b64e x = Some e \<and> Base64Decode b64d e = Some x"
proof (cases "x = []")
  case True
  then show ?thesis by (simp add: Base64Encode_def Base64Decode_def strip_padding_def)
next
  case False
  let ?n = "(3 - length x mod 3) mod 3"
  have l: "b64e x \<noteq> []" "CHR ''='' \<notin> set (b64e x)" "b64d (b64e x) = Some x"
    using law False by (auto simp: b64_law_def)
  have "?n \<le> 2" using mod_less_divisor [of 3 "3 - length x mod 3"] by linarith
  then have "strip_padding (b64e x @ replicate ?n CHR ''='') = length (b64e x)"
    using l by (intro strip_padding_append) auto
  then have "Base64Decode b64d (b64e x @ replicate ?n CHR ''='') = Some x"
    using l False by (simp add: Base64Decode_def)
  then show ?thesis using False l by (auto simp: Base64Encode_def Let_def)
qed

lemma Base64Encode_inj:
  "b64_law b64e b64d \<Longrightarrow> Base64Encode b64e x = Base64Encode b64e y \<Longrightarrow> x = y"
  by (metis Base64_roundtrip option.inject)

subsection \<open>Hexadecimal text is canonical lower case\<close>

definition hex_lower :: "char \<Rightarrow> char" where
  "hex_lower c = (let n = (of_char c :: nat) in if 65 \<le> n \<and> n \<le> 70 then char_of (n + 32) else c)"

lemma hex_digit_cases:
  assumes "HexcharToDigit c = Some d"
  shows "c \<in> set ''0123456789abcdefABCDEF''"
proof -
  define n where "n = (of_char c :: nat)"
  have c: "c = char_of n" by (simp add: n_def)
  have "(48 \<le> n \<and> n \<le> 57) \<or> (97 \<le> n \<and> n \<le> 102) \<or> (65 \<le> n \<and> n \<le> 70)"
    using assms by (auto simp: HexcharToDigit_def Let_def n_def split: if_splits)
  then have "n = 48 \<or> n = 49 \<or> n = 50 \<or> n = 51 \<or> n = 52 \<or> n = 53 \<or> n = 54
    \<or> n = 55 \<or> n = 56 \<or> n = 57 \<or> n = 97 \<or> n = 98 \<or> n = 99 \<or> n =
    100 \<or> n = 101 \<or> n = 102 \<or> n = 65 \<or> n = 66 \<or> n = 67 \<or> n = 68
    \<or> n = 69 \<or> n = 70"
    by presburger
  then show ?thesis unfolding c by (elim disjE; simp add: char_of_def bit_Suc_0_iff)
qed

lemma hex_digit_canonical:
  assumes "HexcharToDigit c = Some d"
  shows "DigitToHex d = hex_lower c \<and> unat d < 16"
  using hex_digit_cases [OF assms] assms
  by (auto simp: HexcharToDigit_def byte_of_def DigitToHex_def hex_lower_def char_of_def bit_Suc_0_iff)

lemma nibble_word: "unat d < 16 \<Longrightarrow> take_bit 4 d = (d :: u8)"
proof -
  assume "unat d < 16"
  then have "take_bit 4 (unat d) = unat d" by (simp add: take_bit_nat_eq_self)
  then have "unat (take_bit 4 d) = unat d" by (simp only: unsigned_take_bit_eq)
  then show ?thesis by (simp only: word_unat_eq_iff)
qed

lemma nibble_bit: "unat d < 16 \<Longrightarrow> bit (d :: u8) n \<Longrightarrow> n < 4"
  by (metis bit_take_bit_iff nibble_word)

lemma nibble_sum:
  assumes "unat lo < 16"
  shows "push_bit 4 hi + lo = (push_bit 4 hi OR lo :: u8)"
  by (rule disjunctive_add) (auto simp: bit_simps dest: nibble_bit [OF assms])

lemma byte_nibbles_low:
  assumes "unat hi < 16" and "unat lo < 16"
  shows "(push_bit 4 hi + lo) AND 0x0f = (lo :: u8)"
  unfolding nibble_sum [OF assms(2)] nibble_mask
  by (rule bit_eqI) (auto simp: bit_simps dest: nibble_bit [OF assms(2)])

lemma byte_nibbles_high:
  assumes "unat hi < 16" and "unat lo < 16"
  shows "drop_bit 4 ((push_bit 4 hi + lo) AND 0xf0) = (hi :: u8)"
proof -
  have m: "(0xf0 :: u8) = NOT (mask 4)" by (simp add: mask_eq_exp_minus_1)
  show ?thesis
    unfolding nibble_sum [OF assms(2)] m
    by (intro bit_eqI) (auto simp: bit_simps dest: nibble_bit [OF assms(1)] nibble_bit [OF assms(2)])
qed

lemma hex_loop_BytesToHex_lower:
  "even (length hex) \<Longrightarrow> hex_loop hex = Some bs \<Longrightarrow> BytesToHex bs = map hex_lower hex"
proof (induction hex arbitrary: bs rule: hex_loop.induct)
  case (1 h l rest)
  obtain hi lo bs' where d: "HexcharToDigit h = Some hi" "HexcharToDigit l = Some lo"
    and r: "hex_loop rest = Some bs'" and bs: "bs = char_of_byte (push_bit 4 hi + lo) # bs'"
    using "1.prems"(2) by (auto split: option.splits)
  have lt: "unat hi < 16" "unat lo < 16"
    and dig: "DigitToHex hi = hex_lower h" "DigitToHex lo = hex_lower l"
    using hex_digit_canonical [OF d(1)] hex_digit_canonical [OF d(2)] by auto
  have "BytesToHex bs' = map hex_lower rest" using 1 d r by simp
  then show ?case
    using dig by (simp add: bs byte_nibbles_high [OF lt] byte_nibbles_low [OF lt] del: drop_bit_and)
qed simp_all

text \<open>An info hash or peer id written in hexadecimal survives the trip to base64 and
  back: every even-length string of hexadecimal digits is accepted, and what comes
  back is the same text with its letters in lower case.\<close>

theorem Base64ToHex_HexToBase64:
  assumes "b64_law b64e b64d" and "even (length hex)"
    and "\<forall>c \<in> set hex. HexcharToDigit c \<noteq> None"
  shows "\<exists>e. HexToBase64 b64e hex = Some e \<and> Base64ToHex b64d e = Some (map hex_lower hex)"
proof -
  obtain bs where bs: "hex_loop hex = Some bs"
    using assms(2,3) by (cases "hex_loop hex") (auto simp: hex_loop_None_iff)
  obtain e where e: "Base64Encode b64e bs = Some e" "Base64Decode b64d e = Some bs"
    using Base64_roundtrip [OF assms(1)] by blast
  have "HexToBase64 b64e hex = Some e"
    using assms(2) bs e(1) by (simp add: HexToBase64_def HexstrToBytes_def)
  moreover have "Base64ToHex b64d e = Some (map hex_lower hex)"
    using e(2) hex_loop_BytesToHex_lower [OF assms(2) bs] by (simp add: Base64ToHex_def)
  ultimately show ?thesis by blast
qed

lemma hex_is_b64: "b64_law BytesToHex HexstrToBytes"
proof -
  have "DigitToHex d \<noteq> CHR ''=''" for d
    using hex_digit_roundtrip [of d] by (auto simp: HexcharToDigit_def)
  then have "CHR ''='' \<notin> set (BytesToHex x)" for x
    by (induction x) (metis BytesToHex.simps(1) empty_iff empty_set, metis BytesToHex.simps(2) set_ConsD)
  moreover have "x \<noteq> [] \<Longrightarrow> BytesToHex x \<noteq> []" for x by (cases x) auto
  ultimately show ?thesis
    by (auto simp: b64_law_def HexstrToBytes_def hex_loop_BytesToHex)
qed

lemma Base64ToHex_HexToBase64_witness:
  "\<exists>e. HexToBase64 BytesToHex ''1Fa0'' = Some e \<and> Base64ToHex HexstrToBytes e = Some ''1fa0''"
  using Base64ToHex_HexToBase64 [OF hex_is_b64, of "''1Fa0''"]
  by (simp add: HexcharToDigit_def hex_lower_def char_of_def bit_Suc_0_iff)

end
