(* ===== verification/Crc32.thy ===== *)
theory Crc32
  imports Encode
begin

text \<open>
  The two key hashes of the tracker: \<open>gko-tracker-src/src/hash_crc32.cpp\<close>, which picks the
  Redis instance of a key, and \<open>BKDRHash\<close> of
  \<open>gko-tracker-src/include/bbts/KeyTypeRWLock.hpp\<close>, which picks its lock.
\<close>

subsection \<open>CRC-32\<close>

definition crc32tab :: "u32 list" where
  "crc32tab =
    [0x00000000, 0x77073096, 0xee0e612c, 0x990951ba, 0x076dc419, 0x706af48f,
     0xe963a535, 0x9e6495a3, 0x0edb8832, 0x79dcb8a4, 0xe0d5e91e, 0x97d2d988,
     0x09b64c2b, 0x7eb17cbd, 0xe7b82d07, 0x90bf1d91, 0x1db71064, 0x6ab020f2,
     0xf3b97148, 0x84be41de, 0x1adad47d, 0x6ddde4eb, 0xf4d4b551, 0x83d385c7,
     0x136c9856, 0x646ba8c0, 0xfd62f97a, 0x8a65c9ec, 0x14015c4f, 0x63066cd9,
     0xfa0f3d63, 0x8d080df5, 0x3b6e20c8, 0x4c69105e, 0xd56041e4, 0xa2677172,
     0x3c03e4d1, 0x4b04d447, 0xd20d85fd, 0xa50ab56b, 0x35b5a8fa, 0x42b2986c,
     0xdbbbc9d6, 0xacbcf940, 0x32d86ce3, 0x45df5c75, 0xdcd60dcf, 0xabd13d59,
     0x26d930ac, 0x51de003a, 0xc8d75180, 0xbfd06116, 0x21b4f4b5, 0x56b3c423,
     0xcfba9599, 0xb8bda50f, 0x2802b89e, 0x5f058808, 0xc60cd9b2, 0xb10be924,
     0x2f6f7c87, 0x58684c11, 0xc1611dab, 0xb6662d3d, 0x76dc4190, 0x01db7106,
     0x98d220bc, 0xefd5102a, 0x71b18589, 0x06b6b51f, 0x9fbfe4a5, 0xe8b8d433,
     0x7807c9a2, 0x0f00f934, 0x9609a88e, 0xe10e9818, 0x7f6a0dbb, 0x086d3d2d,
     0x91646c97, 0xe6635c01, 0x6b6b51f4, 0x1c6c6162, 0x856530d8, 0xf262004e,
     0x6c0695ed, 0x1b01a57b, 0x8208f4c1, 0xf50fc457, 0x65b0d9c6, 0x12b7e950,
     0x8bbeb8ea, 0xfcb9887c, 0x62dd1ddf, 0x15da2d49, 0x8cd37cf3, 0xfbd44c65,
     0x4db26158, 0x3ab551ce, 0xa3bc0074, 0xd4bb30e2, 0x4adfa541, 0x3dd895d7,
     0xa4d1c46d, 0xd3d6f4fb, 0x4369e96a, 0x346ed9fc, 0xad678846, 0xda60b8d0,
     0x44042d73, 0x33031de5, 0xaa0a4c5f, 0xdd0d7cc9, 0x5005713c, 0x270241aa,
     0xbe0b1010, 0xc90c2086, 0x5768b525, 0x206f85b3, 0xb966d409, 0xce61e49f,
     0x5edef90e, 0x29d9c998, 0xb0d09822, 0xc7d7a8b4, 0x59b33d17, 0x2eb40d81,
     0xb7bd5c3b, 0xc0ba6cad, 0xedb88320, 0x9abfb3b6, 0x03b6e20c, 0x74b1d29a,
     0xead54739, 0x9dd277af, 0x04db2615, 0x73dc1683, 0xe3630b12, 0x94643b84,
     0x0d6d6a3e, 0x7a6a5aa8, 0xe40ecf0b, 0x9309ff9d, 0x0a00ae27, 0x7d079eb1,
     0xf00f9344, 0x8708a3d2, 0x1e01f268, 0x6906c2fe, 0xf762575d, 0x806567cb,
     0x196c3671, 0x6e6b06e7, 0xfed41b76, 0x89d32be0, 0x10da7a5a, 0x67dd4acc,
     0xf9b9df6f, 0x8ebeeff9, 0x17b7be43, 0x60b08ed5, 0xd6d6a3e8, 0xa1d1937e,
     0x38d8c2c4, 0x4fdff252, 0xd1bb67f1, 0xa6bc5767, 0x3fb506dd, 0x48b2364b,
     0xd80d2bda, 0xaf0a1b4c, 0x36034af6, 0x41047a60, 0xdf60efc3, 0xa867df55,
     0x316e8eef, 0x4669be79, 0xcb61b38c, 0xbc66831a, 0x256fd2a0, 0x5268e236,
     0xcc0c7795, 0xbb0b4703, 0x220216b9, 0x5505262f, 0xc5ba3bbe, 0xb2bd0b28,
     0x2bb45a92, 0x5cb36a04, 0xc2d7ffa7, 0xb5d0cf31, 0x2cd99e8b, 0x5bdeae1d,
     0x9b64c2b0, 0xec63f226, 0x756aa39c, 0x026d930a, 0x9c0906a9, 0xeb0e363f,
     0x72076785, 0x05005713, 0x95bf4a82, 0xe2b87a14, 0x7bb12bae, 0x0cb61b38,
     0x92d28e9b, 0xe5d5be0d, 0x7cdcefb7, 0x0bdbdf21, 0x86d3d2d4, 0xf1d4e242,
     0x68ddb3f8, 0x1fda836e, 0x81be16cd, 0xf6b9265b, 0x6fb077e1, 0x18b74777,
     0x88085ae6, 0xff0f6a70, 0x66063bca, 0x11010b5c, 0x8f659eff, 0xf862ae69,
     0x616bffd3, 0x166ccf45, 0xa00ae278, 0xd70dd2ee, 0x4e048354, 0x3903b3c2,
     0xa7672661, 0xd06016f7, 0x4969474d, 0x3e6e77db, 0xaed16a4a, 0xd9d65adc,
     0x40df0b66, 0x37d83bf0, 0xa9bcae53, 0xdebb9ec5, 0x47b2cf7f, 0x30b5ffe9,
     0xbdbdf21c, 0xcabac28a, 0x53b39330, 0x24b4a3a6, 0xbad03605, 0xcdd70693,
     0x54de5729, 0x23d967bf, 0xb3667a2e, 0xc4614ab8, 0x5d681b02, 0x2a6f2b94,
     0xb40bbe37, 0xc30c8ea1, 0x5a05df1b, 0x2d02ef8d]"

text \<open>One round of the loop of \<open>hash_crc32\<close>.\<close>

definition crc_round :: "u32 \<Rightarrow> char \<Rightarrow> u32" where
  "crc_round crc c = drop_bit 8 crc XOR crc32tab ! unat ((crc XOR of_char c) AND 0xff)"

definition hash_crc32 :: "string \<Rightarrow> u32" where
  "hash_crc32 key = foldl crc_round 0xFFFFFFFF key XOR 0xFFFFFFFF"

text \<open>The reference: the bit-serial CRC with the reflected polynomial \<open>0xEDB88320\<close>.\<close>

definition crc_bit :: "u32 \<Rightarrow> u32" where
  "crc_bit r = (if bit r 0 then drop_bit 1 r XOR 0xEDB88320 else drop_bit 1 r)"

definition crc_byte_spec :: "u32 \<Rightarrow> char \<Rightarrow> u32" where
  "crc_byte_spec crc c = (crc_bit ^^ 8) (crc XOR of_char c)"

definition crc32_spec :: "string \<Rightarrow> u32" where
  "crc32_spec key = NOT (foldl crc_byte_spec (NOT 0) key)"

lemma length_crc32tab: "length crc32tab = 256"
  by (simp add: crc32tab_def)

lemma crc_bit_8: "(crc_bit ^^ 8) r =
    crc_bit (crc_bit (crc_bit (crc_bit (crc_bit (crc_bit (crc_bit (crc_bit r)))))))"
  by (simp add: eval_nat_numeral)

lemma crc32tab_map: "crc32tab = map (crc_bit ^^ 8) (map of_nat [0..<256])"
proof -
  have "map of_nat [0..<256] = [0, 1, 2, 3, 4, 5, 6, 7, 8, 9, 10, 11, 12, 13, 14, 15, 16, 17, 18, 19, 20, 21, 22, 23, 24,
    25, 26, 27, 28, 29, 30, 31, 32, 33, 34, 35, 36, 37, 38, 39, 40, 41, 42, 43, 44, 45, 46,
    47, 48, 49, 50, 51, 52, 53, 54, 55, 56, 57, 58, 59, 60, 61, 62, 63, 64, 65, 66, 67, 68,
    69, 70, 71, 72, 73, 74, 75, 76, 77, 78, 79, 80, 81, 82, 83, 84, 85, 86, 87, 88, 89, 90,
    91, 92, 93, 94, 95, 96, 97, 98, 99, 100, 101, 102, 103, 104, 105, 106, 107, 108, 109, 110,
    111, 112, 113, 114, 115, 116, 117, 118, 119, 120, 121, 122, 123, 124, 125, 126, 127, 128,
    129, 130, 131, 132, 133, 134, 135, 136, 137, 138, 139, 140, 141, 142, 143, 144, 145, 146,
    147, 148, 149, 150, 151, 152, 153, 154, 155, 156, 157, 158, 159, 160, 161, 162, 163, 164,
    165, 166, 167, 168, 169, 170, 171, 172, 173, 174, 175, 176, 177, 178, 179, 180, 181, 182,
    183, 184, 185, 186, 187, 188, 189, 190, 191, 192, 193, 194, 195, 196, 197, 198, 199, 200,
    201, 202, 203, 204, 205, 206, 207, 208, 209, 210, 211, 212, 213, 214, 215, 216, 217, 218,
    219, 220, 221, 222, 223, 224, 225, 226, 227, 228, 229, 230, 231, 232, 233, 234, 235, 236,
    237, 238, 239, 240, 241, 242, 243, 244, 245, 246, 247, 248, 249, 250, 251, 252, 253, 254,
    255 :: u32]"
    by (simp add: upt_rec [of _ "numeral _"])
  then show ?thesis
    by (simp only: list.map crc_bit_8) (simp add: crc32tab_def crc_bit_def)
qed

lemma crc32tab_entry: "n < 256 \<Longrightarrow> crc32tab ! n = (crc_bit ^^ 8) (of_nat n)"
  by (simp add: crc32tab_map)

subsection \<open>The lock pool's key hash\<close>

text \<open>\<open>str[i]\<close> is a signed \<open>char\<close>: it is sign-extended before the 32-bit addition.\<close>

definition schar :: "char \<Rightarrow> u32" where
  "schar c = (signed (byte_of c) :: u32)"

definition BKDRHash :: "string \<Rightarrow> u32" where
  "BKDRHash str = foldl (\<lambda>hash c. hash * 13131 + schar c) 0 str AND 0x7FFFFFFF"

text \<open>The pool slot of a key: \<open>int index = BKDRHash(...) % get_size()\<close> (5000 or more).\<close>

definition lock_index :: "string \<Rightarrow> u32 \<Rightarrow> u32" where
  "lock_index key pool_size = BKDRHash key mod pool_size"

lemma lock_index_bound: "0 < pool_size \<Longrightarrow> lock_index key pool_size < pool_size"
  by (simp add: lock_index_def word_less_nat_alt unat_mod word_neq_0_conv [symmetric] unat_gt_0)

subsection \<open>The table is the bit-serial CRC\<close>

lemma crc_bit_even: "\<not> bit r 0 \<Longrightarrow> crc_bit r = drop_bit 1 r"
  by (simp add: crc_bit_def)

lemma crc_bit_xor: "crc_bit (a XOR b) = crc_bit a XOR crc_bit b"
  by (auto simp: crc_bit_def bit_xor_iff drop_bit_xor ac_simps xor.assoc xor.left_commute)

lemma crc_bits_xor: "(crc_bit ^^ k) (a XOR b) = (crc_bit ^^ k) a XOR (crc_bit ^^ k) b"
  by (induction k) (simp_all add: crc_bit_xor)

lemma crc_bits_shift:
  assumes "\<And>i. i < k \<Longrightarrow> \<not> bit a i"
  shows "(crc_bit ^^ k) a = drop_bit k a"
  using assms
proof (induction k)
  case 0
  then show ?case by simp
next
  case (Suc k)
  have "(crc_bit ^^ k) a = drop_bit k a" using Suc by simp
  moreover have "\<not> bit (drop_bit k a) 0" using Suc.prems by (simp add: bit_drop_bit_eq)
  ultimately show ?case by (simp add: crc_bit_even)
qed

lemma low_byte_mask: "(0xff :: u32) = mask 8"
  by (simp add: mask_eq_exp_minus_1)

lemma low_byte_split: "x = (x AND NOT 0xff) XOR (x AND 0xff :: u32)"
  by (rule bit_eqI) (auto simp: bit_simps)

lemma low_byte_lt: "unat (x AND 0xff :: u32) < 256"
proof -
  have "unat (take_bit 8 x) = take_bit 8 (unat x)" by (rule unsigned_take_bit_eq)
  also have "\<dots> < 2 ^ 8" by (rule take_bit_nat_less_exp)
  finally show ?thesis by (simp add: low_byte_mask take_bit_eq_mask)
qed

lemma drop_low_byte: "drop_bit 8 (x AND NOT 0xff :: u32) = drop_bit 8 x"
  by (rule bit_eqI) (use bit_imp_le_length in \<open>force simp: low_byte_mask bit_simps\<close>)

lemma xor_ones: "x XOR 0xFFFFFFFF = (NOT x :: u32)"
proof -
  have "(0xFFFFFFFF :: u32) = - 1" by simp
  then show ?thesis by (simp only: xor.right_neutral bit.xor_one_right)
qed

lemma high_char: "drop_bit 8 (of_char c :: u32) = 0"
proof -
  have "(of_char c :: u32) = of_nat (of_char c)" by (simp add: of_nat_of_char)
  moreover have "(of_char c :: nat) < 256" by (rule nat_of_char_less_256)
  ultimately have "unat (of_char c :: u32) < 256"
    by (simp only: unat_of_nat) (rule le_less_trans [OF mod_less_eq_dividend])
  moreover have "unat (drop_bit 8 (of_char c :: u32)) = drop_bit 8 (take_bit 32 (unat (of_char c :: u32)))"
    by (simp only: unsigned_drop_bit_eq) simp
  ultimately have "unat (drop_bit 8 (of_char c :: u32)) = 0"
    by (simp only: drop_bit_eq_div take_bit_nat_eq_self_iff) (simp add: take_bit_nat_eq_self)
  then show ?thesis by (simp only: word_unat_eq_iff unat_0)
qed

lemma crc_round_spec: "crc_round crc c = crc_byte_spec crc c"
proof -
  let ?x = "crc XOR of_char c"
  have "crc_byte_spec crc c = (crc_bit ^^ 8) ((?x AND NOT 0xff) XOR (?x AND 0xff))"
    unfolding crc_byte_spec_def by (subst low_byte_split) (rule refl)
  also have "\<dots> = (crc_bit ^^ 8) (?x AND NOT 0xff) XOR (crc_bit ^^ 8) (?x AND 0xff)"
    by (rule crc_bits_xor)
  also have "(crc_bit ^^ 8) (?x AND NOT 0xff) = drop_bit 8 (?x AND NOT 0xff)"
    by (rule crc_bits_shift) (simp add: low_byte_mask bit_simps)
  also have "drop_bit 8 (?x AND NOT 0xff) = drop_bit 8 ?x"
    by (rule drop_low_byte)
  also have "\<dots> = drop_bit 8 crc" by (simp add: drop_bit_xor high_char)
  also have "(crc_bit ^^ 8) (?x AND 0xff) = crc32tab ! unat (?x AND 0xff)"
    by (simp add: crc32tab_entry [OF low_byte_lt])
  finally show ?thesis by (simp add: crc_round_def)
qed

text \<open>C40: the table-driven hash that picks a Redis instance is the CRC-32 of the key:
  256 table entries and the byte-wise loop compute the bit-serial division by the
  reflected polynomial, for every key.\<close>

theorem hash_crc32_is_crc32: "hash_crc32 key = crc32_spec key"
proof -
  have "crc_round = crc_byte_spec" by (intro ext) (rule crc_round_spec)
  moreover have "(NOT 0 :: u32) = 0xFFFFFFFF" by simp
  ultimately show ?thesis
    by (simp only: hash_crc32_def crc32_spec_def xor_ones)
qed

end
