(* ===== verification/PeerInfo.thy ===== *)
theory PeerInfo
  imports Encode
begin

text \<open>
  The tracker's peer record: \<open>protocol/inner_types.h\<close> (class \<open>StoredPeerInfo\<close> with its
  \<open>__isset\<close> flags) and \<open>src/PeerInfo.cpp\<close>, \<open>include/bbts/tracker/PeerInfo.h\<close> of
  \<open>gko-tracker-src\<close>. Integers keep their width as bit patterns: \<open>int32_t\<close> and
  \<open>uint32_t\<close> are \<open>u32\<close>, read with \<open>unat\<close> or \<open>sint\<close> where the code converts.
  Boost's base64 encoder is the parameter \<open>b64e\<close> of \<open>Encode\<close>; Thrift's binary
  protocol is a pair of parameters (\<open>thrift_parse\<close>, \<open>thrift_write\<close>).
\<close>

datatype Status = METADATA | DOWNLOAD | SEEDING | STOPPED | PAUSED

record StoredPeerInfo_isset =
  is_info_hash :: bool
  is_peer_id :: bool
  is_ip :: bool
  is_port :: bool
  is_uploaded :: bool
  is_downloaded :: bool
  is_left :: bool
  is_status :: bool
  is_want_number :: bool
  is_expire_time :: bool
  is_timestamp_start :: bool
  is_is_seed :: bool
  is_tracker_id :: bool
  is_idc :: bool

record StoredPeerInfo =
  sp_info_hash :: string
  sp_peer_id :: string
  sp_ip :: string
  sp_port :: u32
  sp_uploaded :: u64
  sp_downloaded :: u64
  sp_left :: u64
  sp_status :: Status
  sp_want_number :: u32
  sp_expire_time :: u64
  sp_timestamp_start :: u64
  sp_is_seed :: bool
  sp_tracker_id :: string
  sp_idc :: string
  isset :: StoredPeerInfo_isset

definition StoredPeerInfo_new :: StoredPeerInfo where
  "StoredPeerInfo_new =
     \<lparr>sp_info_hash = [], sp_peer_id = [], sp_ip = [], sp_port = 0, sp_uploaded = 0,
      sp_downloaded = 0, sp_left = 0, sp_status = METADATA, sp_want_number = 0,
      sp_expire_time = 0, sp_timestamp_start = 0, sp_is_seed = False, sp_tracker_id = [],
      sp_idc = [],
      isset = \<lparr>is_info_hash = False, is_peer_id = False, is_ip = False, is_port = False,
        is_uploaded = False, is_downloaded = False, is_left = False, is_status = False,
        is_want_number = False, is_expire_time = False, is_timestamp_start = False,
        is_is_seed = False, is_tracker_id = False, is_idc = False\<rparr>\<rparr>"

text \<open>The equality the generated class declares: unset fields are not compared.\<close>

definition stored_peer_eq :: "StoredPeerInfo \<Rightarrow> StoredPeerInfo \<Rightarrow> bool" where
  "stored_peer_eq a b \<longleftrightarrow>
     isset a = isset b \<and>
     (is_info_hash (isset a) \<longrightarrow> sp_info_hash a = sp_info_hash b) \<and>
     (is_peer_id (isset a) \<longrightarrow> sp_peer_id a = sp_peer_id b) \<and>
     (is_ip (isset a) \<longrightarrow> sp_ip a = sp_ip b) \<and>
     (is_port (isset a) \<longrightarrow> sp_port a = sp_port b) \<and>
     (is_uploaded (isset a) \<longrightarrow> sp_uploaded a = sp_uploaded b) \<and>
     (is_downloaded (isset a) \<longrightarrow> sp_downloaded a = sp_downloaded b) \<and>
     (is_left (isset a) \<longrightarrow> sp_left a = sp_left b) \<and>
     (is_status (isset a) \<longrightarrow> sp_status a = sp_status b) \<and>
     (is_want_number (isset a) \<longrightarrow> sp_want_number a = sp_want_number b) \<and>
     (is_expire_time (isset a) \<longrightarrow> sp_expire_time a = sp_expire_time b) \<and>
     (is_timestamp_start (isset a) \<longrightarrow> sp_timestamp_start a = sp_timestamp_start b) \<and>
     (is_is_seed (isset a) \<longrightarrow> sp_is_seed a = sp_is_seed b) \<and>
     (is_tracker_id (isset a) \<longrightarrow> sp_tracker_id a = sp_tracker_id b) \<and>
     (is_idc (isset a) \<longrightarrow> sp_idc a = sp_idc b)"

record PeerInfo =
  thrift_peer :: StoredPeerInfo
  base64_info_hash :: string
  base64_peer_id :: string
  is_set_remote :: bool

definition PeerInfo_new :: PeerInfo where
  "PeerInfo_new = \<lparr>thrift_peer = StoredPeerInfo_new, base64_info_hash = [],
     base64_peer_id = [], is_set_remote = False\<rparr>"

text \<open>The copy constructor takes the stored record and the remote flag only.\<close>

definition PeerInfo_copy :: "PeerInfo \<Rightarrow> PeerInfo" where
  "PeerInfo_copy p = \<lparr>thrift_peer = thrift_peer p, base64_info_hash = [],
     base64_peer_id = [], is_set_remote = is_set_remote p\<rparr>"

subsection \<open>Tests and readers\<close>

definition Initialized :: "PeerInfo \<Rightarrow> bool" where
  "Initialized p \<longleftrightarrow> is_info_hash (isset (thrift_peer p)) \<and> is_peer_id (isset (thrift_peer p))"

definition CheckToStop :: "PeerInfo \<Rightarrow> bool" where
  "CheckToStop p \<longleftrightarrow> sp_status (thrift_peer p) = STOPPED"

text \<open>\<open>GetWantNumber() <= 0\<close> compares a \<open>uint32_t\<close>: only zero satisfies it.\<close>

definition CheckNeedMorePeers :: "PeerInfo \<Rightarrow> bool" where
  "CheckNeedMorePeers p \<longleftrightarrow> \<not> (unat (sp_want_number (thrift_peer p)) \<le> 0 \<or> CheckToStop p)"

definition IsASeed :: "PeerInfo \<Rightarrow> bool" where
  "IsASeed p \<longleftrightarrow> sp_is_seed (thrift_peer p)"

definition IsSeeding :: "PeerInfo \<Rightarrow> bool" where
  "IsSeeding p \<longleftrightarrow> IsASeed p \<or> sp_status (thrift_peer p) = SEEDING"

subsection \<open>Setters\<close>

definition base64_or_raw :: "(string \<Rightarrow> string) \<Rightarrow> string \<Rightarrow> string" where
  "base64_or_raw b64e s = (case Base64Encode b64e s of None \<Rightarrow> s | Some e \<Rightarrow> e)"

definition SetInfoHash :: "(string \<Rightarrow> string) \<Rightarrow> string \<Rightarrow> PeerInfo \<Rightarrow> PeerInfo" where
  "SetInfoHash b64e v p = p\<lparr>thrift_peer := (thrift_peer p)\<lparr>sp_info_hash := v,
     isset := (isset (thrift_peer p))\<lparr>is_info_hash := True\<rparr>\<rparr>,
     base64_info_hash := base64_or_raw b64e v\<rparr>"

definition SetPeerId :: "(string \<Rightarrow> string) \<Rightarrow> string \<Rightarrow> PeerInfo \<Rightarrow> PeerInfo" where
  "SetPeerId b64e v p = p\<lparr>thrift_peer := (thrift_peer p)\<lparr>sp_peer_id := v,
     isset := (isset (thrift_peer p))\<lparr>is_peer_id := True\<rparr>\<rparr>,
     base64_peer_id := base64_or_raw b64e v\<rparr>"

definition SetIp :: "string \<Rightarrow> PeerInfo \<Rightarrow> PeerInfo" where
  "SetIp v p = p\<lparr>thrift_peer := (thrift_peer p)\<lparr>sp_ip := v,
     isset := (isset (thrift_peer p))\<lparr>is_ip := True\<rparr>\<rparr>\<rparr>"

definition SetPort :: "u32 \<Rightarrow> PeerInfo \<Rightarrow> PeerInfo" where
  "SetPort v p = p\<lparr>thrift_peer := (thrift_peer p)\<lparr>sp_port := v,
     isset := (isset (thrift_peer p))\<lparr>is_port := True\<rparr>\<rparr>\<rparr>"

definition SetStatus :: "Status \<Rightarrow> PeerInfo \<Rightarrow> PeerInfo" where
  "SetStatus v p = p\<lparr>thrift_peer := (thrift_peer p)\<lparr>sp_status := v,
     isset := (isset (thrift_peer p))\<lparr>is_status := True\<rparr>\<rparr>\<rparr>"

definition SetDownloaded :: "u64 \<Rightarrow> PeerInfo \<Rightarrow> PeerInfo" where
  "SetDownloaded v p = p\<lparr>thrift_peer := (thrift_peer p)\<lparr>sp_downloaded := v,
     isset := (isset (thrift_peer p))\<lparr>is_downloaded := True\<rparr>\<rparr>\<rparr>"

definition SetUploaded :: "u64 \<Rightarrow> PeerInfo \<Rightarrow> PeerInfo" where
  "SetUploaded v p = p\<lparr>thrift_peer := (thrift_peer p)\<lparr>sp_uploaded := v,
     isset := (isset (thrift_peer p))\<lparr>is_uploaded := True\<rparr>\<rparr>\<rparr>"

definition SetLeft :: "u64 \<Rightarrow> PeerInfo \<Rightarrow> PeerInfo" where
  "SetLeft v p = p\<lparr>thrift_peer := (thrift_peer p)\<lparr>sp_left := v,
     isset := (isset (thrift_peer p))\<lparr>is_left := True\<rparr>\<rparr>\<rparr>"

definition SetExpireTime :: "u64 \<Rightarrow> PeerInfo \<Rightarrow> PeerInfo" where
  "SetExpireTime v p = p\<lparr>thrift_peer := (thrift_peer p)\<lparr>sp_expire_time := v,
     isset := (isset (thrift_peer p))\<lparr>is_expire_time := True\<rparr>\<rparr>\<rparr>"

definition SetTimeStamp :: "u64 \<Rightarrow> PeerInfo \<Rightarrow> PeerInfo" where
  "SetTimeStamp v p = p\<lparr>thrift_peer := (thrift_peer p)\<lparr>sp_timestamp_start := v,
     isset := (isset (thrift_peer p))\<lparr>is_timestamp_start := True\<rparr>\<rparr>\<rparr>"

definition SetWantNumber :: "u32 \<Rightarrow> PeerInfo \<Rightarrow> PeerInfo" where
  "SetWantNumber v p = p\<lparr>thrift_peer := (thrift_peer p)\<lparr>sp_want_number := v,
     isset := (isset (thrift_peer p))\<lparr>is_want_number := True\<rparr>\<rparr>\<rparr>"

definition SetIsSeed :: "bool \<Rightarrow> PeerInfo \<Rightarrow> PeerInfo" where
  "SetIsSeed v p = p\<lparr>thrift_peer := (thrift_peer p)\<lparr>sp_is_seed := v,
     isset := (isset (thrift_peer p))\<lparr>is_is_seed := True\<rparr>\<rparr>\<rparr>"

definition SetTrackerId :: "string \<Rightarrow> PeerInfo \<Rightarrow> PeerInfo" where
  "SetTrackerId v p = p\<lparr>thrift_peer := (thrift_peer p)\<lparr>sp_tracker_id := v,
     isset := (isset (thrift_peer p))\<lparr>is_tracker_id := True\<rparr>\<rparr>\<rparr>"

definition SetIdc :: "string \<Rightarrow> PeerInfo \<Rightarrow> PeerInfo" where
  "SetIdc v p = p\<lparr>thrift_peer := (thrift_peer p)\<lparr>sp_idc := v,
     isset := (isset (thrift_peer p))\<lparr>is_idc := True\<rparr>\<rparr>\<rparr>"

lemmas peer_setters = SetInfoHash_def SetPeerId_def SetIp_def SetPort_def SetStatus_def
  SetDownloaded_def SetUploaded_def SetLeft_def SetExpireTime_def SetTimeStamp_def
  SetWantNumber_def SetIsSeed_def SetTrackerId_def SetIdc_def

lemmas peer_tests = Initialized_def CheckToStop_def IsASeed_def IsSeeding_def

subsection \<open>Updating a peer from an announce\<close>

text \<open>The code returns early, with what was set so far, at the first identifier not set.\<close>

definition UpdateInfo :: "(string \<Rightarrow> string) \<Rightarrow> u64 \<Rightarrow> PeerInfo \<Rightarrow> PeerInfo \<Rightarrow> PeerInfo" where
  "UpdateInfo b64e now input p =
     (let t = thrift_peer input in
      if \<not> is_info_hash (isset t) then p
      else let p = SetInfoHash b64e (sp_info_hash t) p in
        if \<not> is_peer_id (isset t) then p
        else let p = SetPeerId b64e (sp_peer_id t) p;
                 p = (if is_expire_time (isset t) then SetExpireTime (sp_expire_time t) p else p);
                 p = SetTimeStamp now p;
                 p = SetIp (sp_ip t) p;
                 p = SetPort (sp_port t) p;
                 p = SetStatus (sp_status t) p;
                 p = SetUploaded (sp_uploaded t) p;
                 p = SetDownloaded (sp_downloaded t) p;
                 p = SetLeft (sp_left t) p;
                 p = SetWantNumber (sp_want_number t) p;
                 p = SetIsSeed (sp_is_seed t) p;
                 p = SetTrackerId (sp_tracker_id t) p
             in SetIdc (sp_idc t) p)"

subsection \<open>Serialised peers\<close>

text \<open>
  \<open>ConstructPeerInfoByString\<close> on a new object, with the test of line 65 as the code has
  it: the peer id is \<^emph>\<open>not\<close> encoded when the encoding succeeds.
\<close>

definition ConstructPeerInfoByString ::
  "(string \<Rightarrow> string) \<Rightarrow> (string \<Rightarrow> StoredPeerInfo option) \<Rightarrow> string \<Rightarrow> PeerInfo option" where
  "ConstructPeerInfoByString b64e thrift_parse s =
     (case thrift_parse s of
        None \<Rightarrow> None
      | Some t \<Rightarrow>
          Some \<lparr>thrift_peer = t,
            base64_info_hash = base64_or_raw b64e (sp_info_hash t),
            base64_peer_id =
              (case Base64Encode b64e (sp_peer_id t) of None \<Rightarrow> [] | Some _ \<Rightarrow> sp_peer_id t),
            is_set_remote = False\<rparr>)"

definition ConstructStringByPeerInfo ::
  "(StoredPeerInfo \<Rightarrow> string) \<Rightarrow> PeerInfo \<Rightarrow> string" where
  "ConstructStringByPeerInfo thrift_write p = thrift_write (thrift_peer p)"

subsection \<open>What an update leaves\<close>

lemma copy_thrift [simp]: "thrift_peer (PeerInfo_copy p) = thrift_peer p"
  by (simp add: PeerInfo_copy_def)

lemma copy_tests [simp]:
  "Initialized (PeerInfo_copy p) = Initialized p" "IsASeed (PeerInfo_copy p) = IsASeed p"
  "CheckToStop (PeerInfo_copy p) = CheckToStop p"
  by (simp_all add: peer_tests)

lemma UpdateInfo_simps:
  assumes "Initialized q"
  shows "Initialized (UpdateInfo b64e now q p)"
    and "IsASeed (UpdateInfo b64e now q p) = IsASeed q"
    and "base64_peer_id (UpdateInfo b64e now q p) = base64_or_raw b64e (sp_peer_id (thrift_peer q))"
    and "base64_info_hash (UpdateInfo b64e now q p) = base64_or_raw b64e (sp_info_hash (thrift_peer q))"
    and "is_set_remote (UpdateInfo b64e now q p) = is_set_remote p"
    and "sp_peer_id (thrift_peer (UpdateInfo b64e now q p)) = sp_peer_id (thrift_peer q)"
    and "sp_idc (thrift_peer (UpdateInfo b64e now q p)) = sp_idc (thrift_peer q)"
  using assms by (simp_all add: UpdateInfo_def peer_tests peer_setters Let_def)

text \<open>
  Everything the input carries is taken over; the time stamp is the tracker's; the
  expiry time changes only when the input has one; the remote flag is kept.
\<close>

lemma UpdateInfo_fields:
  assumes "Initialized q"
  shows "thrift_peer (UpdateInfo b64e now q p) = (thrift_peer q)\<lparr>sp_timestamp_start := now,
    sp_expire_time := (if is_expire_time (isset (thrift_peer q)) then sp_expire_time (thrift_peer q)
                       else sp_expire_time (thrift_peer p)),
    isset := \<lparr>is_info_hash = True, is_peer_id = True, is_ip = True, is_port = True,
        is_uploaded = True, is_downloaded = True, is_left = True, is_status = True,
        is_want_number = True,
        is_expire_time = is_expire_time (isset (thrift_peer q)) \<or> is_expire_time (isset (thrift_peer p)),
        is_timestamp_start = True,
        is_is_seed = True, is_tracker_id = True, is_idc = True\<rparr>\<rparr>"
  using assms by (simp add: UpdateInfo_def peer_tests peer_setters Let_def)

end
