(* ===== verification/ChoosePeers.thy ===== *)
theory ChoosePeers
  imports PeerInfo
begin

text \<open>
  The state one info hash has in the tracker (\<open>SingleInfoHashInfo\<close> of
  \<open>gko-tracker-src/include/bbts/tracker/PeerHandler.h\<close>) and the routines of
  \<open>src/PeerHandler.cpp\<close> that pick peers from it. Peer objects are shared: \<open>peer_map\<close>
  holds the only lasting \<open>shared_ptr\<close> to an object, the vectors hold \<open>weak_ptr\<close>s. An
  object is a number; \<open>peer_objs\<close> is the heap of the objects alive, so
  \<open>weak_ptr::lock\<close> is a lookup in it. Vectors are shorter than \<open>2^31\<close>.
\<close>

record SingleInfoHashInfo =
  peer_map :: "(string, nat) assoc"
  peer_objs :: "(nat, PeerInfo) assoc"
  next_obj :: nat
  idc_to_peer_vector :: "(string, nat list) assoc"
  idc_to_seed_vector :: "(string, nat list) assoc"
  peer_vec :: "nat list"
  peer_seed_vec :: "nat list"
  remote_peer_count :: u64
  complete_num :: u64
  timestamp :: u64
  need_stop :: bool

definition SingleInfoHashInfo_new :: "u64 \<Rightarrow> SingleInfoHashInfo" where
  "SingleInfoHashInfo_new now = \<lparr>peer_map = [], peer_objs = [], next_obj = 0,
     idc_to_peer_vector = [], idc_to_seed_vector = [], peer_vec = [], peer_seed_vec = [],
     remote_peer_count = 0, complete_num = 0, timestamp = now, need_stop = False\<rparr>"

definition HasSetRemotePeer :: "SingleInfoHashInfo \<Rightarrow> bool" where
  "HasSetRemotePeer info \<longleftrightarrow> remote_peer_count info = 0"

subsection \<open>Random indices\<close>

definition GetRandomNumber :: "int \<Rightarrow> nat list \<Rightarrow> int \<times> nat list" where
  "GetRandomNumber rand_max rs =
     (if rand_max = 0 then (0, rs)
      else if rand_max < 0 then (-1, rs)
      else let (r, rs') = draw rs in (int r mod rand_max, rs'))"

lemma GetRandomNumber_range:
  "GetRandomNumber n rs = (r, rs') \<Longrightarrow> 0 < n \<Longrightarrow> 0 \<le> r \<and> r < n"
  by (auto simp: GetRandomNumber_def split: prod.splits)

lemma GetRandomNumber_pred:
  "GetRandomNumber (int n - 1) rs = (r, rs') \<Longrightarrow> 0 < n \<Longrightarrow> 0 \<le> r \<and> r < int n"
  using GetRandomNumber_range [of "int n - 1" rs r rs']
  by (cases "n = 1") (simp_all add: GetRandomNumber_def)

subsection \<open>Choosing from one vector\<close>

text \<open>What the loop of \<open>ChoosePeersByMap\<close> keeps between rounds.\<close>

record choice =
  ch_vec :: "nat list"
  ch_out :: "PeerInfo list"
  ch_seed :: bool
  ch_want :: int

definition choose_take :: "PeerInfo \<Rightarrow> choice \<Rightarrow> choice" where
  "choose_take p c = c\<lparr>ch_seed := (if \<not> ch_seed c \<and> IsASeed p then True else ch_seed c),
     ch_out := ch_out c @ [PeerInfo_copy p], ch_want := ch_want c - 1\<rparr>"

function choose_loop ::
  "(nat, PeerInfo) assoc \<Rightarrow> string \<Rightarrow> nat \<Rightarrow> nat \<Rightarrow> choice \<Rightarrow> choice" where
  "choose_loop objs self random_index i c =
     (if i < length (ch_vec c) \<and> ch_want c > 0 then
        let peer_index = (i + random_index) mod length (ch_vec c) in
        (case lookup objs (ch_vec c ! peer_index) of
           Some peer_info \<Rightarrow>
             if \<not> Initialized peer_info then choose_loop objs self random_index (Suc i) c
             else if self = base64_peer_id peer_info then choose_loop objs self random_index (Suc i) c
             else choose_loop objs self random_index (Suc i) (choose_take peer_info c)
         | None \<Rightarrow>
             choose_loop objs self random_index i (c\<lparr>ch_vec := erase_at peer_index (ch_vec c)\<rparr>))
      else c)"
  by pat_completeness auto
termination
proof (relation "measure (\<lambda>(_, _, _, i, c). 2 * length (ch_vec c) - i)", goal_cases)
  case (2 objs self random_index i c x)
  then have "0 < length (ch_vec c)" by linarith
  then have "x < length (ch_vec c)" using 2 by (simp only: mod_less_divisor)
  then show ?case using 2 by auto
qed (auto simp: choose_take_def)

declare choose_loop.simps [simp del]

definition ChoosePeersByMap ::
  "(nat, PeerInfo) assoc \<Rightarrow> PeerInfo \<Rightarrow> choice \<Rightarrow> nat list \<Rightarrow> choice \<times> nat list" where
  "ChoosePeersByMap objs input c rs =
     (let (random_index, rs') = GetRandomNumber (int (length (ch_vec c)) - 1) rs in
      (choose_loop objs (base64_peer_id input) (nat random_index) 0 c, rs'))"

subsection \<open>What one choice returns\<close>

definition eligible :: "(nat, PeerInfo) assoc \<Rightarrow> string \<Rightarrow> nat \<Rightarrow> bool" where
  "eligible objs self i \<longleftrightarrow>
     (case lookup objs i of None \<Rightarrow> False
      | Some p \<Rightarrow> Initialized p \<and> base64_peer_id p \<noteq> self)"

definition peer_at :: "(nat, PeerInfo) assoc \<Rightarrow> nat \<Rightarrow> PeerInfo" where
  "peer_at objs i = PeerInfo_copy (the (lookup objs i))"

abbreviation live :: "(nat, PeerInfo) assoc \<Rightarrow> nat \<Rightarrow> bool" where
  "live objs i \<equiv> lookup objs i \<noteq> None"

text \<open>
  The rounds of the loop, whatever the vector: it appends copies of eligible peers,
  never more than wanted; it drops only dead references; the seed flag rises exactly
  when a seed is appended.
\<close>

definition choice_by ::
  "(nat, PeerInfo) assoc \<Rightarrow> string \<Rightarrow> nat list \<Rightarrow> choice \<Rightarrow> choice \<Rightarrow> bool" where
  "choice_by objs self ids c c' \<longleftrightarrow>
     ch_out c' = ch_out c @ map (peer_at objs) ids \<and>
     (\<forall>i \<in> set ids. i \<in> set (ch_vec c) \<and> eligible objs self i) \<and>
     int (length ids) \<le> max 0 (ch_want c) \<and>
     ch_want c' = ch_want c - int (length ids) \<and>
     (ch_seed c' \<longleftrightarrow> ch_seed c \<or> (\<exists>i \<in> set ids. IsASeed (peer_at objs i))) \<and>
     filter (live objs) (ch_vec c') = filter (live objs) (ch_vec c) \<and>
     set (ch_vec c') \<subseteq> set (ch_vec c) \<and>
     (distinct (ch_vec c) \<longrightarrow> distinct (ch_vec c'))"

lemma choice_by_refl: "choice_by objs self [] c c"
  by (simp add: choice_by_def)

lemma choice_by_take:
  assumes p: "lookup objs i = Some p" "Initialized p" "self \<noteq> base64_peer_id p"
    and i: "i \<in> set (ch_vec c)" and w: "0 < ch_want c"
    and ok: "choice_by objs self ids (choose_take p c) c'"
  shows "choice_by objs self (i # ids) c c'"
proof -
  have pa: "peer_at objs i = PeerInfo_copy p" using p by (simp add: peer_at_def)
  have el: "eligible objs self i" using p by (simp add: eligible_def)
  show ?thesis
    using ok i w pa el by (simp add: choice_by_def choose_take_def)
qed

lemma choice_by_erase:
  assumes "lookup objs (ch_vec c ! n) = None" and n: "n < length (ch_vec c)"
    and ok: "choice_by objs self ids (c\<lparr>ch_vec := erase_at n (ch_vec c)\<rparr>) c'"
  shows "choice_by objs self ids c c'"
proof -
  have sub: "set (erase_at n (ch_vec c)) \<subseteq> set (ch_vec c)" by (rule set_erase_at)
  have "filter (live objs) (erase_at n (ch_vec c)) = filter (live objs) (ch_vec c)"
    using assms by (intro filter_erase_at) auto
  then show ?thesis using ok sub by (auto simp: choice_by_def)
qed

lemma choose_loop_by: "\<exists>ids. choice_by objs self ids c (choose_loop objs self r i c)"
proof (induction objs self r i c rule: choose_loop.induct)
  case (1 objs self r i c)
  let ?n = "(i + r) mod length (ch_vec c)"
  note step = choose_loop.simps [of objs self r i c]
  show ?case
  proof (cases "i < length (ch_vec c) \<and> ch_want c > 0")
    case False
    then have "choose_loop objs self r i c = c" by (subst step) (simp only: if_False)
    then show ?thesis using choice_by_refl by metis
  next
    case True
    then have "0 < length (ch_vec c)" by linarith
    then have n: "?n < length (ch_vec c)" by (rule mod_less_divisor)
    show ?thesis
    proof (cases "lookup objs (ch_vec c ! ?n)")
      case None
      then have "choose_loop objs self r i c =
          choose_loop objs self r i (c\<lparr>ch_vec := erase_at ?n (ch_vec c)\<rparr>)"
        using True by (simp add: step)
      then show ?thesis
        using choice_by_erase [OF None n] "1.IH"(1) [OF True refl None] by metis
    next
      case (Some p)
      have mem: "ch_vec c ! ?n \<in> set (ch_vec c)" using n by simp
      consider (skip) "\<not> Initialized p \<or> self = base64_peer_id p"
        | (pick) "Initialized p" "self \<noteq> base64_peer_id p" by blast
      then show ?thesis
      proof cases
        case skip
        then have "choose_loop objs self r i c = choose_loop objs self r (Suc i) c"
          using True Some by (auto simp: step)
        then show ?thesis
          using skip "1.IH"(2) [OF True refl Some] "1.IH"(3) [OF True refl Some] by metis
      next
        case pick
        then have "choose_loop objs self r i c = choose_loop objs self r (Suc i) (choose_take p c)"
          using True Some by (simp add: step)
        then show ?thesis
          using "1.IH"(4) [OF True refl Some] choice_by_take [OF Some _ _ mem] pick True by metis
      qed
    qed
  qed
qed

subsection \<open>With every reference alive the choice is a rotated prefix\<close>

lemma choose_loop_live:
  assumes "\<forall>j \<in> set (ch_vec c). live objs j" and "i \<le> length (ch_vec c)"
  shows "ch_out (choose_loop objs self r i c) = ch_out c @ map (peer_at objs)
      (take (nat (ch_want c)) (filter (eligible objs self) (drop i (rotate r (ch_vec c))))) \<and>
    ch_vec (choose_loop objs self r i c) = ch_vec c"
  using assms
proof (induction "length (ch_vec c) - i" arbitrary: i c)
  case 0
  then show ?case by (simp add: choose_loop.simps [of objs self r i c])
next
  case (Suc n)
  let ?v = "ch_vec c" let ?j = "?v ! ((i + r) mod length ?v)"
  have i: "i < length ?v" using Suc by linarith
  note step = choose_loop.simps [of objs self r i c]
  have rot: "rotate r ?v ! i = ?j" using i by (simp add: nth_rotate add.commute)
  have dr: "drop i (rotate r ?v) = ?j # drop (Suc i) (rotate r ?v)"
    using i rot by (metis Cons_nth_drop_Suc length_rotate)
  have "(i + r) mod length ?v < length ?v" using i by (intro mod_less_divisor) linarith
  then obtain p where p: "lookup objs ?j = Some p" using Suc.prems by force
  show ?case
  proof (cases "ch_want c > 0")
    case False
    then show ?thesis by (simp add: step)
  next
    case want: True
    then obtain w where w: "nat (ch_want c) = Suc w" and w': "w = nat (ch_want c - 1)"
      by (metis Suc_nat_eq_nat_zadd1 diff_add_cancel le_add_diff_inverse2 zle_diff1_eq zless_imp_add1_zle
          add.commute)
    show ?thesis
    proof (cases "eligible objs self ?j")
      case True
      then have "choose_loop objs self r i c = choose_loop objs self r (Suc i) (choose_take p c)"
        using p want i by (auto simp: step eligible_def)
      moreover have "ch_vec (choose_take p c) = ?v" by (simp add: choose_take_def)
      moreover have "peer_at objs ?j = PeerInfo_copy p" using p by (simp add: peer_at_def)
      ultimately show ?thesis
        using Suc.hyps(1) [of "choose_take p c" "Suc i"] Suc.prems Suc.hyps(2) i True w w' dr
        by (simp add: choose_take_def)
    next
      case False
      then have "choose_loop objs self r i c = choose_loop objs self r (Suc i) c"
        using p want i by (auto simp: step eligible_def)
      then show ?thesis
        using Suc.hyps(1) [of c "Suc i"] Suc.prems Suc.hyps(2) i False dr by simp
    qed
  qed
qed

text \<open>C8: when no reference of a vector has expired, \<open>ChoosePeersByMap\<close> returns the first
  \<open>num_want\<close> eligible peers of the vector rotated by the random index: nobody is skipped
  or returned twice, and every eligible peer is returned when enough are wanted.\<close>

theorem ChoosePeersByMap_live:
  assumes "\<forall>j \<in> set (ch_vec c). live objs j"
    and "ChoosePeersByMap objs input c rs = (c', rs')"
  shows "\<exists>r \<le> length (ch_vec c). ch_vec c' = ch_vec c \<and>
    ch_out c' = ch_out c @ map (peer_at objs)
      (take (nat (ch_want c)) (filter (eligible objs (base64_peer_id input)) (rotate r (ch_vec c))))"
proof -
  obtain r rs1 where r: "GetRandomNumber (int (length (ch_vec c)) - 1) rs = (r, rs1)" by force
  then have c': "c' = choose_loop objs (base64_peer_id input) (nat r) 0 c"
    using assms(2) by (simp add: ChoosePeersByMap_def)
  have "nat r \<le> length (ch_vec c)"
  proof (cases "ch_vec c = []")
    case True
    then show ?thesis using r by (simp add: GetRandomNumber_def)
  next
    case False
    then show ?thesis using GetRandomNumber_pred [OF r] by (simp add: nat_le_iff)
  qed
  then show ?thesis
    using choose_loop_live [OF assms(1), of 0 "base64_peer_id input" "nat r"] c'
    by (intro exI [of _ "nat r"]) simp
qed

text \<open>
  With an expired reference in front of the random index the claim fails: its removal
  shifts the rest of the vector under the loop, which then returns one peer twice and
  passes over another.
\<close>

definition named_peer :: "string \<Rightarrow> PeerInfo" where
  "named_peer s = (SetInfoHash (\<lambda>x. x) ''h'' (SetPeerId (\<lambda>x. x) s PeerInfo_new))\<lparr>base64_peer_id := s\<rparr>"

lemma choose_expired_repeats:
  "map (\<lambda>p. sp_peer_id (thrift_peer p))
     (ch_out (choose_loop [(1, named_peer ''a''), (2, named_peer ''b''), (3, named_peer ''c'')]
        ''x'' 2 0 \<lparr>ch_vec = [0, 1, 2, 3], ch_out = [], ch_seed = False, ch_want = 10\<rparr>))
   = [''b'', ''c'', ''b'']"
  by (simp add: choose_loop.simps erase_at_def choose_take_def named_peer_def peer_setters
      Initialized_def PeerInfo_new_def StoredPeerInfo_new_def PeerInfo_copy_def numeral_2_eq_2)

definition trio :: "(nat, PeerInfo) assoc" where
  "trio = [(1, named_peer ''a''), (2, named_peer ''b''), (3, named_peer ''c'')]"

lemma ChoosePeersByMap_live_witness:
  "\<exists>r \<le> 3. ch_out (fst (ChoosePeersByMap trio (named_peer ''b'')
        \<lparr>ch_vec = [1, 2, 3], ch_out = [], ch_seed = False, ch_want = 2\<rparr> [5])) =
     map (peer_at trio) (take 2 (filter (eligible trio ''b'') (rotate r [1, 2, 3])))"
proof -
  let ?c = "\<lparr>ch_vec = [1, 2, 3], ch_out = [], ch_seed = False, ch_want = 2\<rparr>"
  have live: "\<forall>j \<in> set (ch_vec ?c). live trio j" by (simp add: trio_def)
  have b: "base64_peer_id (named_peer ''b'') = ''b''" by (simp add: named_peer_def)
  obtain r where "r \<le> length (ch_vec ?c)" and
    "ch_out (fst (ChoosePeersByMap trio (named_peer ''b'') ?c [5])) = ch_out ?c @ map (peer_at trio)
       (take (nat (ch_want ?c)) (filter (eligible trio ''b'') (rotate r (ch_vec ?c))))"
    using ChoosePeersByMap_live [OF live surjective_pairing, of "named_peer ''b''" "[5]"] b by metis
  then show ?thesis by (intro exI [of _ r]) simp
qed

subsection \<open>Visiting the machine rooms\<close>

record visit =
  vs_map :: "(string, nat list) assoc"
  vs_out :: "PeerInfo list"
  vs_seed :: bool
  vs_rs :: "nat list"

text \<open>\<open>ChoosePeersByMap\<close> on the vector of one machine room, erasing in place.\<close>

definition visit_idc ::
  "(nat, PeerInfo) assoc \<Rightarrow> PeerInfo \<Rightarrow> int \<Rightarrow> string \<Rightarrow> visit \<Rightarrow> visit" where
  "visit_idc objs input num_left idc v =
     (case lookup (vs_map v) idc of
        None \<Rightarrow> v
      | Some vec \<Rightarrow>
          (let (c, rs) = ChoosePeersByMap objs input
                 \<lparr>ch_vec = vec, ch_out = vs_out v, ch_seed = vs_seed v, ch_want = num_left\<rparr> (vs_rs v)
           in \<lparr>vs_map = AList.update idc (ch_vec c) (vs_map v), vs_out = ch_out c,
               vs_seed = ch_seed c, vs_rs = rs\<rparr>))"

text \<open>\<open>now_index\<close> counts the entries passed; those behind the random index are not visited.\<close>

fun visit_loop ::
  "(nat, PeerInfo) assoc \<Rightarrow> PeerInfo \<Rightarrow> int \<Rightarrow> int \<Rightarrow> int \<Rightarrow> string list \<Rightarrow> visit \<Rightarrow> visit" where
  "visit_loop objs input num_want random_index now_index [] v = v"
| "visit_loop objs input num_want random_index now_index (idc # ks) v =
     (let num_left = num_want - int (length (vs_out v)) in
      if num_left > 0 then
        (let now_index = now_index + 1 in
         if random_index < now_index \<or> idc = sp_idc (thrift_peer input)
         then visit_loop objs input num_want random_index now_index ks v
         else visit_loop objs input num_want random_index now_index ks
                (visit_idc objs input num_left idc v))
      else v)"

text \<open>
  The result: the map with its vectors cleaned, the output list, the seed flag and the
  remaining draws. The local list is copied once more into the output.
\<close>

definition VisitIdcToPeers ::
  "(nat, PeerInfo) assoc \<Rightarrow> PeerInfo \<Rightarrow> int \<Rightarrow> visit \<Rightarrow> visit" where
  "VisitIdcToPeers objs input num_want v =
     (let v1 = visit_idc objs input num_want (sp_idc (thrift_peer input)) (v\<lparr>vs_out := []\<rparr>);
          (random_index, rs) = GetRandomNumber (int (length (vs_map v1)) - 1) (vs_rs v1);
          v2 = visit_loop objs input num_want random_index (-1) (map fst (vs_map v1)) (v1\<lparr>vs_rs := rs\<rparr>)
      in v2\<lparr>vs_out := vs_out v @ map PeerInfo_copy (vs_out v2)\<rparr>)"

text \<open>What a visit may do to the map: drop expired references, nothing else.\<close>

definition map_cleaned ::
  "(nat, PeerInfo) assoc \<Rightarrow> (string, nat list) assoc \<Rightarrow> (string, nat list) assoc \<Rightarrow> bool" where
  "map_cleaned objs m m' \<longleftrightarrow> map fst m' = map fst m \<and>
     (\<forall>k vec. lookup m k = Some vec \<longrightarrow>
        (\<exists>vec'. lookup m' k = Some vec' \<and> filter (live objs) vec' = filter (live objs) vec \<and>
               set vec' \<subseteq> set vec \<and> (distinct vec \<longrightarrow> distinct vec')))"

definition visit_by ::
  "(nat, PeerInfo) assoc \<Rightarrow> string \<Rightarrow> nat list \<Rightarrow> visit \<Rightarrow> visit \<Rightarrow> bool" where
  "visit_by objs self ids v v' \<longleftrightarrow>
     vs_out v' = vs_out v @ map (peer_at objs) ids \<and>
     (\<forall>i \<in> set ids. eligible objs self i \<and> (\<exists>k vec. lookup (vs_map v) k = Some vec \<and> i \<in> set vec)) \<and>
     (vs_seed v' \<longleftrightarrow> vs_seed v \<or> (\<exists>i \<in> set ids. IsASeed (peer_at objs i))) \<and>
     map_cleaned objs (vs_map v) (vs_map v')"

lemma map_cleaned_refl: "map_cleaned objs m m"
  by (simp add: map_cleaned_def)

lemma map_cleaned_trans:
  "map_cleaned objs m1 m2 \<Longrightarrow> map_cleaned objs m2 m3 \<Longrightarrow> map_cleaned objs m1 m3"
proof -
  assume a: "map_cleaned objs m1 m2" and b: "map_cleaned objs m2 m3"
  have "\<exists>v'. lookup m3 k = Some v' \<and> filter (live objs) v' = filter (live objs) v \<and> set v' \<subseteq> set v \<and>
      (distinct v \<longrightarrow> distinct v')"
    if l: "lookup m1 k = Some v" for k v
  proof -
    obtain v2 where v2: "lookup m2 k = Some v2" "filter (live objs) v2 = filter (live objs) v"
        "set v2 \<subseteq> set v" "distinct v \<longrightarrow> distinct v2"
      using a l unfolding map_cleaned_def by blast
    obtain v3 where "lookup m3 k = Some v3" "filter (live objs) v3 = filter (live objs) v2"
        "set v3 \<subseteq> set v2" "distinct v2 \<longrightarrow> distinct v3"
      using b v2(1) unfolding map_cleaned_def by blast
    then show ?thesis using v2 by simp
  qed
  then show ?thesis using a b by (simp add: map_cleaned_def)
qed

lemma map_cleaned_back:
  assumes "map_cleaned objs m m'" and "lookup m' k = Some vec'" and "i \<in> set vec'"
  shows "\<exists>vec. lookup m k = Some vec \<and> i \<in> set vec"
proof (cases "lookup m k")
  case None
  then have "k \<notin> set (map fst m')" using assms(1) by (simp add: map_cleaned_def map_of_eq_None_iff)
  then show ?thesis using assms(2) by (metis map_of_eq_None_iff option.distinct(1) set_map)
next
  case (Some vec)
  then show ?thesis using assms unfolding map_cleaned_def by (metis option.inject subsetD)
qed

lemma visit_by_refl: "visit_by objs self [] v v"
  by (simp add: visit_by_def map_cleaned_refl)

lemma visit_by_trans:
  assumes "visit_by objs self xs v1 v2" and "visit_by objs self ys v2 v3"
  shows "visit_by objs self (xs @ ys) v1 v3"
proof -
  have c: "map_cleaned objs (vs_map v1) (vs_map v2)" "map_cleaned objs (vs_map v2) (vs_map v3)"
    using assms by (simp_all add: visit_by_def)
  have "\<exists>k vec. lookup (vs_map v1) k = Some vec \<and> i \<in> set vec" if "i \<in> set ys" for i
    using that assms(2) map_cleaned_back [OF c(1)] unfolding visit_by_def by blast
  moreover have "eligible objs self i" if "i \<in> set ys" for i
    using that assms(2) unfolding visit_by_def by blast
  ultimately show ?thesis
    using assms map_cleaned_trans [OF c] unfolding visit_by_def by (simp add: ball_Un bex_Un)
qed

lemma update_keys: "lookup m k \<noteq> None \<Longrightarrow> map fst (AList.update k v m) = map fst m"
  by (induction m) auto

lemma visit_idc_by:
  "\<exists>ids. visit_by objs (base64_peer_id input) ids v (visit_idc objs input num_left idc v) \<and>
     int (length ids) \<le> max 0 num_left"
proof (cases "lookup (vs_map v) idc")
  case None
  then show ?thesis using visit_by_refl by (fastforce simp: visit_idc_def)
next
  case (Some vec)
  let ?c = "\<lparr>ch_vec = vec, ch_out = vs_out v, ch_seed = vs_seed v, ch_want = num_left\<rparr>"
  obtain r rs where "GetRandomNumber (int (length vec) - 1) (vs_rs v) = (r, rs)" by force
  then have ch: "ChoosePeersByMap objs input ?c (vs_rs v) =
      (choose_loop objs (base64_peer_id input) (nat r) 0 ?c, rs)"
    by (simp add: ChoosePeersByMap_def)
  obtain ids where cb: "choice_by objs (base64_peer_id input) ids ?c
      (choose_loop objs (base64_peer_id input) (nat r) 0 ?c)"
    using choose_loop_by by blast
  have "map_cleaned objs (vs_map v) (vs_map (visit_idc objs input num_left idc v))"
    using Some cb ch by (auto simp: visit_idc_def choice_by_def map_cleaned_def update_keys)
  then show ?thesis
    using Some cb ch
    by (intro exI [of _ ids]) (auto simp: visit_by_def visit_idc_def choice_by_def)
qed

lemma visit_loop_by:
  "\<exists>ids. visit_by objs (base64_peer_id input) ids v
      (visit_loop objs input num_want random_index now_index ks v) \<and>
     int (length ids) \<le> max 0 (num_want - int (length (vs_out v)))"
proof (induction objs input num_want random_index now_index ks v rule: visit_loop.induct)
  case (1 objs input num_want random_index now_index v)
  then show ?case using visit_by_refl by fastforce
next
  case (2 objs input num_want random_index now_index idc ks v)
  let ?left = "num_want - int (length (vs_out v))"
  consider (stop) "\<not> ?left > 0"
    | (skip) "?left > 0" "random_index < now_index + 1 \<or> idc = sp_idc (thrift_peer input)"
    | (go) "?left > 0" "\<not> (random_index < now_index + 1 \<or> idc = sp_idc (thrift_peer input))"
    by blast
  then show ?case
  proof cases
    case stop
    then show ?thesis using visit_by_refl by fastforce
  next
    case skip
    then show ?thesis using "2.IH"(1) [OF refl skip(1) refl skip(2)] by simp
  next
    case go
    let ?v1 = "visit_idc objs input ?left idc v"
    obtain xs where i: "visit_by objs (base64_peer_id input) xs v ?v1" "int (length xs) \<le> max 0 ?left"
      using visit_idc_by by blast
    obtain ys where j: "visit_by objs (base64_peer_id input) ys ?v1
        (visit_loop objs input num_want random_index (now_index + 1) ks ?v1)"
      "int (length ys) \<le> max 0 (num_want - int (length (vs_out ?v1)))"
      using "2.IH"(2) [OF refl go(1) refl go(2)] by blast
    have "length (vs_out ?v1) = length (vs_out v) + length xs" using i(1) by (simp add: visit_by_def)
    then show ?thesis
      using visit_by_trans [OF i(1) j(1)] i(2) j(2) go by (intro exI [of _ "xs @ ys"]) simp
  qed
qed

lemma VisitIdcToPeers_by:
  "\<exists>ids. visit_by objs (base64_peer_id input) ids v (VisitIdcToPeers objs input num_want v) \<and>
     int (length ids) \<le> max 0 num_want"
proof -
  let ?v0 = "v\<lparr>vs_out := []\<rparr>"
  let ?v1 = "visit_idc objs input num_want (sp_idc (thrift_peer input)) ?v0"
  obtain r rs where r: "GetRandomNumber (int (length (vs_map ?v1)) - 1) (vs_rs ?v1) = (r, rs)" by force
  let ?v1' = "?v1\<lparr>vs_rs := rs\<rparr>"
  let ?v2 = "visit_loop objs input num_want r (-1) (map fst (vs_map ?v1)) ?v1'"
  obtain xs where i: "visit_by objs (base64_peer_id input) xs ?v0 ?v1" "int (length xs) \<le> max 0 num_want"
    using visit_idc_by by blast
  then have i': "visit_by objs (base64_peer_id input) xs ?v0 ?v1'" by (simp add: visit_by_def)
  obtain ys where j: "visit_by objs (base64_peer_id input) ys ?v1' ?v2"
    "int (length ys) \<le> max 0 (num_want - int (length (vs_out ?v1')))"
    using visit_loop_by by blast
  have len: "length (vs_out ?v1') = length xs" using i' by (simp add: visit_by_def)
  have eq: "VisitIdcToPeers objs input num_want v =
      ?v2\<lparr>vs_out := vs_out v @ map PeerInfo_copy (vs_out ?v2)\<rparr>"
    using r by (simp add: VisitIdcToPeers_def Let_def)
  have copy: "PeerInfo_copy (peer_at objs i) = peer_at objs i" for i
    by (simp add: peer_at_def PeerInfo_copy_def)
  have "visit_by objs (base64_peer_id input) (xs @ ys) v (VisitIdcToPeers objs input num_want v)"
    unfolding eq using visit_by_trans [OF i' j(1)] by (simp add: visit_by_def copy)
  then show ?thesis using i(2) j(2) len by (intro exI [of _ "xs @ ys"]) simp
qed

end
