(* ===== verification/PeerHandler.thy ===== *)
theory PeerHandler
  imports ChoosePeers
begin

text \<open>
  The tracker's peer handler, \<open>gko-tracker-src/src/PeerHandler.cpp\<close> with the command
  texts of \<open>include/bbts/RedisCommandCreator.h\<close>. The handler's state is the two info
  hash maps and the query queue; the requests it issues to the Redis manager and to
  the status manager are recorded in \<open>effects\<close>, in order. One announce is one
  step: the locks of \<open>KeyTypeRWLock\<close> are not modelled. Inputs of a step are the clock
  \<open>now\<close> and the list \<open>rs\<close> of random draws.
\<close>

datatype tracker_error = MISSING_ARGS | INVALID_ARGS | INFOHASH_NOT_FOUND | INVALID_OPERAT_TYPE

datatype effect =
    Pipeline string string
  | StatusSet string nat
  | StatusIncrease string

record PeerHandler =
  local_map :: "(string, SingleInfoHashInfo) assoc"
  remote_map :: "(string, SingleInfoHashInfo) assoc"
  query_map :: "(string, bool) assoc"
  have_query :: bool
  info_hash_expire_second :: u32
  effects :: "effect list"

definition PeerHandler_new :: "u32 \<Rightarrow> PeerHandler" where
  "PeerHandler_new expire = \<lparr>local_map = [], remote_map = [], query_map = [], have_query = False,
     info_hash_expire_second = expire, effects = []\<rparr>"

definition emit :: "effect list \<Rightarrow> PeerHandler \<Rightarrow> PeerHandler" where
  "emit es h = h\<lparr>effects := effects h @ es\<rparr>"

definition put_local :: "string \<Rightarrow> SingleInfoHashInfo \<Rightarrow> PeerHandler \<Rightarrow> PeerHandler" where
  "put_local k info h = h\<lparr>local_map := AList.update k info (local_map h)\<rparr>"

subsection \<open>Redis commands\<close>

definition SetHashOneItemInfo :: "string \<Rightarrow> string \<Rightarrow> string \<Rightarrow> string" where
  "SetHashOneItemInfo key hash_key value =
     ''hset '' @ c_str key @ '' '' @ c_str hash_key @ '' '' @ c_str value"

definition DeleteOneHashItem :: "string \<Rightarrow> string \<Rightarrow> string" where
  "DeleteOneHashItem key hash_key = ''hdel '' @ c_str key @ '' '' @ c_str hash_key"

definition SetExpire :: "string \<Rightarrow> u32 \<Rightarrow> string" where
  "SetExpire key expire_time = ''EXPIRE '' @ c_str key @ '' '' @ show_nat (unat expire_time)"

definition GetHashValueInfo :: "string \<Rightarrow> string" where
  "GetHashValueInfo key = ''HVALS '' @ c_str key"

definition ConstructInfoHashKey :: "string \<Rightarrow> string" where
  "ConstructInfoHashKey info_hash = ''info_hash_key_'' @ c_str info_hash"

definition ConstructPeerKey :: "string \<Rightarrow> string" where
  "ConstructPeerKey peer_id = c_str peer_id"

text \<open>\<open>Inr\<close> the requests sent, or \<open>Inl (-1)\<close> when the record cannot be encoded.\<close>

definition SetPeerRemote ::
  "(string \<Rightarrow> string) \<Rightarrow> (StoredPeerInfo \<Rightarrow> string) \<Rightarrow> u32 \<Rightarrow> PeerInfo \<Rightarrow> int + effect list" where
  "SetPeerRemote b64e thrift_write expire input =
     (case Base64Encode b64e (ConstructStringByPeerInfo thrift_write input) of
        None \<Rightarrow> Inl (-1)
      | Some encode_string \<Rightarrow>
          let info_hash_key = ConstructInfoHashKey (base64_info_hash input);
              peer_id_key = ConstructPeerKey (base64_peer_id input)
          in Inr [Pipeline (base64_info_hash input)
                    (SetHashOneItemInfo info_hash_key peer_id_key encode_string),
                  Pipeline (base64_info_hash input) (SetExpire info_hash_key expire)])"

definition DeletePeerRemote :: "PeerInfo \<Rightarrow> effect list" where
  "DeletePeerRemote input =
     [Pipeline (base64_info_hash input)
        (DeleteOneHashItem (ConstructInfoHashKey (base64_info_hash input))
           (ConstructPeerKey (base64_peer_id input)))]"

subsection \<open>Recording an announce\<close>

definition PreHandleInfoHashInfo ::
  "u64 \<Rightarrow> PeerInfo \<Rightarrow> PeerHandler \<Rightarrow> SingleInfoHashInfo \<times> PeerHandler" where
  "PreHandleInfoHashInfo now input h =
     (let info = (case lookup (local_map h) (base64_info_hash input) of
                    None \<Rightarrow> SingleInfoHashInfo_new now
                  | Some info \<Rightarrow> info\<lparr>timestamp := now\<rparr>)
      in (info, put_local (base64_info_hash input) info h))"

text \<open>
  The peer object the announce is about, whether it is new, and the requests sent. A
  stop message releases the object: the heap loses it with the map's reference.
\<close>

definition PreHandlePeerInfo ::
  "PeerInfo \<Rightarrow> SingleInfoHashInfo \<Rightarrow> SingleInfoHashInfo \<times> nat option \<times> bool \<times> effect list" where
  "PreHandlePeerInfo input info =
     (let key = base64_peer_id input in
      case lookup (peer_map info) key of
        None \<Rightarrow>
          if \<not> CheckToStop input then
            (info\<lparr>peer_map := AList.update key (next_obj info) (peer_map info),
                  peer_objs := AList.update (next_obj info) PeerInfo_new (peer_objs info),
                  next_obj := Suc (next_obj info)\<rparr>, Some (next_obj info), True, [])
          else (info, None, False, [])
      | Some obj \<Rightarrow>
          if CheckToStop input then
            (let remote = (case lookup (peer_objs info) obj of
                             None \<Rightarrow> False | Some p \<Rightarrow> is_set_remote p);
                 info = (if remote then info\<lparr>remote_peer_count := remote_peer_count info - 1\<rparr> else info)
             in (info\<lparr>peer_map := AList.delete key (peer_map info),
                      peer_objs := AList.delete obj (peer_objs info),
                      complete_num := complete_num info + 1\<rparr>, None, False,
                 if remote then DeletePeerRemote input else []))
          else (info, Some obj, False, []))"

definition update_obj ::
  "nat \<Rightarrow> (PeerInfo \<Rightarrow> PeerInfo) \<Rightarrow> SingleInfoHashInfo \<Rightarrow> SingleInfoHashInfo" where
  "update_obj obj f info =
     (case lookup (peer_objs info) obj of
        None \<Rightarrow> info
      | Some p \<Rightarrow> info\<lparr>peer_objs := AList.update obj (f p) (peer_objs info)\<rparr>)"

definition push_idc :: "string \<Rightarrow> nat \<Rightarrow> (string, nat list) assoc \<Rightarrow> (string, nat list) assoc" where
  "push_idc idc obj m =
     AList.update idc ((case lookup m idc of None \<Rightarrow> [] | Some vec \<Rightarrow> vec) @ [obj]) m"

definition push_new_peer :: "PeerInfo \<Rightarrow> nat \<Rightarrow> SingleInfoHashInfo \<Rightarrow> SingleInfoHashInfo" where
  "push_new_peer input obj info =
     (let idc = sp_idc (thrift_peer input);
          info = info\<lparr>idc_to_peer_vector := push_idc idc obj (idc_to_peer_vector info)\<rparr>
      in case lookup (peer_objs info) obj of
           Some p \<Rightarrow> if IsASeed p
             then info\<lparr>idc_to_seed_vector := push_idc idc obj (idc_to_seed_vector info)\<rparr> else info
         | None \<Rightarrow> info)"

text \<open>
  \<open>uint64_t probability = 1 << remote_peer_count\<close>, passed on as an \<open>int\<close>: the shift is
  done on a 32-bit \<open>int\<close>, whose count the hardware reduces modulo 32.
\<close>

definition probability :: "u64 \<Rightarrow> int" where
  "probability count = sint (push_bit (unat (count AND 31)) 1 :: u32)"

definition obj_set_remote :: "nat \<Rightarrow> SingleInfoHashInfo \<Rightarrow> bool" where
  "obj_set_remote obj info =
     (case lookup (peer_objs info) obj of None \<Rightarrow> False | Some p \<Rightarrow> is_set_remote p)"

text \<open>The last part of \<open>UpdatePeer\<close>: publishing the peer to Redis.\<close>

definition PublishPeer ::
  "(string \<Rightarrow> string) \<Rightarrow> (StoredPeerInfo \<Rightarrow> string) \<Rightarrow> u32 \<Rightarrow> PeerInfo \<Rightarrow> nat \<Rightarrow> bool \<Rightarrow>
   SingleInfoHashInfo \<Rightarrow> nat list \<Rightarrow> SingleInfoHashInfo \<times> effect list \<times> nat list" where
  "PublishPeer b64e thrift_write expire input obj peer_is_new info rs =
     (let (r, rs) = GetRandomNumber (probability (remote_peer_count info)) rs;
          if_set_peer_remote = (r \<le> 1)
      in if obj_set_remote obj info \<or> IsASeed input \<or> (IsSeeding input \<and> if_set_peer_remote) then
           (case SetPeerRemote b64e thrift_write expire input of
              Inl _ \<Rightarrow> (info, [], rs)
            | Inr es \<Rightarrow>
                let info = update_obj obj (\<lambda>p. p\<lparr>is_set_remote := True\<rparr>) info;
                    info = (if peer_is_new
                            then info\<lparr>remote_peer_count := remote_peer_count info + 1\<rparr> else info)
                in (info, es, rs))
         else (info, [], rs))"

definition UpdatePeer ::
  "(string \<Rightarrow> string) \<Rightarrow> (StoredPeerInfo \<Rightarrow> string) \<Rightarrow> u64 \<Rightarrow> PeerInfo \<Rightarrow> PeerHandler \<Rightarrow>
   nat list \<Rightarrow> int \<times> PeerHandler \<times> nat list" where
  "UpdatePeer b64e thrift_write now input h rs =
     (let key = base64_info_hash input;
          (info, h) = PreHandleInfoHashInfo now input h;
          (info, peer_info, peer_is_new, es) = PreHandlePeerInfo input info;
          h = emit es (put_local key info h)
      in case peer_info of
           None \<Rightarrow> (0, h, rs)
         | Some obj \<Rightarrow>
             if need_stop info \<and> \<not> IsASeed input then (26234, h, rs)
             else
               let info = update_obj obj (UpdateInfo b64e now input) info;
                   info = (if peer_is_new then push_new_peer input obj info else info);
                   (info, es, rs) = PublishPeer b64e thrift_write (info_hash_expire_second h)
                                      input obj peer_is_new info rs
               in (0, emit es (put_local key info h), rs))"

subsection \<open>Answering an announce\<close>

definition AddNeedInfoHash :: "PeerInfo \<Rightarrow> PeerHandler \<Rightarrow> PeerHandler" where
  "AddNeedInfoHash input h =
     (let key = base64_info_hash input;
          (querying, h) = (case lookup (query_map h) key of
             None \<Rightarrow> let q = AList.update key False (query_map h)
                     in (False, emit [StatusSet ''redis_to_syncronize_num'' (length q)] (h\<lparr>query_map := q\<rparr>))
           | Some querying \<Rightarrow> (querying, h))
      in if \<not> querying then h\<lparr>have_query := True\<rparr> else h)"

text \<open>What \<open>ChoosePeers\<close> has gathered so far.\<close>

record answer =
  an_out :: "PeerInfo list"
  an_seed :: bool
  an_rs :: "nat list"

definition ChooseLocal :: "PeerInfo \<Rightarrow> SingleInfoHashInfo \<Rightarrow> answer \<Rightarrow> SingleInfoHashInfo \<times> answer" where
  "ChooseLocal input info a =
     (let v = VisitIdcToPeers (peer_objs info) input (sint (sp_want_number (thrift_peer input)))
                \<lparr>vs_map = idc_to_peer_vector info, vs_out = an_out a, vs_seed = an_seed a, vs_rs = an_rs a\<rparr>;
          info = info\<lparr>idc_to_peer_vector := vs_map v\<rparr>
      in if \<not> vs_seed v \<and> length (idc_to_seed_vector info) > 0 then
           (let w = VisitIdcToPeers (peer_objs info) input 1
                      \<lparr>vs_map = idc_to_seed_vector info, vs_out = vs_out v, vs_seed = vs_seed v, vs_rs = vs_rs v\<rparr>
            in (info\<lparr>idc_to_seed_vector := vs_map w\<rparr>, \<lparr>an_out = vs_out w, an_seed = vs_seed w, an_rs = vs_rs w\<rparr>))
         else (info, \<lparr>an_out = vs_out v, an_seed = vs_seed v, an_rs = vs_rs v\<rparr>))"

definition ChooseRemote :: "PeerInfo \<Rightarrow> SingleInfoHashInfo \<Rightarrow> answer \<Rightarrow> SingleInfoHashInfo \<times> answer" where
  "ChooseRemote input info a =
     (let (info, a) =
        (if length (an_out a) < 10 then
           (let (c, rs) = ChoosePeersByMap (peer_objs info) input
                  \<lparr>ch_vec = peer_vec info, ch_out = an_out a, ch_seed = an_seed a,
                   ch_want = 10 - int (length (an_out a))\<rparr> (an_rs a)
            in (info\<lparr>peer_vec := ch_vec c\<rparr>, \<lparr>an_out = ch_out c, an_seed = ch_seed c, an_rs = rs\<rparr>))
         else (info, a))
      in if \<not> an_seed a \<and> peer_seed_vec info \<noteq> [] then
           (let (c, rs) = ChoosePeersByMap (peer_objs info) input
                  \<lparr>ch_vec = peer_seed_vec info, ch_out = an_out a, ch_seed = an_seed a, ch_want = 1\<rparr> (an_rs a)
            in (info\<lparr>peer_seed_vec := ch_vec c\<rparr>, \<lparr>an_out = ch_out c, an_seed = ch_seed c, an_rs = rs\<rparr>))
         else (info, a))"

definition ChoosePeers :: "PeerInfo \<Rightarrow> PeerHandler \<Rightarrow> answer \<Rightarrow> PeerHandler \<times> answer" where
  "ChoosePeers input h a =
     (let key = base64_info_hash input;
          a = a\<lparr>an_out := []\<rparr>;
          (h, a) = (case lookup (local_map h) key of
             None \<Rightarrow> (h, a)
           | Some info \<Rightarrow> let (info, a) = ChooseLocal input info a in (put_local key info h, a))
      in if IsASeed input \<or> (length (an_out a) > 0 \<and> an_seed a) then (h, a)
         else
           let h = AddNeedInfoHash input h in
           case lookup (remote_map h) key of
             None \<Rightarrow> (h, a)
           | Some info \<Rightarrow>
               let (info, a) = ChooseRemote input info a
               in (h\<lparr>remote_map := AList.update key info (remote_map h)\<rparr>, a))"

definition Handle ::
  "(string \<Rightarrow> string) \<Rightarrow> (StoredPeerInfo \<Rightarrow> string) \<Rightarrow> u64 \<Rightarrow> PeerInfo \<Rightarrow> PeerHandler \<Rightarrow>
   answer \<Rightarrow> int \<times> PeerHandler \<times> answer" where
  "Handle b64e thrift_write now input h a =
     (let (ret, h, rs) = UpdatePeer b64e thrift_write now input h (an_rs a);
          a = a\<lparr>an_rs := rs\<rparr>
      in if ret \<noteq> 0 then (ret, h, a)
         else if CheckNeedMorePeers input then
           let (h, a) = ChoosePeers input h a in (0, h, a)
         else (ret, h, a))"

text \<open>\<open>type\<close> is \<open>STOP_DOWNLOADING\<close> (0) or \<open>RESUME_DOWNLOAD\<close> (1).\<close>

definition ControlByInfohash ::
  "u64 \<Rightarrow> string \<Rightarrow> int \<Rightarrow> PeerHandler \<Rightarrow> tracker_error option \<times> PeerHandler" where
  "ControlByInfohash now infohash type h =
     (case lookup (local_map h) infohash of
        None \<Rightarrow> (Some INFOHASH_NOT_FOUND, h)
      | Some info \<Rightarrow>
          let info = info\<lparr>timestamp := now\<rparr> in
          if type = 0 then (None, put_local infohash (info\<lparr>need_stop := True\<rparr>) h)
          else if type = 1 then (None, put_local infohash (info\<lparr>need_stop := False\<rparr>) h)
          else (Some INVALID_OPERAT_TYPE, put_local infohash info h))"

end
