(* ===== verification/PeerInv.thy ===== *)
theory PeerInv
  imports PeerHandler
begin

text \<open>
  The invariant of one info hash and of the whole handler, and that every operation of
  \<open>PeerHandler\<close> keeps it. The objects alive are those \<open>peer_map\<close> refers to; object
  numbers are never reused, so a weak reference that has expired never comes back to
  life as another peer; no vector lists an object twice; an initialised object is
  filed under its own base64 peer id.
\<close>

definition vec_ok :: "nat \<Rightarrow> nat list \<Rightarrow> bool" where
  "vec_ok n vec \<longleftrightarrow> distinct vec \<and> (\<forall>i \<in> set vec. i < n)"

definition idc_ok :: "nat \<Rightarrow> (string, nat list) assoc \<Rightarrow> bool" where
  "idc_ok n m \<longleftrightarrow> distinct (map fst m) \<and> (\<forall>k vec. lookup m k = Some vec \<longrightarrow> vec_ok n vec)"

definition store_ok :: "(string \<rightharpoonup> nat) \<Rightarrow> (nat \<rightharpoonup> PeerInfo) \<Rightarrow> nat \<Rightarrow> bool" where
  "store_ok m objs n \<longleftrightarrow>
     (\<forall>k k' i. m k = Some i \<longrightarrow> m k' = Some i \<longrightarrow> k = k') \<and>
     (\<forall>i. objs i \<noteq> None \<longleftrightarrow> (\<exists>k. m k = Some i)) \<and>
     (\<forall>k i. m k = Some i \<longrightarrow> i < n) \<and>
     (\<forall>k i p. m k = Some i \<longrightarrow> objs i = Some p \<longrightarrow> Initialized p \<longrightarrow> base64_peer_id p = k)"

definition objs_ok :: "SingleInfoHashInfo \<Rightarrow> bool" where
  "objs_ok info \<longleftrightarrow>
     distinct (map fst (peer_map info)) \<and> distinct (map fst (peer_objs info)) \<and>
     store_ok (map_of (peer_map info)) (map_of (peer_objs info)) (next_obj info)"

definition info_inv :: "SingleInfoHashInfo \<Rightarrow> bool" where
  "info_inv info \<longleftrightarrow> objs_ok info \<and>
     idc_ok (next_obj info) (idc_to_peer_vector info) \<and>
     idc_ok (next_obj info) (idc_to_seed_vector info) \<and>
     vec_ok (next_obj info) (peer_vec info) \<and> vec_ok (next_obj info) (peer_seed_vec info)"

definition map_inv :: "(string, SingleInfoHashInfo) assoc \<Rightarrow> bool" where
  "map_inv m \<longleftrightarrow> distinct (map fst m) \<and> (\<forall>k info. lookup m k = Some info \<longrightarrow> info_inv info)"

text \<open>A query not yet taken is never forgotten: the wake-up flag is up.\<close>

definition queue_inv :: "PeerHandler \<Rightarrow> bool" where
  "queue_inv h \<longleftrightarrow> distinct (map fst (query_map h)) \<and>
     ((\<exists>k. lookup (query_map h) k = Some False) \<longrightarrow> have_query h)"

definition handler_inv :: "PeerHandler \<Rightarrow> bool" where
  "handler_inv h \<longleftrightarrow> map_inv (local_map h) \<and> map_inv (remote_map h) \<and> queue_inv h"

text \<open>What \<open>PreHandleRequest\<close> guarantees of the peers it builds.\<close>

definition wf_input :: "(string \<Rightarrow> string) \<Rightarrow> PeerInfo \<Rightarrow> bool" where
  "wf_input b64e p \<longleftrightarrow> Initialized p \<and>
     base64_info_hash p = base64_or_raw b64e (sp_info_hash (thrift_peer p)) \<and>
     base64_peer_id p = base64_or_raw b64e (sp_peer_id (thrift_peer p))"

subsection \<open>Vectors\<close>

lemma vec_ok_mono: "vec_ok n vec \<Longrightarrow> n \<le> m \<Longrightarrow> vec_ok m vec"
  by (auto simp: vec_ok_def)

lemma idc_ok_mono: "idc_ok n m \<Longrightarrow> n \<le> k \<Longrightarrow> idc_ok k m"
  unfolding idc_ok_def using vec_ok_mono by blast

lemma vec_ok_Nil [simp]: "vec_ok n []"
  by (simp add: vec_ok_def)

lemma idc_ok_Nil [simp]: "idc_ok n []"
  by (simp add: idc_ok_def)

text \<open>A new object may be pushed: its number is the one about to be used up.\<close>

lemma vec_ok_snoc: "vec_ok n vec \<Longrightarrow> vec_ok (Suc n) (vec @ [n])"
  by (auto simp: vec_ok_def)

lemma idc_ok_push:
  assumes ok: "idc_ok n m"
  shows "idc_ok (Suc n) (push_idc idc n m)"
proof -
  have vk: "vec_ok (Suc n) vec" if "lookup m k = Some vec" for k vec
    using ok that vec_ok_mono [of n vec "Suc n"] unfolding idc_ok_def by (meson le_SucI order_refl)
  have pushed: "vec_ok (Suc n) ((case lookup m idc of None \<Rightarrow> [] | Some vec \<Rightarrow> vec) @ [n])"
    using ok unfolding idc_ok_def by (intro vec_ok_snoc) (auto simp del: map_of_eq_Some_iff split: option.splits)
  have "vec_ok (Suc n) vec" if "lookup (push_idc idc n m) k = Some vec" for k vec
    using that pushed vk [of k vec] by (simp add: push_idc_def split: if_splits)
  then show ?thesis using ok unfolding idc_ok_def by (simp add: push_idc_def)
qed

lemma idc_ok_cleaned: "idc_ok n m \<Longrightarrow> map_cleaned objs m m' \<Longrightarrow> idc_ok n m'"
proof -
  assume ok: "idc_ok n m" and cl: "map_cleaned objs m m'"
  have "vec_ok n vec'" if l: "lookup m' k = Some vec'" for k vec'
  proof (cases "lookup m k")
    case None
    then have "k \<notin> set (map fst m')" using cl by (simp add: map_cleaned_def map_of_eq_None_iff)
    then show ?thesis using l by (metis map_of_eq_None_iff option.distinct(1) set_map)
  next
    case (Some vec)
    then have "vec_ok n vec" using ok by (simp add: idc_ok_def)
    moreover have "set vec' \<subseteq> set vec \<and> (distinct vec \<longrightarrow> distinct vec')"
      using cl Some l unfolding map_cleaned_def by fastforce
    ultimately show ?thesis by (auto simp: vec_ok_def)
  qed
  then show ?thesis using ok cl by (simp add: idc_ok_def map_cleaned_def)
qed

lemma vec_ok_choice: "vec_ok n (ch_vec c) \<Longrightarrow> choice_by objs self ids c c' \<Longrightarrow> vec_ok n (ch_vec c')"
  by (auto simp: vec_ok_def choice_by_def)

subsection \<open>One info hash\<close>

lemma info_inv_new [simp]: "info_inv (SingleInfoHashInfo_new now)"
  by (simp add: info_inv_def objs_ok_def store_ok_def SingleInfoHashInfo_new_def)

lemma info_inv_fields [simp]:
  "info_inv (info\<lparr>timestamp := t\<rparr>) = info_inv info"
  "info_inv (info\<lparr>need_stop := b\<rparr>) = info_inv info"
  "info_inv (info\<lparr>remote_peer_count := c\<rparr>) = info_inv info"
  "info_inv (info\<lparr>complete_num := c\<rparr>) = info_inv info"
  by (simp_all add: info_inv_def objs_ok_def)

text \<open>Creating a peer, releasing one, and rewriting one under the same key.\<close>

lemma store_okD:
  assumes "store_ok m objs n"
  shows "m k = Some i \<Longrightarrow> m k' = Some i \<Longrightarrow> k = k'"
    and "m k = Some i \<Longrightarrow> \<exists>p. objs i = Some p"
    and "objs i = Some p \<Longrightarrow> \<exists>k. m k = Some i"
    and "m k = Some i \<Longrightarrow> i < n"
    and "m k = Some i \<Longrightarrow> objs i = Some p \<Longrightarrow> Initialized p \<Longrightarrow> base64_peer_id p = k"
  using assms unfolding store_ok_def by blast+

lemma store_okI:
  assumes "\<And>k k' i. m k = Some i \<Longrightarrow> m k' = Some i \<Longrightarrow> k = k'"
    and "\<And>k i. m k = Some i \<Longrightarrow> objs i \<noteq> None"
    and "\<And>i p. objs i = Some p \<Longrightarrow> \<exists>k. m k = Some i"
    and "\<And>k i. m k = Some i \<Longrightarrow> i < n"
    and "\<And>k i p. m k = Some i \<Longrightarrow> objs i = Some p \<Longrightarrow> Initialized p \<Longrightarrow> base64_peer_id p = k"
  shows "store_ok m objs n"
  using assms unfolding store_ok_def by blast

lemma store_ok_insert:
  assumes s: "store_ok m objs n" and k: "m key = None"
    and p: "Initialized p \<Longrightarrow> base64_peer_id p = key"
  shows "store_ok (m(key \<mapsto> n)) (objs(n \<mapsto> p)) (Suc n)"
proof -
  have fresh: "m k = Some i \<Longrightarrow> i \<noteq> n" for k i using store_okD(4) [OF s] by blast
  show ?thesis
  proof (rule store_okI, goal_cases)
    case (1 k k' i)
    then show ?case using fresh [of k i] fresh [of k' i] store_okD(1) [OF s, of k i k']
      by (auto split: if_splits)
  next
    case (2 k i)
    then show ?case using store_okD(2) [OF s, of k i] by (auto split: if_splits)
  next
    case (3 i q)
    then show ?case
    proof (cases "i = n")
      case True
      then show ?thesis by (intro exI [of _ key]) simp
    next
      case False
      then obtain k' where "m k' = Some i" using 3 store_okD(3) [OF s, of i q] by auto
      then show ?thesis using k by (intro exI [of _ k']) auto
    qed
  next
    case (4 k i)
    then show ?case using store_okD(4) [OF s, of k i] by (auto split: if_splits)
  next
    case (5 k i q)
    then show ?case using store_okD(5) [OF s, of k i q] p fresh [of k i] by (auto split: if_splits)
  qed
qed

lemma store_ok_delete:
  assumes s: "store_ok m objs n" and k: "m key = Some obj"
  shows "store_ok (m(key := None)) (objs(obj := None)) n"
proof (rule store_okI, goal_cases)
  case (1 k k' i)
  then show ?case using store_okD(1) [OF s, of k i k'] by (auto split: if_splits)
next
  case (2 k' i)
  then show ?case using store_okD(2) [OF s, of k' i] store_okD(1) [OF s, of k' i key] k
    by (auto split: if_splits)
next
  case (3 i q)
  then have q: "objs i = Some q" and ne: "i \<noteq> obj" by (auto split: if_splits)
  obtain k' where k': "m k' = Some i" using store_okD(3) [OF s q] by blast
  then have "k' \<noteq> key" using k ne by auto
  then show ?case using k' by (intro exI [of _ k']) simp
next
  case (4 k i)
  then show ?case using store_okD(4) [OF s, of k i] by (auto split: if_splits)
next
  case (5 k i q)
  then show ?case using store_okD(5) [OF s, of k i q] by (auto split: if_splits)
qed

lemma store_ok_update:
  assumes s: "store_ok m objs n" and k: "m key = Some obj"
    and p: "Initialized p \<Longrightarrow> base64_peer_id p = key"
  shows "store_ok m (objs(obj \<mapsto> p)) n"
proof (rule store_okI, goal_cases)
  case (1 k k' i)
  then show ?case using store_okD(1) [OF s, of k i k'] by simp
next
  case (2 k' i)
  then show ?case using store_okD(2) [OF s, of k' i] by auto
next
  case (3 i q)
  then show ?case using store_okD(3) [OF s, of i q] k by (auto split: if_splits)
next
  case (4 k i)
  then show ?case using store_okD(4) [OF s, of k i] by simp
next
  case (5 k' i q)
  then show ?case using store_okD(5) [OF s, of k' i q] store_okD(1) [OF s, of k' i key] k p
    by (auto split: if_splits)
qed

lemma objs_ok_update:
  assumes "objs_ok info" and "lookup (peer_map info) key = Some obj"
    and "\<And>p. lookup (peer_objs info) obj = Some p \<Longrightarrow> Initialized (f p) \<Longrightarrow> base64_peer_id (f p) = key"
  shows "objs_ok (update_obj obj f info)"
proof (cases "lookup (peer_objs info) obj")
  case None
  then show ?thesis using assms(1) by (simp add: update_obj_def)
next
  case (Some p)
  have "store_ok (map_of (peer_map info)) ((map_of (peer_objs info))(obj \<mapsto> f p)) (next_obj info)"
    using assms(1) store_ok_update assms(2) assms(3) [OF Some] unfolding objs_ok_def by blast
  then show ?thesis using assms(1) Some unfolding objs_ok_def update_obj_def by simp
qed

lemma info_inv_insert:
  assumes "info_inv info" and "lookup (peer_map info) key = None"
  shows "info_inv (info\<lparr>peer_map := AList.update key (next_obj info) (peer_map info),
    peer_objs := AList.update (next_obj info) PeerInfo_new (peer_objs info),
    next_obj := Suc (next_obj info)\<rparr>)"
proof -
  have "\<not> Initialized PeerInfo_new" by (simp add: Initialized_def PeerInfo_new_def StoredPeerInfo_new_def)
  then show ?thesis
    using assms store_ok_insert [of "map_of (peer_map info)" _ _ key PeerInfo_new] unfolding info_inv_def objs_ok_def
    by (simp add: idc_ok_mono [of "next_obj info"] vec_ok_mono [of "next_obj info"])
qed

lemma info_inv_delete:
  assumes "info_inv info" and "lookup (peer_map info) key = Some obj"
  shows "info_inv (info\<lparr>peer_map := AList.delete key (peer_map info),
    peer_objs := AList.delete obj (peer_objs info)\<rparr>)"
  using assms store_ok_delete [of "map_of (peer_map info)" _ _ key obj]
  unfolding info_inv_def objs_ok_def by simp

lemma update_obj_fields [simp]:
  "peer_map (update_obj obj f info) = peer_map info"
  "next_obj (update_obj obj f info) = next_obj info"
  "idc_to_peer_vector (update_obj obj f info) = idc_to_peer_vector info"
  "idc_to_seed_vector (update_obj obj f info) = idc_to_seed_vector info"
  "peer_vec (update_obj obj f info) = peer_vec info"
  "peer_seed_vec (update_obj obj f info) = peer_seed_vec info"
  "need_stop (update_obj obj f info) = need_stop info"
  "remote_peer_count (update_obj obj f info) = remote_peer_count info"
  by (simp_all add: update_obj_def split: option.splits)

lemma lookup_update_obj:
  "lookup (peer_objs (update_obj obj f info)) i =
     (if i = obj then map_option f (lookup (peer_objs info) obj) else lookup (peer_objs info) i)"
  by (simp add: update_obj_def split: option.splits)

lemma info_inv_update:
  assumes "info_inv info" and "lookup (peer_map info) key = Some obj"
    and "\<And>p. lookup (peer_objs info) obj = Some p \<Longrightarrow> Initialized (f p) \<Longrightarrow> base64_peer_id (f p) = key"
  shows "info_inv (update_obj obj f info)"
  using assms objs_ok_update [OF _ assms(2), of f] unfolding info_inv_def by simp

subsection \<open>The handler\<close>

lemma map_inv_put: "map_inv m \<Longrightarrow> info_inv info \<Longrightarrow> map_inv (AList.update k info m)"
  unfolding map_inv_def by (simp del: map_of_eq_Some_iff)

lemma map_inv_lookup: "map_inv m \<Longrightarrow> lookup m k = Some info \<Longrightarrow> info_inv info"
  unfolding map_inv_def by blast

lemma queue_inv_frame [simp]:
  "queue_inv (h\<lparr>local_map := l\<rparr>) = queue_inv h"
  "queue_inv (h\<lparr>remote_map := r\<rparr>) = queue_inv h"
  "queue_inv (h\<lparr>effects := es\<rparr>) = queue_inv h"
  by (simp_all add: queue_inv_def)

lemma handler_inv_emit [simp]: "handler_inv (emit es h) = handler_inv h"
  by (simp add: handler_inv_def emit_def)

lemma handler_inv_put_local: "handler_inv h \<Longrightarrow> info_inv info \<Longrightarrow> handler_inv (put_local k info h)"
  by (simp add: handler_inv_def put_local_def map_inv_put)

lemma handler_fields [simp]:
  "local_map (emit es h) = local_map h" "remote_map (emit es h) = remote_map h"
  "query_map (emit es h) = query_map h" "have_query (emit es h) = have_query h"
  "info_hash_expire_second (emit es h) = info_hash_expire_second h"
  "effects (emit es h) = effects h @ es"
  "local_map (put_local k info h) = AList.update k info (local_map h)"
  "remote_map (put_local k info h) = remote_map h"
  "query_map (put_local k info h) = query_map h" "have_query (put_local k info h) = have_query h"
  "info_hash_expire_second (put_local k info h) = info_hash_expire_second h"
  "effects (put_local k info h) = effects h"
  by (simp_all add: emit_def put_local_def)

lemma PreHandleInfoHashInfo_inv:
  assumes "handler_inv h" and "PreHandleInfoHashInfo now input h = (info, h')"
  shows "info_inv info \<and> handler_inv h'"
proof -
  have "info_inv info"
    using assms map_inv_lookup [of "local_map h"]
    by (auto simp: PreHandleInfoHashInfo_def handler_inv_def Let_def simp del: map_of_eq_Some_iff
        split: option.splits)
  then show ?thesis
    using assms by (auto simp: PreHandleInfoHashInfo_def Let_def handler_inv_put_local)
qed

text \<open>
  The two cases in which the announce goes on: a new object, with the number just
  used up, or the one on file.
\<close>

lemma PreHandlePeerInfo_inv:
  assumes inv: "info_inv info" and pre: "PreHandlePeerInfo input info = (info', oi, peer_is_new, es)"
  shows "info_inv info'"
    and "oi = Some obj \<Longrightarrow> lookup (peer_map info') (base64_peer_id input) = Some obj \<and>
      (peer_is_new \<longrightarrow> next_obj info' = Suc obj \<and>
         idc_ok obj (idc_to_peer_vector info') \<and> idc_ok obj (idc_to_seed_vector info'))"
proof -
  let ?key = "base64_peer_id input"
  consider (new) "lookup (peer_map info) ?key = None" "\<not> CheckToStop input"
    | (gone) "lookup (peer_map info) ?key = None" "CheckToStop input"
    | (stop) i where "lookup (peer_map info) ?key = Some i" "CheckToStop input"
    | (old) i where "lookup (peer_map info) ?key = Some i" "\<not> CheckToStop input"
    by (cases "lookup (peer_map info) ?key") blast+
  then have both: "info_inv info' \<and> (oi = Some obj \<longrightarrow> lookup (peer_map info') ?key = Some obj \<and>
      (peer_is_new \<longrightarrow> next_obj info' = Suc obj \<and>
         idc_ok obj (idc_to_peer_vector info') \<and> idc_ok obj (idc_to_seed_vector info')))"
  proof cases
    case new
    then show ?thesis
      using pre info_inv_insert [OF inv new(1)] inv by (auto simp: PreHandlePeerInfo_def info_inv_def)
  next
    case gone
    then show ?thesis using pre inv by (simp add: PreHandlePeerInfo_def)
  next
    case (stop i)
    have "oi = None" using pre stop by (auto simp: PreHandlePeerInfo_def Let_def simp del: map_of_eq_Some_iff)
    moreover have "info_inv info'"
      using pre stop info_inv_delete [OF inv stop(1)]
        info_inv_delete [of "info\<lparr>remote_peer_count := remote_peer_count info - 1\<rparr>", OF _ ] inv
      by (auto simp: PreHandlePeerInfo_def Let_def simp del: map_of_eq_Some_iff split: if_splits)
    ultimately show ?thesis by simp
  next
    case (old i)
    then show ?thesis using pre inv by (auto simp: PreHandlePeerInfo_def simp del: map_of_eq_Some_iff)
  qed
  show "info_inv info'" using both by simp
  show "oi = Some obj \<Longrightarrow> lookup (peer_map info') ?key = Some obj \<and>
      (peer_is_new \<longrightarrow> next_obj info' = Suc obj \<and>
         idc_ok obj (idc_to_peer_vector info') \<and> idc_ok obj (idc_to_seed_vector info'))"
    using both by blast
qed

lemma push_new_peer_inv:
  assumes inv: "info_inv info" and n: "next_obj info = Suc obj"
    and v: "idc_ok obj (idc_to_peer_vector info)" "idc_ok obj (idc_to_seed_vector info)"
  shows "info_inv (push_new_peer input obj info)"
  using inv n idc_ok_push [OF v(1)] idc_ok_push [OF v(2)]
  unfolding push_new_peer_def info_inv_def objs_ok_def Let_def
  by (simp split: option.splits)

lemma PublishPeer_inv:
  assumes inv: "info_inv info" and k: "lookup (peer_map info) key = Some obj"
    and pub: "PublishPeer b64e w expire input obj new info rs = (info', es, rs')"
  shows "info_inv info'"
proof -
  have "info_inv (update_obj obj (\<lambda>p. p\<lparr>is_set_remote := True\<rparr>) info)"
  proof (rule info_inv_update [OF inv k])
    fix p assume p: "lookup (peer_objs info) obj = Some p"
    have "store_ok (map_of (peer_map info)) (map_of (peer_objs info)) (next_obj info)"
      using inv by (simp add: info_inv_def objs_ok_def)
    then show "Initialized (p\<lparr>is_set_remote := True\<rparr>) \<Longrightarrow> base64_peer_id (p\<lparr>is_set_remote := True\<rparr>) = key"
      using store_okD(5) [of "map_of (peer_map info)" "map_of (peer_objs info)" _ key obj p] k p
      by (simp add: Initialized_def)
  qed
  then show ?thesis
    using pub inv by (auto simp: PublishPeer_def Let_def split: prod.splits if_splits sum.splits)
qed

lemma UpdatePeer_inv:
  assumes inv: "handler_inv h" and wf: "wf_input b64e input"
    and up: "UpdatePeer b64e w now input h rs = (ret, h', rs')"
  shows "handler_inv h'"
proof -
  obtain info1 h1 where pre1: "PreHandleInfoHashInfo now input h = (info1, h1)" by force
  obtain info2 oi new es where pre2: "PreHandlePeerInfo input info1 = (info2, oi, new, es)"
    by (metis prod_cases4)
  have i1: "info_inv info1" "handler_inv h1" using PreHandleInfoHashInfo_inv [OF inv pre1] by auto
  have i2: "info_inv info2" by (rule PreHandlePeerInfo_inv [OF i1(1) pre2])
  let ?h2 = "emit es (put_local (base64_info_hash input) info2 h1)"
  have h2: "handler_inv ?h2" using i1 i2 by (simp add: handler_inv_put_local)
  show ?thesis
  proof (cases oi)
    case None
    then show ?thesis using up pre1 pre2 h2 by (simp add: UpdatePeer_def)
  next
    case (Some obj)
    note p2 = PreHandlePeerInfo_inv(2) [OF i1(1) pre2 Some]
    let ?info3 = "update_obj obj (UpdateInfo b64e now input) info2"
    have i3: "info_inv ?info3"
      using wf p2 by (intro info_inv_update [OF i2]) (auto simp: wf_input_def UpdateInfo_simps)
    let ?info4 = "if new then push_new_peer input obj ?info3 else ?info3"
    have i4: "info_inv ?info4" using i3 p2 by (simp add: push_new_peer_inv)
    have k4: "lookup (peer_map ?info4) (base64_peer_id input) = Some obj"
      using p2 by (simp add: push_new_peer_def Let_def split: option.splits)
    obtain info5 es5 rs5 where pub: "PublishPeer b64e w (info_hash_expire_second ?h2) input obj new ?info4 rs
        = (info5, es5, rs5)" by (metis prod_cases3)
    have i5: "info_inv info5" by (rule PublishPeer_inv [OF i4 k4 pub])
    show ?thesis
      using up pre1 pre2 Some h2 i5 pub
      by (auto simp: UpdatePeer_def Let_def handler_inv_put_local split: if_splits)
  qed
qed

subsection \<open>Answers\<close>

definition answer_by ::
  "(nat, PeerInfo) assoc \<Rightarrow> string \<Rightarrow> nat list \<Rightarrow> answer \<Rightarrow> answer \<Rightarrow> bool" where
  "answer_by objs self ids a a' \<longleftrightarrow>
     an_out a' = an_out a @ map (peer_at objs) ids \<and> (\<forall>i \<in> set ids. eligible objs self i) \<and>
     (an_seed a' \<longleftrightarrow> an_seed a \<or> (\<exists>i \<in> set ids. IsASeed (peer_at objs i)))"

lemma answer_by_trans:
  "answer_by objs self xs a b \<Longrightarrow> answer_by objs self ys b c \<Longrightarrow> answer_by objs self (xs @ ys) a c"
  by (simp add: answer_by_def ball_Un bex_Un)

lemma answer_by_refl: "answer_by objs self [] a a"
  by (simp add: answer_by_def)

lemma info_inv_clean_vectors:
  assumes "info_inv info"
  shows "map_cleaned objs (idc_to_peer_vector info) m \<Longrightarrow> info_inv (info\<lparr>idc_to_peer_vector := m\<rparr>)"
    and "map_cleaned objs (idc_to_seed_vector info) m \<Longrightarrow> info_inv (info\<lparr>idc_to_seed_vector := m\<rparr>)"
proof -
  have iv: "idc_ok (next_obj info) (idc_to_peer_vector info)" "idc_ok (next_obj info) (idc_to_seed_vector info)"
    using assms by (simp_all add: info_inv_def)
  show "map_cleaned objs (idc_to_peer_vector info) m \<Longrightarrow> info_inv (info\<lparr>idc_to_peer_vector := m\<rparr>)"
    using assms idc_ok_cleaned [OF iv(1)] by (simp add: info_inv_def objs_ok_def)
  show "map_cleaned objs (idc_to_seed_vector info) m \<Longrightarrow> info_inv (info\<lparr>idc_to_seed_vector := m\<rparr>)"
    using assms idc_ok_cleaned [OF iv(2)] by (simp add: info_inv_def objs_ok_def)
qed

lemma ChooseLocal_by:
  assumes inv: "info_inv info" and ch: "ChooseLocal input info a = (info', a')"
  shows "\<exists>ids. answer_by (peer_objs info) (base64_peer_id input) ids a a' \<and>
      int (length ids) \<le> max 0 (sint (sp_want_number (thrift_peer input))) + 1"
    and "info_inv info'"
proof -
  let ?objs = "peer_objs info" and ?self = "base64_peer_id input"
  let ?v = "VisitIdcToPeers ?objs input (sint (sp_want_number (thrift_peer input)))
    \<lparr>vs_map = idc_to_peer_vector info, vs_out = an_out a, vs_seed = an_seed a, vs_rs = an_rs a\<rparr>"
  let ?b = "\<lparr>an_out = vs_out ?v, an_seed = vs_seed ?v, an_rs = vs_rs ?v\<rparr>"
  obtain xs where xs: "answer_by ?objs ?self xs a ?b"
      "int (length xs) \<le> max 0 (sint (sp_want_number (thrift_peer input)))"
    and mc: "map_cleaned ?objs (idc_to_peer_vector info) (vs_map ?v)"
    using VisitIdcToPeers_by [of ?objs input "\<lparr>vs_map = idc_to_peer_vector info, vs_out = an_out a,
        vs_seed = an_seed a, vs_rs = an_rs a\<rparr>" "sint (sp_want_number (thrift_peer input))"]
    by (auto simp: visit_by_def answer_by_def)
  let ?info1 = "info\<lparr>idc_to_peer_vector := vs_map ?v\<rparr>"
  have i1: "info_inv ?info1" by (rule info_inv_clean_vectors(1) [OF inv mc])
  let ?w = "VisitIdcToPeers ?objs input 1
    \<lparr>vs_map = idc_to_seed_vector info, vs_out = vs_out ?v, vs_seed = vs_seed ?v, vs_rs = vs_rs ?v\<rparr>"
  obtain ys where ys: "answer_by ?objs ?self ys ?b \<lparr>an_out = vs_out ?w, an_seed = vs_seed ?w, an_rs = vs_rs ?w\<rparr>"
      "int (length ys) \<le> 1"
    and mc2: "map_cleaned ?objs (idc_to_seed_vector ?info1) (vs_map ?w)"
    using VisitIdcToPeers_by [of ?objs input "\<lparr>vs_map = idc_to_seed_vector info, vs_out = vs_out ?v,
        vs_seed = vs_seed ?v, vs_rs = vs_rs ?v\<rparr>" 1]
    by (auto simp: visit_by_def answer_by_def)
  have i2: "info_inv (?info1\<lparr>idc_to_seed_vector := vs_map ?w\<rparr>)"
    by (rule info_inv_clean_vectors(2) [OF i1 mc2])
  consider (one) "info' = ?info1" "a' = ?b"
    | (two) "info' = ?info1\<lparr>idc_to_seed_vector := vs_map ?w\<rparr>"
        "a' = \<lparr>an_out = vs_out ?w, an_seed = vs_seed ?w, an_rs = vs_rs ?w\<rparr>"
    using ch by (auto simp: ChooseLocal_def Let_def split: if_splits)
  then show "\<exists>ids. answer_by ?objs ?self ids a a' \<and>
      int (length ids) \<le> max 0 (sint (sp_want_number (thrift_peer input))) + 1"
  proof cases
    case one
    then show ?thesis using xs by (intro exI [of _ xs]) auto
  next
    case two
    then show ?thesis using answer_by_trans [OF xs(1) ys(1)] xs(2) ys(2)
      by (intro exI [of _ "xs @ ys"]) auto
  qed
  show "info_inv info'"
    using ch i1 i2 by (auto simp: ChooseLocal_def Let_def split: if_splits)
qed

text \<open>One choice from a remote vector.\<close>

lemma ChoosePeersByMap_by:
  assumes "ChoosePeersByMap objs input c rs = (c', rs')"
  shows "\<exists>ids. choice_by objs (base64_peer_id input) ids c c'"
  using assms choose_loop_by by (auto simp: ChoosePeersByMap_def split: prod.splits)

lemma choose_remote_vec:
  assumes "ChoosePeersByMap objs input \<lparr>ch_vec = vec, ch_out = an_out a, ch_seed = an_seed a,
      ch_want = n\<rparr> (an_rs a) = (c, rs)"
    and "vec_ok k vec"
  shows "\<exists>ids. answer_by objs (base64_peer_id input) ids a
        \<lparr>an_out = ch_out c, an_seed = ch_seed c, an_rs = rs\<rparr> \<and> int (length ids) \<le> max 0 n"
    and "vec_ok k (ch_vec c)"
proof -
  obtain ids where ids: "choice_by objs (base64_peer_id input) ids
      \<lparr>ch_vec = vec, ch_out = an_out a, ch_seed = an_seed a, ch_want = n\<rparr> c"
    using ChoosePeersByMap_by [OF assms(1)] by blast
  then show "\<exists>ids. answer_by objs (base64_peer_id input) ids a
        \<lparr>an_out = ch_out c, an_seed = ch_seed c, an_rs = rs\<rparr> \<and> int (length ids) \<le> max 0 n"
    by (intro exI [of _ ids]) (auto simp: choice_by_def answer_by_def)
  show "vec_ok k (ch_vec c)" using vec_ok_choice [OF _ ids] assms(2) by simp
qed

lemma ChooseRemote_by:
  assumes inv: "info_inv info" and ch: "ChooseRemote input info a = (info', a')"
  shows "\<exists>ids. answer_by (peer_objs info) (base64_peer_id input) ids a a' \<and>
      length (an_out a') \<le> max 10 (length (an_out a)) + 1"
    and "info_inv info'"
proof -
  let ?objs = "peer_objs info" and ?self = "base64_peer_id input"
  have vecs: "vec_ok (next_obj info) (peer_vec info)" "vec_ok (next_obj info) (peer_seed_vec info)"
    using inv by (simp_all add: info_inv_def)
  obtain info1 b where st: "(if length (an_out a) < 10 then
           (let (c, rs) = ChoosePeersByMap (peer_objs info) input
                  \<lparr>ch_vec = peer_vec info, ch_out = an_out a, ch_seed = an_seed a,
                   ch_want = 10 - int (length (an_out a))\<rparr> (an_rs a)
            in (info\<lparr>peer_vec := ch_vec c\<rparr>, \<lparr>an_out = ch_out c, an_seed = ch_seed c, an_rs = rs\<rparr>))
         else (info, a)) = (info1, b)" by force
  have "(\<exists>ids. answer_by ?objs ?self ids a b \<and> length (an_out b) \<le> max 10 (length (an_out a))) \<and>
      info_inv info1 \<and> peer_objs info1 = ?objs \<and> next_obj info1 = next_obj info \<and>
      peer_seed_vec info1 = peer_seed_vec info"
  proof (cases "length (an_out a) < 10")
    case True
    obtain c rs where c: "ChoosePeersByMap ?objs input \<lparr>ch_vec = peer_vec info, ch_out = an_out a,
        ch_seed = an_seed a, ch_want = 10 - int (length (an_out a))\<rparr> (an_rs a) = (c, rs)" by force
    have eq: "info1 = info\<lparr>peer_vec := ch_vec c\<rparr>" "b = \<lparr>an_out = ch_out c, an_seed = ch_seed c, an_rs = rs\<rparr>"
      using st True c by auto
    obtain ids where ids: "answer_by ?objs ?self ids a b" "int (length ids) \<le> max 0 (10 - int (length (an_out a)))"
      using choose_remote_vec(1) [OF c vecs(1)] unfolding eq by blast
    have "length (an_out b) = length (an_out a) + length ids" using ids(1) by (simp add: answer_by_def)
    moreover have "info_inv info1"
      using inv choose_remote_vec(2) [OF c vecs(1)] unfolding eq info_inv_def objs_ok_def by simp
    ultimately show ?thesis using ids eq True by auto
  next
    case False
    then show ?thesis using st inv answer_by_refl by auto
  qed
  then obtain xs where xs: "answer_by ?objs ?self xs a b" "length (an_out b) \<le> max 10 (length (an_out a))"
    and i1: "info_inv info1" "peer_objs info1 = ?objs" "next_obj info1 = next_obj info"
      "peer_seed_vec info1 = peer_seed_vec info" by blast
  have both: "(\<exists>ids. answer_by ?objs ?self ids a a' \<and>
      length (an_out a') \<le> max 10 (length (an_out a)) + 1) \<and> info_inv info'"
  proof (cases "\<not> an_seed b \<and> peer_seed_vec info1 \<noteq> []")
    case True
    obtain c rs where c: "ChoosePeersByMap ?objs input \<lparr>ch_vec = peer_seed_vec info, ch_out = an_out b,
        ch_seed = an_seed b, ch_want = 1\<rparr> (an_rs b) = (c, rs)" by force
    have eq: "info' = info1\<lparr>peer_seed_vec := ch_vec c\<rparr>" "a' = \<lparr>an_out = ch_out c, an_seed = ch_seed c, an_rs = rs\<rparr>"
      using ch st True c i1 by (auto simp: ChooseRemote_def)
    obtain ys where ys: "answer_by ?objs ?self ys b a'" "int (length ys) \<le> 1"
      using choose_remote_vec(1) [OF c vecs(2)] unfolding eq by auto
    have "length (an_out a') = length (an_out b) + length ys" using ys(1) by (simp add: answer_by_def)
    moreover have "info_inv info'"
      using i1 choose_remote_vec(2) [OF c vecs(2)] unfolding eq info_inv_def objs_ok_def by simp
    ultimately show ?thesis using answer_by_trans [OF xs(1) ys(1)] xs(2) ys(2) by auto
  next
    case False
    then have "info' = info1" "a' = b" using ch st by (auto simp: ChooseRemote_def)
    then show ?thesis using xs i1 by auto
  qed
  show "\<exists>ids. answer_by ?objs ?self ids a a' \<and> length (an_out a') \<le> max 10 (length (an_out a)) + 1"
    using both by blast
  show "info_inv info'" using both by blast
qed

lemma AddNeedInfoHash_queue: "queue_inv h \<Longrightarrow> queue_inv (AddNeedInfoHash input h)"
  by (auto simp: queue_inv_def AddNeedInfoHash_def Let_def emit_def simp del: map_of_eq_Some_iff
      split: option.splits)

lemma AddNeedInfoHash_maps [simp]:
  "local_map (AddNeedInfoHash input h) = local_map h"
  "remote_map (AddNeedInfoHash input h) = remote_map h"
  by (simp_all add: AddNeedInfoHash_def Let_def emit_def split: option.splits)

text \<open>Everything about one answer: what is in it, its size, and the state left behind.\<close>

definition answer_ok :: "PeerHandler \<Rightarrow> PeerInfo \<Rightarrow> answer \<Rightarrow> answer \<Rightarrow> bool" where
  "answer_ok h input a a' \<longleftrightarrow>
     (\<forall>p \<in> set (an_out a'). \<exists>info i q.
        (lookup (local_map h) (base64_info_hash input) = Some info \<or>
         lookup (remote_map h) (base64_info_hash input) = Some info) \<and>
        lookup (peer_objs info) i = Some q \<and> p = PeerInfo_copy q \<and>
        Initialized q \<and> base64_peer_id q \<noteq> base64_peer_id input) \<and>
     int (length (an_out a')) \<le> max (max 0 (sint (sp_want_number (thrift_peer input))) + 1) 10 + 1 \<and>
     (an_seed a' \<longleftrightarrow> an_seed a \<or> (\<exists>p \<in> set (an_out a'). IsASeed p))"

lemma eligible_obj:
  "eligible objs self i \<Longrightarrow> \<exists>q. lookup objs i = Some q \<and> peer_at objs i = PeerInfo_copy q \<and>
     Initialized q \<and> base64_peer_id q \<noteq> self"
  by (auto simp: eligible_def peer_at_def split: option.splits)

lemma ChoosePeers_spec:
  assumes inv: "handler_inv h" and ch: "ChoosePeers input h a = (h', a')"
  shows "answer_ok h input a a'" and "handler_inv h'"
proof -
  let ?key = "base64_info_hash input" and ?self = "base64_peer_id input"
  let ?W = "max 0 (sint (sp_want_number (thrift_peer input)))"
  let ?a0 = "a\<lparr>an_out := []\<rparr>"
  obtain h1 b where hb: "(case lookup (local_map h) ?key of None \<Rightarrow> (h, ?a0)
    | Some info \<Rightarrow> let (info, c) = ChooseLocal input info ?a0 in (put_local ?key info h, c)) = (h1, b)"
    by force
  have local: "handler_inv h1 \<and> remote_map h1 = remote_map h \<and>
      (\<exists>objs xs. answer_by objs ?self xs ?a0 b \<and> int (length xs) \<le> ?W + 1 \<and>
        (xs \<noteq> [] \<longrightarrow> (\<exists>info. lookup (local_map h) ?key = Some info \<and> objs = peer_objs info)))"
  proof (cases "lookup (local_map h) ?key")
    case None
    then have "h1 = h" "b = ?a0" using hb by auto
    then show ?thesis using inv answer_by_refl by fastforce
  next
    case (Some info)
    obtain info1 c where c: "ChooseLocal input info ?a0 = (info1, c)" by force
    have eq: "h1 = put_local ?key info1 h" "b = c" using hb Some c by auto
    have iv: "info_inv info" using inv map_inv_lookup [of "local_map h"] Some unfolding handler_inv_def by blast
    have "handler_inv h1"
      using handler_inv_put_local [OF inv ChooseLocal_by(2) [OF iv c]] by (simp only: eq)
    then show ?thesis using ChooseLocal_by(1) [OF iv c] Some eq by auto
  qed
  then obtain objs xs where h1: "handler_inv h1" "remote_map h1 = remote_map h"
    and xs: "answer_by objs ?self xs ?a0 b" "int (length xs) \<le> ?W + 1"
      "xs \<noteq> [] \<longrightarrow> (\<exists>info. lookup (local_map h) ?key = Some info \<and> objs = peer_objs info)"
    by blast
  have out_b: "an_out b = map (peer_at objs) xs" using xs(1) by (simp add: answer_by_def)
  have src: "\<exists>info i q. (lookup (local_map h) ?key = Some info \<or> lookup (remote_map h) ?key = Some info) \<and>
      lookup (peer_objs info) i = Some q \<and> p = PeerInfo_copy q \<and> Initialized q \<and> base64_peer_id q \<noteq> ?self"
    if pb: "p \<in> set (an_out b)" for p
  proof -
    obtain i where i: "i \<in> set xs" "p = peer_at objs i" using pb out_b by auto
    then obtain info where "lookup (local_map h) ?key = Some info" "objs = peer_objs info"
      using xs(3) by (metis empty_iff list.set(1))
    moreover obtain q where "lookup objs i = Some q" "p = PeerInfo_copy q" "Initialized q"
        "base64_peer_id q \<noteq> ?self"
      using i xs(1) eligible_obj unfolding answer_by_def by metis
    ultimately show ?thesis by blast
  qed
  have ok_b: "answer_ok h input a b"
    using src xs(1,2) by (auto simp: answer_ok_def answer_by_def)
  have both: "answer_ok h input a a' \<and> handler_inv h'"
  proof (cases "IsASeed input \<or> (length (an_out b) > 0 \<and> an_seed b)")
    case True
    then have "h' = h1" "a' = b" using ch hb by (auto simp: ChoosePeers_def Let_def)
    then show ?thesis using ok_b h1 by simp
  next
    case False
    let ?h2 = "AddNeedInfoHash input h1"
    have h2: "handler_inv ?h2" using h1 AddNeedInfoHash_queue unfolding handler_inv_def by simp
    have step: "(case lookup (remote_map ?h2) ?key of None \<Rightarrow> (?h2, b)
       | Some info \<Rightarrow> let (info, a) = ChooseRemote input info b
           in (?h2\<lparr>remote_map := AList.update ?key info (remote_map ?h2)\<rparr>, a)) = (h', a')"
      using ch by (simp only: ChoosePeers_def Let_def hb [unfolded Let_def] prod.case False if_False)
    show ?thesis
    proof (cases "lookup (remote_map h) ?key")
      case None
      then show ?thesis using step ok_b h2 h1 by auto
    next
      case (Some info)
      obtain info1 c where c: "ChooseRemote input info b = (info1, c)" by force
      have iv: "info_inv info" using inv map_inv_lookup [of "remote_map h"] Some unfolding handler_inv_def by blast
      have eq: "a' = c" "h' = ?h2\<lparr>remote_map := AList.update ?key info1 (remote_map h1)\<rparr>"
        using step c Some h1 by auto
      obtain ys where ys: "answer_by (peer_objs info) ?self ys b c"
          "length (an_out c) \<le> max 10 (length (an_out b)) + 1"
        using ChooseRemote_by(1) [OF iv c] by blast
      have "handler_inv h'"
        using h2 h1 inv ChooseRemote_by(2) [OF iv c] unfolding eq handler_inv_def
        by (simp add: map_inv_put)
      moreover have "answer_ok h input a c"
        unfolding answer_ok_def
      proof (intro conjI ballI)
        fix p assume "p \<in> set (an_out c)"
        then consider "p \<in> set (an_out b)" | i where "i \<in> set ys" "p = peer_at (peer_objs info) i"
          using ys(1) by (auto simp: answer_by_def)
        then show "\<exists>info i q. (lookup (local_map h) ?key = Some info \<or> lookup (remote_map h) ?key = Some info) \<and>
          lookup (peer_objs info) i = Some q \<and> p = PeerInfo_copy q \<and> Initialized q \<and> base64_peer_id q \<noteq> ?self"
        proof cases
          case 1
          then show ?thesis by (rule src)
        next
          case (2 i)
          then show ?thesis using Some ys(1) eligible_obj unfolding answer_by_def by metis
        qed
      next
        have "int (length (an_out b)) \<le> ?W + 1" using xs(2) out_b by simp
        then show "int (length (an_out c)) \<le> max (?W + 1) 10 + 1" using ys(2) by linarith
      next
        show "an_seed c \<longleftrightarrow> an_seed a \<or> (\<exists>p \<in> set (an_out c). IsASeed p)"
          using ys(1) ok_b by (auto simp: answer_by_def answer_ok_def)
      qed
      ultimately show ?thesis using eq by simp
    qed
  qed
  show "answer_ok h input a a'" using both by blast
  show "handler_inv h'" using both by blast
qed

end
