(* ===== verification/PeerProps.thy ===== *)
theory PeerProps
  imports PeerInv
begin

text \<open>
  What one announce does, from \<open>UpdatePeer\<close> and \<open>Handle\<close> of
  \<open>gko-tracker-src/src/PeerHandler.cpp\<close>: the return code, the record it leaves, the
  effect of a stop message, the content of the answer.
\<close>

subsection \<open>The branches of UpdatePeer\<close>

definition known_peer :: "PeerHandler \<Rightarrow> PeerInfo \<Rightarrow> nat option" where
  "known_peer h input =
     (case lookup (local_map h) (base64_info_hash input) of
        None \<Rightarrow> None | Some info \<Rightarrow> lookup (peer_map info) (base64_peer_id input))"

definition stopped_hash :: "PeerHandler \<Rightarrow> PeerInfo \<Rightarrow> bool" where
  "stopped_hash h input =
     (case lookup (local_map h) (base64_info_hash input) of None \<Rightarrow> False | Some info \<Rightarrow> need_stop info)"

lemma PreHandleInfoHashInfo_eqs:
  assumes "PreHandleInfoHashInfo now input h = (info, h1)"
  shows "need_stop info = stopped_hash h input"
    and "lookup (peer_map info) (base64_peer_id input) = known_peer h input"
    and "h1 = put_local (base64_info_hash input) info h"
  using assms by (auto simp: PreHandleInfoHashInfo_def Let_def stopped_hash_def known_peer_def
      SingleInfoHashInfo_new_def split: option.splits)

lemma PreHandlePeerInfo_None:
  assumes "PreHandlePeerInfo input info = (info', oi, new, es)"
  shows "oi = None \<longleftrightarrow> CheckToStop input"
proof (cases "lookup (peer_map info) (base64_peer_id input)")
  case None
  then show ?thesis using assms by (auto simp: PreHandlePeerInfo_def split: if_splits)
next
  case (Some obj)
  then have "oi = (if CheckToStop input then None else Some obj)"
    using assms by (simp add: PreHandlePeerInfo_def Let_def del: map_of_eq_Some_iff split: if_splits)
  then show ?thesis by simp
qed

lemma PreHandlePeerInfo_need_stop:
  "PreHandlePeerInfo input info = (info', oi, new, es) \<Longrightarrow> need_stop info' = need_stop info"
  by (auto simp: PreHandlePeerInfo_def Let_def split: option.splits if_splits)

lemma PreHandlePeerInfo_new:
  "PreHandlePeerInfo input info = (info', Some obj, new, es) \<Longrightarrow>
     new = (lookup (peer_map info) (base64_peer_id input) = None)"
  by (auto simp: PreHandlePeerInfo_def Let_def split: option.splits if_splits)

lemma UpdatePeer_return_code:
  "fst (UpdatePeer b64e w now input h rs) =
     (if \<not> CheckToStop input \<and> \<not> IsASeed input \<and> stopped_hash h input then 26234 else 0)"
proof -
  obtain info1 h1 where pre1: "PreHandleInfoHashInfo now input h = (info1, h1)" by force
  obtain info2 oi new es where pre2: "PreHandlePeerInfo input info1 = (info2, oi, new, es)"
    by (metis prod_cases4)
  show ?thesis
    using PreHandlePeerInfo_None [OF pre2] PreHandlePeerInfo_need_stop [OF pre2]
      PreHandleInfoHashInfo_eqs(1) [OF pre1]
    by (cases oi) (simp_all add: UpdatePeer_def pre1 pre2 Let_def case_prod_beta)
qed

subsection \<open>The record\<close>

lemma push_new_peer_fields [simp]:
  "peer_map (push_new_peer input obj info) = peer_map info"
  "peer_objs (push_new_peer input obj info) = peer_objs info"
  by (simp_all add: push_new_peer_def Let_def split: option.splits)

lemma in_push_idc: "\<exists>vec. lookup (push_idc idc obj m) idc = Some vec \<and> obj \<in> set vec"
  by (simp add: push_idc_def)

lemma PublishPeer_fields:
  assumes "PublishPeer b64e w expire input obj new info rs = (info', es, rs')"
  shows "peer_map info' = peer_map info" "idc_to_peer_vector info' = idc_to_peer_vector info"
    "idc_to_seed_vector info' = idc_to_seed_vector info"
    "map_option thrift_peer (lookup (peer_objs info') i) = map_option thrift_peer (lookup (peer_objs info) i)"
    "map_option base64_peer_id (lookup (peer_objs info') i) = map_option base64_peer_id (lookup (peer_objs info) i)"
  using assms
  by (auto simp: PublishPeer_def Let_def lookup_update_obj option.map_comp comp_def
      split: prod.splits if_splits sum.splits simp del: map_of_eq_Some_iff)

text \<open>
  \<open>filed h input obj p\<close>: the peer of \<open>input\<close> is on file as object \<open>obj\<close> with content
  \<open>p\<close>; \<open>listed\<close>: the object is in the vectors that answers are drawn from.
\<close>

definition filed :: "PeerHandler \<Rightarrow> PeerInfo \<Rightarrow> nat \<Rightarrow> PeerInfo \<Rightarrow> bool" where
  "filed h input obj p \<longleftrightarrow>
     (\<exists>info. lookup (local_map h) (base64_info_hash input) = Some info \<and>
        lookup (peer_map info) (base64_peer_id input) = Some obj \<and> lookup (peer_objs info) obj = Some p)"

definition listed :: "PeerHandler \<Rightarrow> PeerInfo \<Rightarrow> nat \<Rightarrow> bool" where
  "listed h input obj \<longleftrightarrow>
     (\<exists>info. lookup (local_map h) (base64_info_hash input) = Some info \<and>
        (\<exists>vec. lookup (idc_to_peer_vector info) (sp_idc (thrift_peer input)) = Some vec \<and> obj \<in> set vec) \<and>
        (IsASeed input \<longrightarrow>
           (\<exists>vec. lookup (idc_to_seed_vector info) (sp_idc (thrift_peer input)) = Some vec \<and> obj \<in> set vec)))"


lemma filed_iff: "filed h input obj p \<longleftrightarrow>
    (case lookup (local_map h) (base64_info_hash input) of None \<Rightarrow> False
     | Some info \<Rightarrow> lookup (peer_map info) (base64_peer_id input) = Some obj \<and>
                    lookup (peer_objs info) obj = Some p)"
  by (simp add: filed_def split: option.splits)

subsection \<open>Leaving\<close>

text \<open>C4: a stop message takes its sender out at once: the answer is 0, the id is no
  longer on file, no initialised object with this id is left to be given to others, and Redis is told
  to delete the entry exactly when the peer had been published.\<close>

theorem UpdatePeer_stop:
  assumes inv: "handler_inv h" and st: "CheckToStop input"
    and up: "UpdatePeer b64e w now input h rs = (ret, h', rs')"
  shows "ret = 0 \<and> known_peer h' input = None \<and>
    (\<exists>info. lookup (local_map h') (base64_info_hash input) = Some info \<and>
       (\<forall>i p. lookup (peer_objs info) i = Some p \<longrightarrow> Initialized p \<longrightarrow>
          base64_peer_id p \<noteq> base64_peer_id input)) \<and>
    effects h' = effects h @
      (if \<exists>obj p. filed h input obj p \<and> is_set_remote p then DeletePeerRemote input else [])"
proof -
  obtain info1 h1 where pre1: "PreHandleInfoHashInfo now input h = (info1, h1)" by force
  obtain info2 oi new es where pre2: "PreHandlePeerInfo input info1 = (info2, oi, new, es)"
    by (metis prod_cases4)
  have i1: "info_inv info1" using PreHandleInfoHashInfo_inv [OF inv pre1] by auto
  have i2: "info_inv info2" by (rule PreHandlePeerInfo_inv [OF i1 pre2])
  have h1: "h1 = put_local (base64_info_hash input) info1 h" by (rule PreHandleInfoHashInfo_eqs(3) [OF pre1])
  have oi: "oi = None" using PreHandlePeerInfo_None [OF pre2] st by simp
  have h': "ret = 0" "h' = emit es (put_local (base64_info_hash input) info2 h1)"
    using up pre1 pre2 oi by (auto simp: UpdatePeer_def Let_def)
  let ?key = "base64_peer_id input"
  have gone: "lookup (peer_map info2) ?key = None"
    using pre2 st by (auto simp: PreHandlePeerInfo_def Let_def simp del: map_of_eq_Some_iff
        split: option.splits if_splits)
  have none: "base64_peer_id p \<noteq> ?key" if p: "lookup (peer_objs info2) i = Some p" "Initialized p" for i p
  proof
    assume eq: "base64_peer_id p = ?key"
    have so: "store_ok (map_of (peer_map info2)) (map_of (peer_objs info2)) (next_obj info2)"
      using i2 by (simp add: info_inv_def objs_ok_def)
    obtain k where "lookup (peer_map info2) k = Some i" using store_okD(3) [OF so p(1)] by blast
    then show False using store_okD(5) [OF so _ p] gone eq by auto
  qed
  have es: "es = (if \<exists>obj p. lookup (peer_map info1) ?key = Some obj \<and> lookup (peer_objs info1) obj = Some p \<and>
      is_set_remote p then DeletePeerRemote input else [])"
    using pre2 st by (cases "lookup (peer_map info1) ?key")
      (auto simp: PreHandlePeerInfo_def Let_def simp del: map_of_eq_Some_iff split: option.splits if_splits)
  have "(\<exists>obj p. filed h input obj p \<and> is_set_remote p) =
      (\<exists>obj p. lookup (peer_map info1) ?key = Some obj \<and> lookup (peer_objs info1) obj = Some p \<and> is_set_remote p)"
    using pre1 by (auto simp: filed_def PreHandleInfoHashInfo_def Let_def SingleInfoHashInfo_new_def
        simp del: map_of_eq_Some_iff split: option.splits)
  then show ?thesis
    using h' h1 gone none es by (auto simp: known_peer_def simp del: map_of_eq_Some_iff)
qed

subsection \<open>The answer\<close>


lemma Handle_inv:
  assumes inv: "handler_inv h" and wf: "wf_input b64e input"
    and ha: "Handle b64e w now input h a = (ret, h', a')"
  shows "handler_inv h'"
proof -
  obtain r h1 rs where up: "UpdatePeer b64e w now input h (an_rs a) = (r, h1, rs)" by (metis prod_cases3)
  have i1: "handler_inv h1" by (rule UpdatePeer_inv [OF inv wf up])
  obtain h2 a2 where ch: "ChoosePeers input h1 (a\<lparr>an_rs := rs\<rparr>) = (h2, a2)" by force
  have "h' = h1 \<or> h' = h2" using ha up ch by (auto simp: Handle_def Let_def split: if_splits)
  then show ?thesis using i1 ChoosePeers_spec(2) [OF i1 ch] by auto
qed

lemma Handle_inv_snd:
  "handler_inv h \<Longrightarrow> wf_input b64e input \<Longrightarrow> handler_inv (fst (snd (Handle b64e w now input h a)))"
  by (cases "Handle b64e w now input h a") (auto intro: Handle_inv)

lemma ControlByInfohash_inv:
  assumes inv: "handler_inv h" and c: "ControlByInfohash now infohash type h = (ec, h')"
  shows "handler_inv h'"
proof (cases "lookup (local_map h) infohash")
  case None
  then show ?thesis using assms by (simp add: ControlByInfohash_def)
next
  case (Some info)
  then have "info_inv info" using inv map_inv_lookup [of "local_map h"] unfolding handler_inv_def by blast
  then show ?thesis
    using assms Some by (auto simp: ControlByInfohash_def Let_def handler_inv_put_local
        simp del: map_of_eq_Some_iff split: if_splits)
qed

text \<open>C13: stopping and resuming an info hash. The operator's request fails exactly when the
  info hash is unknown or the operation is neither stop nor resume; when it succeeds it
  decides what every later announce of a peer that is no seed is told.\<close>

theorem ControlByInfohash_effect:
  assumes c: "ControlByInfohash now (base64_info_hash input) type h = (ec, h')"
    and ns: "\<not> CheckToStop input" "\<not> IsASeed input"
  shows "(ec = Some INFOHASH_NOT_FOUND \<longleftrightarrow> lookup (local_map h) (base64_info_hash input) = None) \<and>
    (ec = None \<longleftrightarrow> lookup (local_map h) (base64_info_hash input) \<noteq> None \<and> (type = 0 \<or> type = 1)) \<and>
    (ec = None \<longrightarrow> fst (UpdatePeer b64e w later input h' rs) = (if type = 0 then 26234 else 0)) \<and>
    (ec \<noteq> None \<longrightarrow> fst (UpdatePeer b64e w later input h' rs) = fst (UpdatePeer b64e w later input h rs))"
proof (cases "lookup (local_map h) (base64_info_hash input)")
  case None
  then show ?thesis using c by (auto simp: ControlByInfohash_def)
next
  case (Some info)
  then show ?thesis
    using c ns by (auto simp: ControlByInfohash_def Let_def UpdatePeer_return_code stopped_hash_def
        simp del: map_of_eq_Some_iff split: if_splits)
qed

subsection \<open>Concrete announces\<close>

text \<open>A peer as an announce builds it, with the identity as base64 encoder.\<close>

definition peer_of :: "string \<Rightarrow> string \<Rightarrow> Status \<Rightarrow> bool \<Rightarrow> u32 \<Rightarrow> PeerInfo" where
  "peer_of hash pid st seed want =
     SetWantNumber want (SetIsSeed seed (SetStatus st (SetIdc ''idc'' (SetIp ''10.0.0.1''
       (SetPeerId (\<lambda>x. x) pid (SetInfoHash (\<lambda>x. x) hash PeerInfo_new))))))"

definition announce_run :: "PeerInfo \<Rightarrow> PeerHandler \<Rightarrow> int \<times> PeerHandler \<times> answer" where
  "announce_run p h = Handle (\<lambda>x. x) (\<lambda>_. ''rec'') 100 p h \<lparr>an_out = [], an_seed = False, an_rs = []\<rparr>"

lemma peer_of_wf: "wf_input (\<lambda>x. x) (peer_of hash pid st seed want)"
  by (simp add: wf_input_def peer_of_def peer_setters Initialized_def)

lemma handler_inv_new: "handler_inv (PeerHandler_new expire)"
  by (simp add: handler_inv_def map_inv_def queue_inv_def PeerHandler_new_def)

definition ids_of :: "PeerInfo list \<Rightarrow> string list" where
  "ids_of ps = map (\<lambda>p. sp_peer_id (thrift_peer p)) ps"

text \<open>A tracker that knows the seed \<open>a\<close>, and the peer \<open>b\<close> that joins it.\<close>

definition seeded :: PeerHandler where
  "seeded = fst (snd (announce_run (peer_of ''h'' ''a'' SEEDING True 0) (PeerHandler_new 60)))"

definition joiner :: PeerInfo where
  "joiner = peer_of ''h'' ''b'' DOWNLOAD False 5"

lemma handler_inv_seeded: "handler_inv seeded"
  unfolding seeded_def announce_run_def by (rule Handle_inv_snd [OF handler_inv_new peer_of_wf])

lemma joiner_wf: "wf_input (\<lambda>x. x) joiner"
  by (simp add: joiner_def peer_of_wf)

abbreviation run_update :: "PeerInfo \<Rightarrow> PeerHandler \<Rightarrow> int \<times> PeerHandler \<times> nat list" where
  "run_update p h \<equiv> UpdatePeer (\<lambda>x. x) (\<lambda>_. ''rec'') 100 p h []"


definition leaver :: PeerInfo where
  "leaver = peer_of ''h'' ''a'' STOPPED True 0"

lemma UpdatePeer_stop_witness:
  "known_peer (fst (snd (run_update leaver seeded))) leaver = None \<and>
   effects (fst (snd (run_update leaver seeded))) = effects seeded @ DeletePeerRemote leaver"
proof -
  have st: "CheckToStop leaver" by code_simp
  have u: "run_update leaver seeded = (fst (run_update leaver seeded),
      fst (snd (run_update leaver seeded)), snd (snd (run_update leaver seeded)))"
    by simp
  have "known_peer seeded leaver = Some 0 \<and> filed seeded leaver 0
      (the (lookup (peer_objs (the (lookup (local_map seeded) (base64_info_hash leaver)))) 0)) \<and>
      is_set_remote (the (lookup (peer_objs (the (lookup (local_map seeded) (base64_info_hash leaver)))) 0))"
    unfolding filed_iff by code_simp
  then show ?thesis
    using UpdatePeer_stop [OF handler_inv_seeded st u] by auto
qed


lemma ControlByInfohash_effect_witness:
  "fst (run_update joiner (snd (ControlByInfohash 7 (base64_info_hash joiner) 0 seeded))) = 26234"
proof -
  have c: "ControlByInfohash 7 (base64_info_hash joiner) 0 seeded =
      (None, snd (ControlByInfohash 7 (base64_info_hash joiner) 0 seeded))"
  proof -
    have "fst (ControlByInfohash 7 (base64_info_hash joiner) 0 seeded) = None" by code_simp
    then show ?thesis by (metis prod.collapse)
  qed
  have "\<not> CheckToStop joiner" "\<not> IsASeed joiner" by code_simp+
  then show ?thesis
    using ControlByInfohash_effect [OF c, of "\<lambda>x. x" "\<lambda>_. ''rec''" 100 "[]"] by simp
qed

lemma run_joins:
  "(let (_, h1, _) = announce_run (peer_of ''h'' ''a'' SEEDING True 0) (PeerHandler_new 60);
        (r, h2, ans) = announce_run (peer_of ''h'' ''b'' DOWNLOAD False 5) h1
    in (r, ids_of (an_out ans), an_seed ans)) = (0, [''a''], True)"
  by code_simp

text \<open>
  Two things the code does not intend. A newcomer that is refused because the info hash
  is stopped is put on file but into no vector, and the next announce, after the info
  hash is resumed, finds it on file: it is never listed, so a third peer is not told of
  it. And a peer published while it is on file is not counted, but leaving uncounts it:
  the 64-bit counter wraps.
\<close>

lemma refused_newcomer_stays_hidden:
  "(let h1 = seeded;
        (_, h2) = ControlByInfohash 7 (base64_info_hash joiner) 0 h1;
        (r1, h3, _) = announce_run joiner h2;
        (_, h4) = ControlByInfohash 8 (base64_info_hash joiner) 1 h3;
        (r2, h5, _) = announce_run joiner h4;
        (r3, _, ans) = announce_run (peer_of ''h'' ''c'' DOWNLOAD False 9) h5
    in (r1, r2, known_peer h5 joiner, r3, ids_of (an_out ans))) = (26234, 0, Some 1, 0, [''a''])"
  by code_simp

lemma late_publisher_wraps_count:
  "(let (_, h1, _) = announce_run (peer_of ''h'' ''b'' DOWNLOAD False 0) (PeerHandler_new 60);
        (_, h2, _) = announce_run (peer_of ''h'' ''b'' SEEDING False 0) h1;
        (_, h3, _) = announce_run (peer_of ''h'' ''b'' STOPPED False 0) h2
    in map_option remote_peer_count (lookup (local_map h3) (base64_info_hash joiner))) = Some (- 1)"
  by code_simp

end
