(* ===== verification/TrackerSystem.thy ===== *)
theory TrackerSystem
  imports PeerProps
begin

text \<open>
  The tracker's background threads and the system they form with the announce
  handler: \<open>gko-tracker-src/src/InfoHashGarbageCleaner.cpp\<close> (\<open>PeriodSchedule\<close>) and
  \<open>src/RemotePeersSyncronizer.cpp\<close> (\<open>ThreadFunc\<close>, \<open>UpdateInfoHashMapByReply\<close>). The
  step relation interleaves the critical sections of the three threads; its invariant
  is an instance of \<open>invariant_system\<close>.
\<close>

subsection \<open>The garbage cleaner\<close>

text \<open>\<open>now - info->timestamp > expire_interval_\<close> is unsigned 64-bit arithmetic.\<close>

definition garbage :: "u64 \<Rightarrow> u64 \<Rightarrow> SingleInfoHashInfo \<Rightarrow> bool" where
  "garbage expire_interval now info \<longleftrightarrow>
     expire_interval < now - timestamp info \<or> length (peer_map info) = 0"

definition PeriodSchedule :: "u64 \<Rightarrow> u64 \<Rightarrow> PeerHandler \<Rightarrow> PeerHandler" where
  "PeriodSchedule expire_interval now h =
     (let info_hashs_to_delete =
            map fst (filter (\<lambda>(k, info). garbage expire_interval now info) (local_map h));
          local = filter (\<lambda>(k, info). \<not> garbage expire_interval now info) (local_map h)
      in if info_hashs_to_delete = [] then h\<lparr>local_map := local\<rparr>
         else h\<lparr>local_map := local,
                remote_map := fold AList.delete info_hashs_to_delete (remote_map h)\<rparr>)"

lemma lookup_fold_delete:
  "lookup (fold AList.delete ks m) k = (if k \<in> set ks then None else lookup m k)"
  by (induction ks arbitrary: m) auto

lemma distinct_fold_delete [simp]:
  "distinct (map fst m) \<Longrightarrow> distinct (map fst (fold AList.delete ks m))"
  by (induction ks arbitrary: m) auto

text \<open>One run of the garbage cleaner. An info hash stays exactly when it has a peer and
  was used within the expiry interval, with its state untouched; what is dropped
  locally is dropped from the remote map too, and nothing else is.\<close>

theorem PeriodSchedule_spec:
  assumes "handler_inv h"
  shows "lookup (local_map (PeriodSchedule e now h)) k =
      (case lookup (local_map h) k of None \<Rightarrow> None
       | Some info \<Rightarrow> if garbage e now info then None else Some info) \<and>
    lookup (remote_map (PeriodSchedule e now h)) k =
      (case lookup (local_map h) k of None \<Rightarrow> lookup (remote_map h) k
       | Some info \<Rightarrow> if garbage e now info then None else lookup (remote_map h) k)"
proof
  have d: "distinct (map fst (local_map h))" using assms by (simp add: handler_inv_def map_inv_def)
  let ?del = "map fst (filter (\<lambda>(k, info). garbage e now info) (local_map h))"
  have mem: "k \<in> set ?del \<longleftrightarrow> (\<exists>info. lookup (local_map h) k = Some info \<and> garbage e now info)"
    using d by (force simp: map_of_eq_Some_iff)
  show "lookup (local_map (PeriodSchedule e now h)) k =
      (case lookup (local_map h) k of None \<Rightarrow> None
       | Some info \<Rightarrow> if garbage e now info then None else Some info)"
    using map_of_filter_distinct [OF d, of "\<lambda>k info. \<not> garbage e now info" k]
    by (simp add: PeriodSchedule_def Let_def split: option.splits)
  show "lookup (remote_map (PeriodSchedule e now h)) k =
      (case lookup (local_map h) k of None \<Rightarrow> lookup (remote_map h) k
       | Some info \<Rightarrow> if garbage e now info then None else lookup (remote_map h) k)"
    using mem lookup_fold_delete [of ?del "remote_map h" k]
    by (auto simp: PeriodSchedule_def Let_def simp del: map_of_eq_Some_iff split: option.splits)
qed

lemma PeriodSchedule_spec_witness: "lookup (local_map (PeriodSchedule 10 200 seeded)) ''h=='' = None"
proof -
  have "(case lookup (local_map seeded) ''h=='' of None \<Rightarrow> False | Some info \<Rightarrow> garbage 10 200 info)"
    by code_simp
  then show ?thesis
    using PeriodSchedule_spec [OF handler_inv_seeded, of 10 200 "''h==''"]
    by (auto simp del: map_of_eq_Some_iff split: option.splits)
qed

text \<open>The specification, for the proofs of this theory.\<close>

lemma PeriodSchedule_lookups:
  assumes "handler_inv h"
  shows "lookup (local_map (PeriodSchedule e now h)) k = Some info \<Longrightarrow> lookup (local_map h) k = Some info"
    and "lookup (remote_map (PeriodSchedule e now h)) k = Some info \<Longrightarrow> lookup (remote_map h) k = Some info"
proof -
  have d: "distinct (map fst (local_map h))" using assms by (simp add: handler_inv_def map_inv_def)
  show "lookup (local_map (PeriodSchedule e now h)) k = Some info \<Longrightarrow> lookup (local_map h) k = Some info"
    using map_of_filter_distinct [OF d, of "\<lambda>k info. \<not> garbage e now info" k]
    by (simp add: PeriodSchedule_def Let_def split: option.splits if_splits)
  show "lookup (remote_map (PeriodSchedule e now h)) k = Some info \<Longrightarrow> lookup (remote_map h) k = Some info"
    by (simp add: PeriodSchedule_def Let_def lookup_fold_delete del: map_of_eq_Some_iff split: if_splits)
qed

lemma PeriodSchedule_inv:
  assumes inv: "handler_inv h"
  shows "handler_inv (PeriodSchedule e now h)"
proof -
  have m: "map_inv (local_map h)" "map_inv (remote_map h)" "queue_inv h"
    using inv by (simp_all add: handler_inv_def)
  have d: "distinct (map fst (local_map (PeriodSchedule e now h)))"
      "distinct (map fst (remote_map (PeriodSchedule e now h)))"
    using m by (simp_all add: PeriodSchedule_def map_inv_def Let_def)
  have "map_inv (local_map (PeriodSchedule e now h))"
    using m(1) d PeriodSchedule_lookups(1) [OF inv, of e now] unfolding map_inv_def by blast
  moreover have "map_inv (remote_map (PeriodSchedule e now h))"
    using m(2) d PeriodSchedule_lookups(2) [OF inv, of e now] unfolding map_inv_def by blast
  moreover have "queue_inv (PeriodSchedule e now h)"
    using m(3) by (simp add: PeriodSchedule_def Let_def queue_inv_def)
  ultimately show ?thesis by (simp add: handler_inv_def)
qed

subsection \<open>Peers read back from Redis\<close>

text \<open>\<open>None\<close> is a null reply; an array reply has the strings of its elements.\<close>

datatype redisReply = ReplyArray "string list" | ReplyOther

text \<open>
  One element of the reply. Storing an object under an id that is already taken
  releases the object stored there before.
\<close>

definition add_remote_peer :: "PeerInfo \<Rightarrow> SingleInfoHashInfo \<Rightarrow> SingleInfoHashInfo" where
  "add_remote_peer p info =
     (let key = base64_peer_id p; obj = next_obj info;
          objs = (case lookup (peer_map info) key of
                    None \<Rightarrow> peer_objs info | Some old \<Rightarrow> AList.delete old (peer_objs info));
          info = info\<lparr>peer_map := AList.update key obj (peer_map info),
                      peer_objs := AList.update obj p objs, next_obj := Suc obj,
                      peer_vec := peer_vec info @ [obj]\<rparr>
      in if IsASeed p then info\<lparr>peer_seed_vec := peer_seed_vec info @ [obj]\<rparr> else info)"

fun read_reply ::
  "(string \<Rightarrow> string) \<Rightarrow> (string \<Rightarrow> string option) \<Rightarrow> (string \<Rightarrow> StoredPeerInfo option) \<Rightarrow>
   string list \<Rightarrow> SingleInfoHashInfo \<Rightarrow> SingleInfoHashInfo" where
  "read_reply b64e b64d thrift_parse [] info = info"
| "read_reply b64e b64d thrift_parse (value_string # rest) info =
     (case Base64Decode b64d value_string of
        None \<Rightarrow> read_reply b64e b64d thrift_parse rest info
      | Some decode_string \<Rightarrow>
          (case ConstructPeerInfoByString b64e thrift_parse decode_string of
             None \<Rightarrow> read_reply b64e b64d thrift_parse rest info
           | Some p \<Rightarrow> read_reply b64e b64d thrift_parse rest (add_remote_peer p info)))"

definition UpdateInfoHashMapByReply ::
  "(string \<Rightarrow> string) \<Rightarrow> (string \<Rightarrow> string option) \<Rightarrow> (string \<Rightarrow> StoredPeerInfo option) \<Rightarrow>
   u64 \<Rightarrow> string \<Rightarrow> redisReply option \<Rightarrow> (string, SingleInfoHashInfo) assoc \<Rightarrow>
   (string, SingleInfoHashInfo) assoc" where
  "UpdateInfoHashMapByReply b64e b64d thrift_parse now key reply m =
     (case reply of
        Some (ReplyArray elements) \<Rightarrow>
          AList.update key (read_reply b64e b64d thrift_parse elements (SingleInfoHashInfo_new now)) m
      | _ \<Rightarrow> m)"

lemma add_remote_peer_inv:
  assumes inv: "info_inv info"
  shows "info_inv (add_remote_peer p info)"
proof -
  let ?key = "base64_peer_id p" and ?n = "next_obj info"
  let ?objs = "case lookup (peer_map info) ?key of None \<Rightarrow> peer_objs info
    | Some old \<Rightarrow> AList.delete old (peer_objs info)"
  have s: "store_ok (map_of (peer_map info)) (map_of (peer_objs info)) ?n"
    and d: "distinct (map fst (peer_map info))" "distinct (map fst (peer_objs info))"
    using inv by (simp_all add: info_inv_def objs_ok_def)
  have "store_ok ((map_of (peer_map info))(?key := None)) (map_of ?objs) ?n"
  proof (cases "lookup (peer_map info) ?key")
    case None
    then have "(map_of (peer_map info))(?key := None) = map_of (peer_map info)" by auto
    then show ?thesis using s None by simp
  next
    case (Some old)
    then show ?thesis using store_ok_delete [OF s Some] by simp
  qed
  then have "store_ok ((map_of (peer_map info))(?key \<mapsto> ?n)) ((map_of ?objs)(?n \<mapsto> p)) (Suc ?n)"
    using store_ok_insert [of "(map_of (peer_map info))(?key := None)" "map_of ?objs" ?n ?key p] by simp
  moreover have "distinct (map fst ?objs)" using d by (simp split: option.splits)
  ultimately show ?thesis
    using inv d idc_ok_mono [of ?n _ "Suc ?n"] vec_ok_mono [of ?n _ "Suc ?n"] vec_ok_snoc
    unfolding info_inv_def objs_ok_def add_remote_peer_def Let_def by simp
qed

lemma read_reply_inv: "info_inv info \<Longrightarrow> info_inv (read_reply b64e b64d pa vs info)"
  by (induction b64e b64d pa vs info rule: read_reply.induct)
    (auto intro: add_remote_peer_inv split: option.splits)

lemma UpdateInfoHashMapByReply_inv:
  "map_inv m \<Longrightarrow> map_inv (UpdateInfoHashMapByReply b64e b64d pa now key reply m)"
  by (auto simp: UpdateInfoHashMapByReply_def map_inv_put read_reply_inv split: option.splits redisReply.splits)

subsection \<open>The syncroniser's loop\<close>

text \<open>
  The scan of the queue: it marks at most \<open>info_hash_num\<close> entries that are not being
  queried and returns how many it could still have taken, the queue and the entries
  taken.
\<close>

fun sync_scan ::
  "nat \<Rightarrow> (string, bool) assoc \<Rightarrow> nat \<times> (string, bool) assoc \<times> string list" where
  "sync_scan num [] = (num, [], [])"
| "sync_scan num ((k, querying) # q) =
     (if num = 0 then (0, (k, querying) # q, [])
      else if querying then
        (let (n, q', ks) = sync_scan num q in (n, (k, querying) # q', ks))
      else
        (let (n, q', ks) = sync_scan (num - 1) q in (n, (k, True) # q', k # ks)))"

text \<open>Where the thread is: waiting for work, asking Redis, about to erase what it asked.\<close>

datatype sync_pc = Waiting | Querying "string list" "string list"

text \<open>
  The first critical section, entered with \<open>have_query\<close> up. When fewer than the
  maximum were found the flag is lowered and the loop starts again, with
  \<open>remote_setdiff\<close> cleared.
\<close>

definition sync_take :: "nat \<Rightarrow> PeerHandler \<Rightarrow> PeerHandler \<times> sync_pc" where
  "sync_take max_handle h =
     (let (n, q, ks) = sync_scan max_handle (query_map h)
      in if n > 0 then (h\<lparr>query_map := q, have_query := False\<rparr>, Waiting)
         else (h\<lparr>query_map := q\<rparr>, Querying ks ks))"

definition MAX_HANDLE_INFO_HASHS :: nat where
  "MAX_HANDLE_INFO_HASHS = 1"

definition sync_erase :: "string list \<Rightarrow> PeerHandler \<Rightarrow> PeerHandler" where
  "sync_erase ks h = h\<lparr>query_map := fold AList.delete ks (query_map h)\<rparr>"

text \<open>The interleaved system; Redis may answer anything, the clock may read anything.\<close>

inductive tracker_step ::
  "(string \<Rightarrow> string) \<Rightarrow> (string \<Rightarrow> string option) \<Rightarrow> (string \<Rightarrow> StoredPeerInfo option) \<Rightarrow>
   (StoredPeerInfo \<Rightarrow> string) \<Rightarrow> PeerHandler \<times> sync_pc \<Rightarrow> PeerHandler \<times> sync_pc \<Rightarrow> bool"
  for b64e b64d thrift_parse thrift_write where
  announce: "wf_input b64e input \<Longrightarrow> Handle b64e thrift_write now input h a = (ret, h', a') \<Longrightarrow>
    tracker_step b64e b64d thrift_parse thrift_write (h, pc) (h', pc)"
| control: "ControlByInfohash now k type h = (ec, h') \<Longrightarrow>
    tracker_step b64e b64d thrift_parse thrift_write (h, pc) (h', pc)"
| clean: "tracker_step b64e b64d thrift_parse thrift_write (h, pc) (PeriodSchedule e now h, pc)"
| take_query: "have_query h \<Longrightarrow> sync_take MAX_HANDLE_INFO_HASHS h = (h', pc') \<Longrightarrow>
    tracker_step b64e b64d thrift_parse thrift_write (h, Waiting) (h', pc')"
| ask_redis: "tracker_step b64e b64d thrift_parse thrift_write (h, Querying (k # todo) all)
    (h\<lparr>remote_map := UpdateInfoHashMapByReply b64e b64d thrift_parse now k reply (remote_map h)\<rparr>,
     Querying todo all)"
| erase_queries: "tracker_step b64e b64d thrift_parse thrift_write (h, Querying [] all)
    (sync_erase all h, Waiting)"

inductive_cases tracker_stepE: "tracker_step b64e b64d pa w s t"

text \<open>
  The invariant: the handler's own, and every entry marked as being queried is one
  the syncroniser holds, so no query is ever lost.
\<close>

fun in_flight :: "sync_pc \<Rightarrow> string set" where
  "in_flight Waiting = {}"
| "in_flight (Querying todo all) = set all"

definition tracker_inv :: "PeerHandler \<times> sync_pc \<Rightarrow> bool" where
  "tracker_inv s \<longleftrightarrow> handler_inv (fst s) \<and>
     (\<forall>k. lookup (query_map (fst s)) k = Some True \<longrightarrow> k \<in> in_flight (snd s))"

subsection \<open>The queue under announces\<close>

lemma UpdatePeer_queue:
  assumes "UpdatePeer b64e w now input h rs = (ret, h', rs')"
  shows "query_map h' = query_map h \<and> have_query h' = have_query h"
proof -
  obtain info1 h1 where pre1: "PreHandleInfoHashInfo now input h = (info1, h1)" by force
  obtain info2 oi new es where pre2: "PreHandlePeerInfo input info1 = (info2, oi, new, es)"
    by (metis prod_cases4)
  show ?thesis
    using assms pre1 pre2 PreHandleInfoHashInfo_eqs(3) [OF pre1]
    by (auto simp: UpdatePeer_def Let_def split: option.splits if_splits prod.splits)
qed

lemma AddNeedInfoHash_query_map:
  "query_map (AddNeedInfoHash input h) =
     (case lookup (query_map h) (base64_info_hash input) of
        None \<Rightarrow> AList.update (base64_info_hash input) False (query_map h) | Some _ \<Rightarrow> query_map h)"
  by (simp add: AddNeedInfoHash_def Let_def split: option.splits)

lemma ChoosePeers_queue:
  assumes ch: "ChoosePeers input h a = (h', a')"
  shows "query_map h' = query_map h \<or> query_map h' = query_map (AddNeedInfoHash input h)"
proof -
  let ?key = "base64_info_hash input"
  obtain h1 b where hb: "(case lookup (local_map h) ?key of None \<Rightarrow> (h, a\<lparr>an_out := []\<rparr>)
    | Some info \<Rightarrow> let (info, c) = ChooseLocal input info (a\<lparr>an_out := []\<rparr>)
        in (put_local ?key info h, c)) = (h1, b)"
    by force
  have q1: "query_map h1 = query_map h" using hb by (auto split: option.splits prod.splits)
  then have q2: "query_map (AddNeedInfoHash input h1) = query_map (AddNeedInfoHash input h)"
    by (simp only: AddNeedInfoHash_query_map)
  have st: "(if IsASeed input \<or> (length (an_out b) > 0 \<and> an_seed b) then (h1, b)
      else case lookup (remote_map (AddNeedInfoHash input h1)) ?key of
        None \<Rightarrow> (AddNeedInfoHash input h1, b)
      | Some info \<Rightarrow> (case ChooseRemote input info b of (info, c) \<Rightarrow>
          (AddNeedInfoHash input h1\<lparr>remote_map := AList.update ?key info
             (remote_map (AddNeedInfoHash input h1))\<rparr>, c))) = (h', a')"
    using ch by (simp only: ChoosePeers_def Let_def hb [unfolded Let_def] prod.case)
  have "query_map h' = query_map h1 \<or> query_map h' = query_map (AddNeedInfoHash input h1)"
  proof (cases "IsASeed input \<or> (length (an_out b) > 0 \<and> an_seed b)")
    case True
    then have "h' = h1" using st by (simp only: if_True prod.inject)
    then show ?thesis by simp
  next
    case False
    let ?r = "case lookup (remote_map (AddNeedInfoHash input h1)) ?key of
        None \<Rightarrow> (AddNeedInfoHash input h1, b)
      | Some info \<Rightarrow> (case ChooseRemote input info b of (info, c) \<Rightarrow>
          (AddNeedInfoHash input h1\<lparr>remote_map := AList.update ?key info
             (remote_map (AddNeedInfoHash input h1))\<rparr>, c))"
    have "?r = (h', a')" using st by (simp only: False if_False)
    then have "h' = fst ?r" by (simp only: fst_conv)
    moreover have "query_map (fst ?r) = query_map (AddNeedInfoHash input h1)"
      by (simp split: option.split prod.split)
    ultimately have "query_map h' = query_map (AddNeedInfoHash input h1)" by (simp only:)
    then show ?thesis by simp
  qed
  then show ?thesis using q1 q2 by auto
qed

lemma AddNeedInfoHash_no_true:
  "lookup (query_map (AddNeedInfoHash input h)) k = Some True \<Longrightarrow> lookup (query_map h) k = Some True"
  by (auto simp: AddNeedInfoHash_def Let_def simp del: map_of_eq_Some_iff split: option.splits if_splits)

lemma Handle_no_true:
  assumes "Handle b64e w now input h a = (ret, h', a')" and "lookup (query_map h') k = Some True"
  shows "lookup (query_map h) k = Some True"
proof -
  obtain r h1 rs where up: "UpdatePeer b64e w now input h (an_rs a) = (r, h1, rs)" by (metis prod_cases3)
  have q1: "query_map h1 = query_map h" "have_query h1 = have_query h" using UpdatePeer_queue [OF up] by auto
  obtain h2 a2 where ch: "ChoosePeers input h1 (a\<lparr>an_rs := rs\<rparr>) = (h2, a2)" by force
  have "h' = h1 \<or> h' = h2" using assms(1) up ch by (auto simp: Handle_def Let_def split: if_splits)
  then show ?thesis
    using assms(2) q1 ChoosePeers_queue [OF ch] AddNeedInfoHash_no_true [of input h1 k] by metis
qed

lemma queue_frames:
  "query_map (PeriodSchedule e now h) = query_map h"
  "ControlByInfohash now k type h = (ec, h') \<Longrightarrow> query_map h' = query_map h"
  by (auto simp: PeriodSchedule_def ControlByInfohash_def Let_def split: option.splits if_splits)

subsection \<open>The scan with a maximum of one\<close>

lemma sync_scan_zero [simp]: "sync_scan 0 q = (0, q, [])"
  by (cases q) auto

lemma sync_scan_keys [simp]: "map fst (fst (snd (sync_scan n q))) = map fst q"
  by (induction n q rule: sync_scan.induct) (auto simp: case_prod_beta Let_def)

lemma sync_scan_one:
  assumes "distinct (map fst q)"
  shows "(sync_scan 1 q = (1, q, []) \<and> (\<forall>k. lookup q k \<noteq> Some False)) \<or>
    (\<exists>k q'. sync_scan 1 q = (0, q', [k]) \<and> lookup q k = Some False \<and> map_of q' = (map_of q)(k \<mapsto> True))"
  using assms
proof (induction q)
  case Nil
  then show ?case by simp
next
  case (Cons e q)
  obtain k b where e: "e = (k, b)" by (cases e)
  show ?case
  proof (cases b)
    case False
    then show ?thesis using e by (intro disjI2 exI [of _ k]) auto
  next
    case True
    have "lookup q k = None" using Cons.prems e by (auto simp: map_of_eq_None_iff)
    moreover have "distinct (map fst q)" using Cons.prems by simp
    ultimately consider "sync_scan 1 q = (1, q, [])" "\<forall>k. lookup q k \<noteq> Some False"
      | j q' where "sync_scan 1 q = (0, q', [j])" "lookup q j = Some False"
          "map_of q' = (map_of q)(j \<mapsto> True)" "j \<noteq> k"
      using Cons.IH by (metis option.distinct(1))
    then show ?thesis
    proof cases
      case 1
      then show ?thesis using True e by (auto simp del: map_of_eq_Some_iff)
    next
      case (2 j q')
      then show ?thesis using True e by (intro disjI2 exI [of _ j]) (auto simp: fun_upd_twist)
    qed
  qed
qed

subsection \<open>The invariant of the system\<close>

lemma sync_take_cases:
  assumes "distinct (map fst (query_map h))" and "sync_take MAX_HANDLE_INFO_HASHS h = (h', pc')"
  shows "(pc' = Waiting \<and> h' = h\<lparr>have_query := False\<rparr> \<and> (\<forall>k. lookup (query_map h) k \<noteq> Some False)) \<or>
    (\<exists>k q'. pc' = Querying [k] [k] \<and> h' = h\<lparr>query_map := q'\<rparr> \<and> lookup (query_map h) k = Some False \<and>
       map_of q' = (map_of (query_map h))(k \<mapsto> True) \<and> map fst q' = map fst (query_map h))"
  using sync_scan_one [OF assms(1)]
proof (elim disjE exE conjE)
  assume "sync_scan 1 (query_map h) = (1, query_map h, [])" "\<forall>k. lookup (query_map h) k \<noteq> Some False"
  then show ?thesis
    using assms(2) by (intro disjI1) (auto simp: sync_take_def MAX_HANDLE_INFO_HASHS_def)
next
  fix k q'
  assume s: "sync_scan 1 (query_map h) = (0, q', [k])" and k: "lookup (query_map h) k = Some False"
    and q: "map_of q' = (map_of (query_map h))(k \<mapsto> True)"
  have "map fst q' = map fst (query_map h)" using sync_scan_keys [of 1 "query_map h"] unfolding s by simp
  then show ?thesis
    using assms(2) s k q
    by (intro disjI2 exI [of _ k] exI [of _ q']) (auto simp: sync_take_def MAX_HANDLE_INFO_HASHS_def)
qed

definition tracker_init :: "PeerHandler \<times> sync_pc \<Rightarrow> bool" where
  "tracker_init s \<longleftrightarrow> (\<exists>expire. s = (PeerHandler_new expire, Waiting))"

lemma tracker_inv_init: "tracker_init s \<Longrightarrow> tracker_inv s"
  by (auto simp: tracker_init_def tracker_inv_def handler_inv_new) (simp add: PeerHandler_new_def)

lemma tracker_inv_take:
  assumes inv: "tracker_inv (h, Waiting)" and tk: "sync_take MAX_HANDLE_INFO_HASHS h = (h', pc')"
    and hq: "have_query h"
  shows "tracker_inv (h', pc')"
proof -
  have q: "queue_inv h" and m: "map_inv (local_map h)" "map_inv (remote_map h)"
    and nt: "\<And>k. lookup (query_map h) k \<noteq> Some True"
    using inv by (auto simp: tracker_inv_def handler_inv_def simp del: map_of_eq_Some_iff)
  have d: "distinct (map fst (query_map h))" using q by (simp add: queue_inv_def)
  from sync_take_cases [OF d tk] show ?thesis
  proof (elim disjE exE conjE)
    assume "pc' = Waiting" "h' = h\<lparr>have_query := False\<rparr>" "\<forall>k. lookup (query_map h) k \<noteq> Some False"
    then show ?thesis
      using m nt d by (simp add: tracker_inv_def handler_inv_def queue_inv_def del: map_of_eq_Some_iff)
  next
    fix k q'
    assume "pc' = Querying [k] [k]" "h' = h\<lparr>query_map := q'\<rparr>" "lookup (query_map h) k = Some False"
      "map_of q' = (map_of (query_map h))(k \<mapsto> True)" "map fst q' = map fst (query_map h)"
    then show ?thesis
      using m nt d hq by (auto simp add: tracker_inv_def handler_inv_def queue_inv_def
          simp del: map_of_eq_Some_iff)
  qed
qed

lemma tracker_inv_step:
  assumes inv: "tracker_inv s" and st: "tracker_step b64e b64d pa w s t"
  shows "tracker_inv t"
  using st inv
proof (cases rule: tracker_step.cases)
  case (announce input now h a ret h' a' pc)
  then show ?thesis
    using inv Handle_inv Handle_no_true unfolding tracker_inv_def by (metis fst_conv snd_conv)
next
  case (control now k type h ec h' pc)
  then show ?thesis
    using inv ControlByInfohash_inv queue_frames(2) unfolding tracker_inv_def by (metis fst_conv snd_conv)
next
  case (clean h pc e now)
  then show ?thesis
    using inv PeriodSchedule_inv queue_frames(1) unfolding tracker_inv_def by (metis fst_conv snd_conv)
next
  case (take_query h h' pc')
  then show ?thesis using inv tracker_inv_take by blast
next
  case (ask_redis h k todo all now reply)
  then show ?thesis
    using inv UpdateInfoHashMapByReply_inv by (simp add: tracker_inv_def handler_inv_def)
next
  case (erase_queries h all)
  have "lookup (query_map (sync_erase all h)) k \<noteq> Some True" for k
    using inv erase_queries by (auto simp: tracker_inv_def sync_erase_def lookup_fold_delete
        simp del: map_of_eq_Some_iff)
  moreover have "queue_inv (sync_erase all h)"
    using inv erase_queries by (auto simp: tracker_inv_def handler_inv_def queue_inv_def sync_erase_def
        lookup_fold_delete simp del: map_of_eq_Some_iff)
  ultimately show ?thesis
    using inv erase_queries by (simp add: tracker_inv_def handler_inv_def sync_erase_def)
qed

interpretation tracker: invariant_system tracker_init "tracker_step b64e b64d pa w" tracker_inv
  for b64e b64d pa w
  by unfold_locales (blast intro: tracker_inv_init tracker_inv_step)+

text \<open>C3: in every state the tracker's threads can reach, in any interleaving and with any
  answers of Redis, each info hash is consistent: the objects alive are those on file,
  an initialised peer is filed under its own id, no vector lists an object twice or an
  object that could be confused with a later one; and no query is lost: an entry still
  to be asked keeps the wake-up flag up, an entry marked as being asked is in flight.\<close>

theorem tracker_reachable:
  assumes "reach tracker_init (tracker_step b64e b64d pa w) (h, pc)"
  shows "(\<forall>k info. lookup (local_map h) k = Some info \<or> lookup (remote_map h) k = Some info \<longrightarrow>
      info_inv info) \<and>
    (\<forall>k. lookup (query_map h) k = Some False \<longrightarrow> have_query h) \<and>
    (\<forall>k. lookup (query_map h) k = Some True \<longrightarrow> k \<in> in_flight pc)"
  using tracker.reach_inv [OF assms]
  unfolding tracker_inv_def handler_inv_def map_inv_def queue_inv_def by auto

lemma tracker_reachable_witness:
  "\<exists>info. lookup (local_map seeded) ''h=='' = Some info \<and> info_inv info"
proof -
  have i: "reach tracker_init (tracker_step (\<lambda>x. x) Some (\<lambda>_. None) (\<lambda>_. ''rec'')) (PeerHandler_new 60, Waiting)"
    by (rule reach_init) (auto simp: tracker_init_def)
  obtain ret a where "announce_run (peer_of ''h'' ''a'' SEEDING True 0) (PeerHandler_new 60) = (ret, seeded, a)"
    unfolding seeded_def by (metis prod.collapse)
  then have "tracker_step (\<lambda>x. x) Some (\<lambda>_. None) (\<lambda>_. ''rec'') (PeerHandler_new 60, Waiting) (seeded, Waiting)"
    unfolding announce_run_def by (rule tracker_step.announce [OF peer_of_wf])
  then have r: "reach tracker_init (tracker_step (\<lambda>x. x) Some (\<lambda>_. None) (\<lambda>_. ''rec'')) (seeded, Waiting)"
    by (rule reach_step [OF i])
  have "lookup (local_map seeded) ''h=='' \<noteq> None" by code_simp
  then show ?thesis using tracker_reachable [OF r] by (auto simp del: map_of_eq_Some_iff)
qed

subsection \<open>A round of the syncroniser\<close>

text \<open>One whole round on the entry taken: ask, store the reply, erase.\<close>

definition sync_round ::
  "(string \<Rightarrow> string) \<Rightarrow> (string \<Rightarrow> string option) \<Rightarrow> (string \<Rightarrow> StoredPeerInfo option) \<Rightarrow> u64 \<Rightarrow>
   redisReply option \<Rightarrow> string \<Rightarrow> PeerHandler \<Rightarrow> PeerHandler" where
  "sync_round b64e b64d pa now reply k h =
     sync_erase [k] (h\<lparr>remote_map :=
       UpdateInfoHashMapByReply b64e b64d pa now k reply (remote_map h)\<rparr>)"

text \<open>C10: queries are served. While the syncroniser waits and some info hash is still to be
  asked, its next section takes one such info hash; the round on it removes exactly
  that entry from the queue and, when Redis answers with an array, installs the peers
  read from it. So as many rounds as there are entries empty the queue.\<close>

theorem sync_serves_pending:
  assumes inv: "tracker_inv (h, Waiting)" and p: "lookup (query_map h) j = Some False"
  shows "have_query h \<and>
    (\<exists>k h'. sync_take MAX_HANDLE_INFO_HASHS h = (h', Querying [k] [k]) \<and>
       lookup (query_map h) k = Some False \<and>
       (let h2 = sync_round b64e b64d pa now (Some (ReplyArray vs)) k h' in
        map_of (query_map h2) = (map_of (query_map h))(k := None) \<and>
        Suc (length (query_map h2)) = length (query_map h) \<and>
        lookup (remote_map h2) k = Some (read_reply b64e b64d pa vs (SingleInfoHashInfo_new now)) \<and>
        tracker_inv (h2, Waiting)))"
proof -
  have q: "queue_inv h" using inv by (simp add: tracker_inv_def handler_inv_def)
  then have hq: "have_query h" and d: "distinct (map fst (query_map h))"
    using p unfolding queue_inv_def by blast+
  obtain h' pc' where tk: "sync_take MAX_HANDLE_INFO_HASHS h = (h', pc')" by force
  from sync_take_cases [OF d tk] p obtain k q' where
    k: "pc' = Querying [k] [k]" "h' = h\<lparr>query_map := q'\<rparr>" "lookup (query_map h) k = Some False"
      "map_of q' = (map_of (query_map h))(k \<mapsto> True)" "map fst q' = map fst (query_map h)" by blast
  let ?h2 = "sync_round b64e b64d pa now (Some (ReplyArray vs)) k h'"
  have qm: "query_map ?h2 = AList.delete k q'" using k by (simp add: sync_round_def sync_erase_def)
  have "map_of (query_map ?h2) = (map_of (query_map h))(k := None)" unfolding qm using k(4) by simp
  moreover have "Suc (length (query_map ?h2)) = length (query_map h)"
  proof -
    have dq: "distinct (map fst q')" using d k(5) by simp
    have mem: "k \<in> set (map fst q')"
      unfolding k(5) using k(3) by (metis map_of_eq_None_iff option.distinct(1) set_map)
    have "map fst (AList.delete k q') = removeAll k (map fst q')" by (simp add: delete_keys)
    then have "length (AList.delete k q') = length (remove1 k (map fst q'))"
      using dq by (metis distinct_remove1_removeAll length_map)
    then show ?thesis unfolding qm using mem k(5)
      by (metis One_nat_def Suc_pred length_map length_pos_if_in_set length_remove1)
  qed
  moreover have "lookup (remote_map ?h2) k = Some (read_reply b64e b64d pa vs (SingleInfoHashInfo_new now))"
    by (simp add: sync_round_def sync_erase_def UpdateInfoHashMapByReply_def)
  moreover have "tracker_inv (?h2, Waiting)"
  proof -
    have "tracker_inv (h', Querying [k] [k])" using tracker_inv_take [OF inv tk hq] k by simp
    then have "tracker_inv (h'\<lparr>remote_map := UpdateInfoHashMapByReply b64e b64d pa now k
        (Some (ReplyArray vs)) (remote_map h')\<rparr>, Querying [] [k])"
      by (rule tracker_inv_step) (rule tracker_step.ask_redis)
    then show ?thesis unfolding sync_round_def
      by (rule tracker_inv_step) (rule tracker_step.erase_queries)
  qed
  ultimately show ?thesis using hq tk k by (auto simp: Let_def simp del: map_of_eq_Some_iff)
qed

text \<open>The loop depends on the maximum being one: with two, a lone entry is marked and dropped.\<close>

lemma sync_take_two_loses:
  "sync_take 2 ((PeerHandler_new 60)\<lparr>query_map := [(''h'', False)], have_query := True\<rparr>) =
     ((PeerHandler_new 60)\<lparr>query_map := [(''h'', True)]\<rparr>, Waiting)"
  by (simp add: sync_take_def PeerHandler_new_def)

definition asked :: PeerHandler where
  "asked = (PeerHandler_new 60)\<lparr>query_map := [(''g'', False), (''h'', False)], have_query := True\<rparr>"

lemma sync_serves_pending_witness:
  "\<exists>k h'. sync_take MAX_HANDLE_INFO_HASHS asked = (h', Querying [k] [k]) \<and>
     length (query_map (sync_round (\<lambda>x. x) Some (\<lambda>_. None) 5 (Some (ReplyArray [])) k h')) = 1"
proof -
  have "tracker_inv (asked, Waiting)"
    by (simp add: tracker_inv_def asked_def handler_inv_def map_inv_def queue_inv_def PeerHandler_new_def)
  moreover have "lookup (query_map asked) ''h'' = Some False" by (simp add: asked_def)
  moreover have "length (query_map asked) = 2" by (simp add: asked_def)
  ultimately show ?thesis
    using sync_serves_pending [of asked "''h''" "\<lambda>x. x" Some "\<lambda>_. None" 5 "[]"]
    by (auto simp: Let_def simp del: map_of_eq_Some_iff)
qed

subsection \<open>From one tracker to another\<close>

text \<open>C14: what one tracker publishes another reads back: the value of the \<open>hset\<close> command for a
  peer, returned by Redis for the info hash, becomes a remote peer with the same
  record, a seed again when it was one. Thrift's reader is assumed to invert its writer
  and Boost's base64 decoder its encoder.\<close>

theorem published_peer_read_back:
  assumes b: "b64_law b64e b64d" and t: "thrift_parse (thrift_write (thrift_peer p)) = Some (thrift_peer p)"
    and pub: "SetPeerRemote b64e thrift_write expire p = Inr es"
  shows "\<exists>value info q. hd es = Pipeline (base64_info_hash p) (SetHashOneItemInfo
        (ConstructInfoHashKey (base64_info_hash p)) (ConstructPeerKey (base64_peer_id p)) value) \<and>
    lookup (UpdateInfoHashMapByReply b64e b64d thrift_parse now k (Some (ReplyArray [value])) m) k = Some info \<and>
    peer_vec info = [0] \<and> lookup (peer_objs info) 0 = Some q \<and> thrift_peer q = thrift_peer p \<and>
    (0 \<in> set (peer_seed_vec info) \<longleftrightarrow> IsASeed p)"
proof -
  obtain e where e: "Base64Encode b64e (thrift_write (thrift_peer p)) = Some e"
      "Base64Decode b64d e = Some (thrift_write (thrift_peer p))"
    using Base64_roundtrip [OF b] by blast
  obtain q where q: "ConstructPeerInfoByString b64e thrift_parse (thrift_write (thrift_peer p)) = Some q"
      "thrift_peer q = thrift_peer p"
    using t by (auto simp: ConstructPeerInfoByString_def)
  have "hd es = Pipeline (base64_info_hash p) (SetHashOneItemInfo
        (ConstructInfoHashKey (base64_info_hash p)) (ConstructPeerKey (base64_peer_id p)) e)"
    using pub e by (auto simp: SetPeerRemote_def ConstructStringByPeerInfo_def Let_def)
  moreover have "lookup (UpdateInfoHashMapByReply b64e b64d thrift_parse now k (Some (ReplyArray [e])) m) k =
      Some (add_remote_peer q (SingleInfoHashInfo_new now))"
    using e q by (simp add: UpdateInfoHashMapByReply_def)
  ultimately show ?thesis
    using q by (intro exI [of _ e] exI [of _ "add_remote_peer q (SingleInfoHashInfo_new now)"] exI [of _ q])
      (auto simp: add_remote_peer_def SingleInfoHashInfo_new_def Let_def IsASeed_def)
qed

lemma published_peer_read_back_witness:
  "\<exists>value info q. lookup (UpdateInfoHashMapByReply BytesToHex HexstrToBytes (\<lambda>_. Some (thrift_peer joiner))
       5 ''k'' (Some (ReplyArray [value])) []) ''k'' = Some info \<and> lookup (peer_objs info) 0 = Some q \<and>
     thrift_peer q = thrift_peer joiner"
proof -
  let ?es = "projr (SetPeerRemote BytesToHex (\<lambda>_. ''rec'') 60 joiner)"
  have "isl (SetPeerRemote BytesToHex (\<lambda>_. ''rec'') 60 joiner) = False" by code_simp
  then have "SetPeerRemote BytesToHex (\<lambda>_. ''rec'') 60 joiner = Inr ?es"
    by (metis sum.collapse(2))
  then show ?thesis
    using published_peer_read_back [OF hex_is_b64, of "\<lambda>_. Some (thrift_peer joiner)" "\<lambda>_. ''rec''" joiner]
    by blast
qed

text \<open>
  What the missing negation of \<open>ConstructPeerInfoByString\<close> does: a remote peer is filed
  under its raw id, so the test that keeps an asking peer out of its own answer does
  not recognise it.
\<close>

lemma remote_self_returned:
  "(let (_, h1, _) = announce_run joiner (PeerHandler_new 60);
        h2 = h1\<lparr>remote_map := UpdateInfoHashMapByReply (\<lambda>x. x) Some (\<lambda>_. Some (thrift_peer joiner))
               5 (base64_info_hash joiner) (Some (ReplyArray [''rec''])) (remote_map h1)\<rparr>;
        (_, _, ans) = announce_run joiner h2
    in ids_of (an_out ans)) = [sp_peer_id (thrift_peer joiner)]"
  by code_simp

end
