(* ===== verification/StatusManager.thy ===== *)
theory StatusManager
  imports Prelude Complex_Main
begin

text \<open>
  The tracker's monitoring items, \<open>gko-tracker-src/src/StatusManager.cpp\<close> and
  \<open>include/bbts/StatusManager.h\<close>. Counters are \<open>int64_t\<close>, modelled as 64-bit words;
  \<open>double\<close> values are real numbers (rounding is not modelled); \<open>time_t\<close> is an integer.
  The per-item and map locks make every operation atomic.
\<close>

subsection \<open>Items\<close>

datatype ItemType = STRING_ITEM | NUM_ITEM | COUNTING_ITEM | LATENCY_ITEM

record CountingItem =
  ci_per_second :: u64
  ci_per_cycle :: u64
  ci_total :: u64
  ci_accumulated :: u64

record LatencyItem =
  li_per_second :: u64
  li_per_cycle :: u64
  li_total :: u64
  li_max :: real
  li_average :: real
  li_min :: real
  li_accumulated :: u64
  li_latency :: real
  li_max_latency :: real
  li_min_latency :: real

text \<open>\<open>StringItem\<close> and \<open>NumItem\<close> carry the value and the time of its last update.\<close>

datatype Item = StringItem string int | NumItem real int | Counting CountingItem | Latency LatencyItem

fun item_type :: "Item \<Rightarrow> ItemType" where
  "item_type (StringItem v t) = STRING_ITEM"
| "item_type (NumItem v t) = NUM_ITEM"
| "item_type (Counting c) = COUNTING_ITEM"
| "item_type (Latency l) = LATENCY_ITEM"

fun new_item :: "ItemType \<Rightarrow> Item" where
  "new_item STRING_ITEM = StringItem [] 0"
| "new_item NUM_ITEM = NumItem 0 0"
| "new_item COUNTING_ITEM =
     Counting \<lparr>ci_per_second = 0, ci_per_cycle = 0, ci_total = 0, ci_accumulated = 0\<rparr>"
| "new_item LATENCY_ITEM =
     Latency \<lparr>li_per_second = 0, li_per_cycle = 0, li_total = 0, li_max = 0, li_average = 0,
       li_min = 0, li_accumulated = 0, li_latency = 0, li_max_latency = 0, li_min_latency = 0\<rparr>"

text \<open>\<open>int64_t / int\<close> truncates towards zero.\<close>

definition sdiv64 :: "u64 \<Rightarrow> int \<Rightarrow> u64" where
  "sdiv64 a d = word_of_int (sint a sdiv d)"

definition IncreaseCounting :: "u64 \<Rightarrow> CountingItem \<Rightarrow> CountingItem" where
  "IncreaseCounting increasement c =
     c\<lparr>ci_accumulated := ci_accumulated c + increasement, ci_total := ci_total c + increasement\<rparr>"

definition CountingUpdate :: "int \<Rightarrow> CountingItem \<Rightarrow> CountingItem" where
  "CountingUpdate duration c =
     c\<lparr>ci_per_cycle := ci_accumulated c, ci_per_second := sdiv64 (ci_accumulated c) duration,
       ci_accumulated := 0\<rparr>"

definition InsertLatency :: "real \<Rightarrow> LatencyItem \<Rightarrow> LatencyItem" where
  "InsertLatency lat l =
     (let l = (if li_accumulated l = 0 then l\<lparr>li_max_latency := lat, li_min_latency := lat\<rparr>
               else let l = (if li_max_latency l < lat then l\<lparr>li_max_latency := lat\<rparr> else l)
                    in (if li_min_latency l > lat then l\<lparr>li_min_latency := lat\<rparr> else l))
      in l\<lparr>li_latency := li_latency l + lat, li_accumulated := li_accumulated l + 1,
           li_total := li_total l + 1\<rparr>)"

definition LatencyUpdate :: "int \<Rightarrow> LatencyItem \<Rightarrow> LatencyItem" where
  "LatencyUpdate duration l =
     (if li_accumulated l = 0 then l
      else l\<lparr>li_per_cycle := li_accumulated l, li_per_second := sdiv64 (li_accumulated l) duration,
             li_max := li_max_latency l, li_min := li_min_latency l,
             li_average := li_latency l / of_int (sint (li_accumulated l)),
             li_accumulated := 0, li_latency := 0\<rparr>)"

subsection \<open>The manager\<close>

record StatusManager =
  update_period :: int
  item_map :: "(string, Item) assoc"

definition StatusManager_new :: StatusManager where
  "StatusManager_new = \<lparr>update_period = 10, item_map = []\<rparr>"

definition RegisterItem :: "string \<Rightarrow> ItemType \<Rightarrow> StatusManager \<Rightarrow> bool \<times> StatusManager" where
  "RegisterItem name type m =
     (if lookup (item_map m) name \<noteq> None then (False, m)
      else (True, m\<lparr>item_map := AList.update name (new_item type) (item_map m)\<rparr>))"

definition UnregisterItem :: "string \<Rightarrow> StatusManager \<Rightarrow> bool \<times> StatusManager" where
  "UnregisterItem name m =
     (if lookup (item_map m) name = None then (False, m)
      else (True, m\<lparr>item_map := AList.delete name (item_map m)\<rparr>))"

text \<open>\<open>GetItem\<close>: the item under a key when it has the type asked for.\<close>

definition GetItem :: "ItemType \<Rightarrow> string \<Rightarrow> StatusManager \<Rightarrow> Item option" where
  "GetItem type key m =
     (case lookup (item_map m) key of
        None \<Rightarrow> None
      | Some item \<Rightarrow> if item_type item \<noteq> type then None else Some item)"

text \<open>An operation that changes the item: look it up with its type, then store the result.\<close>

definition change_item ::
  "ItemType \<Rightarrow> string \<Rightarrow> (Item \<Rightarrow> Item) \<Rightarrow> StatusManager \<Rightarrow> bool \<times> StatusManager" where
  "change_item type key f m =
     (case GetItem type key m of
        None \<Rightarrow> (False, m)
      | Some item \<Rightarrow> (True, m\<lparr>item_map := AList.update key (f item) (item_map m)\<rparr>))"

definition SetItemStatus_string :: "int \<Rightarrow> string \<Rightarrow> string \<Rightarrow> StatusManager \<Rightarrow> bool \<times> StatusManager" where
  "SetItemStatus_string now key value m = change_item STRING_ITEM key (\<lambda>_. StringItem value now) m"

definition SetItemStatus_num :: "int \<Rightarrow> string \<Rightarrow> real \<Rightarrow> StatusManager \<Rightarrow> bool \<times> StatusManager" where
  "SetItemStatus_num now key value m = change_item NUM_ITEM key (\<lambda>_. NumItem value now) m"

definition fresh :: "int \<Rightarrow> int \<Rightarrow> StatusManager \<Rightarrow> bool" where
  "fresh now stamp m \<longleftrightarrow> now - stamp < update_period m"

definition GetItemStatus_string :: "int \<Rightarrow> string \<Rightarrow> StatusManager \<Rightarrow> string option" where
  "GetItemStatus_string now key m =
     (case GetItem STRING_ITEM key m of
        Some (StringItem v t) \<Rightarrow> if fresh now t m then Some v else None
      | _ \<Rightarrow> None)"

definition GetItemStatus_num :: "int \<Rightarrow> string \<Rightarrow> StatusManager \<Rightarrow> real option" where
  "GetItemStatus_num now key m =
     (case GetItem NUM_ITEM key m of
        Some (NumItem v t) \<Rightarrow> if fresh now t m then Some v else None
      | _ \<Rightarrow> None)"

fun on_counting :: "(CountingItem \<Rightarrow> CountingItem) \<Rightarrow> Item \<Rightarrow> Item" where
  "on_counting f (Counting c) = Counting (f c)"
| "on_counting f item = item"

fun on_latency :: "(LatencyItem \<Rightarrow> LatencyItem) \<Rightarrow> Item \<Rightarrow> Item" where
  "on_latency f (Latency l) = Latency (f l)"
| "on_latency f item = item"

definition IncreaseItemCounting :: "string \<Rightarrow> u64 \<Rightarrow> StatusManager \<Rightarrow> bool \<times> StatusManager" where
  "IncreaseItemCounting key increasement m =
     (if sint increasement < 1 then (False, m)
      else change_item COUNTING_ITEM key (on_counting (IncreaseCounting increasement)) m)"

definition InsertItemLatency :: "string \<Rightarrow> real \<Rightarrow> StatusManager \<Rightarrow> bool \<times> StatusManager" where
  "InsertItemLatency key lat m = change_item LATENCY_ITEM key (on_latency (InsertLatency lat)) m"

definition GetAverageCountingPerSecond :: "string \<Rightarrow> StatusManager \<Rightarrow> u64 option" where
  "GetAverageCountingPerSecond key m =
     (case GetItem COUNTING_ITEM key m of Some (Counting c) \<Rightarrow> Some (ci_per_second c) | _ \<Rightarrow> None)"

definition GetTotalCountingPerCycle :: "string \<Rightarrow> StatusManager \<Rightarrow> u64 option" where
  "GetTotalCountingPerCycle key m =
     (case GetItem COUNTING_ITEM key m of Some (Counting c) \<Rightarrow> Some (ci_per_cycle c) | _ \<Rightarrow> None)"

definition GetAverageLatency :: "string \<Rightarrow> StatusManager \<Rightarrow> real option" where
  "GetAverageLatency key m =
     (case GetItem LATENCY_ITEM key m of Some (Latency l) \<Rightarrow> Some (li_average l) | _ \<Rightarrow> None)"

definition GetMaxLatency :: "string \<Rightarrow> StatusManager \<Rightarrow> real option" where
  "GetMaxLatency key m =
     (case GetItem LATENCY_ITEM key m of Some (Latency l) \<Rightarrow> Some (li_max l) | _ \<Rightarrow> None)"

definition GetMinLatency :: "string \<Rightarrow> StatusManager \<Rightarrow> real option" where
  "GetMinLatency key m =
     (case GetItem LATENCY_ITEM key m of Some (Latency l) \<Rightarrow> Some (li_min l) | _ \<Rightarrow> None)"

fun update_item :: "int \<Rightarrow> Item \<Rightarrow> Item" where
  "update_item duration (Counting c) = Counting (CountingUpdate duration c)"
| "update_item duration (Latency l) = Latency (LatencyUpdate duration l)"
| "update_item duration item = item"

definition UpdateItems :: "int \<Rightarrow> StatusManager \<Rightarrow> StatusManager" where
  "UpdateItems duration m = m\<lparr>item_map := map (\<lambda>(k, item). (k, update_item duration item)) (item_map m)\<rparr>"

text \<open>
  The background thread: a pass over the clock readings of its half-second loop;
  \<open>last\<close> is \<open>last_timestamp\<close>.
\<close>

fun UpdateData :: "int list \<Rightarrow> int \<Rightarrow> StatusManager \<Rightarrow> StatusManager" where
  "UpdateData [] last_timestamp m = m"
| "UpdateData (stamp # stamps) last_timestamp m =
     (if last_timestamp \<noteq> stamp \<and> stamp mod update_period m = 0
      then UpdateData stamps stamp (UpdateItems (update_period m) m)
      else UpdateData stamps last_timestamp m)"

subsection \<open>Lookups\<close>

lemma lookup_map_items:
  "lookup (map (\<lambda>(k, item). (k, f item)) m) k = map_option f (lookup m k)"
  by (induction m) auto

lemma item_type_update [simp]: "item_type (update_item d item) = item_type item"
  by (cases item) auto

lemma GetItem_UpdateItems:
  "GetItem type key (UpdateItems d m) = map_option (update_item d) (GetItem type key m)"
  by (simp add: GetItem_def UpdateItems_def lookup_map_items split: option.splits)

lemma GetItem_change_same:
  "GetItem type key m = Some item \<Longrightarrow> item_type (f item) = type \<Longrightarrow>
     GetItem type key (snd (change_item type key f m)) = Some (f item)"
  by (simp add: change_item_def GetItem_def del: map_of_eq_Some_iff)

lemma update_period_UpdateItems [simp]: "update_period (UpdateItems d m) = update_period m"
  by (simp add: UpdateItems_def)

lemma GetItem_type: "GetItem type key m = Some item \<Longrightarrow> item_type item = type"
  by (simp add: GetItem_def del: map_of_eq_Some_iff split: option.splits if_splits)

text \<open>A request on a key that is missing or of another type fails and changes nothing.\<close>

lemma wrong_type_fails:
  assumes "GetItem type key m = None"
  shows "change_item type key f m = (False, m)"
  using assms by (simp add: change_item_def)

lemma latency_has_no_counting_rate:
  assumes "GetItem LATENCY_ITEM key m = Some item"
  shows "GetAverageCountingPerSecond key m = None" "GetTotalCountingPerCycle key m = None"
  using assms by (auto simp: GetItem_def GetAverageCountingPerSecond_def GetTotalCountingPerCycle_def
      simp del: map_of_eq_Some_iff split: option.splits if_splits)

subsection \<open>Counting over a cycle\<close>

definition increase_all :: "string \<Rightarrow> u64 list \<Rightarrow> StatusManager \<Rightarrow> StatusManager" where
  "increase_all key ns m = fold (\<lambda>n m. snd (IncreaseItemCounting key n m)) ns m"

lemma increase_all_counts:
  assumes "GetItem COUNTING_ITEM key m = Some (Counting c)"
  shows "\<exists>c'. GetItem COUNTING_ITEM key (increase_all key ns m) = Some (Counting c') \<and>
    ci_accumulated c' = ci_accumulated c + sum_list (filter (\<lambda>n. 1 \<le> sint n) ns) \<and>
    ci_total c' = ci_total c + sum_list (filter (\<lambda>n. 1 \<le> sint n) ns)"
  using assms
proof (induction ns arbitrary: m c)
  case Nil
  then show ?case by (simp add: increase_all_def)
next
  case (Cons n ns)
  show ?case
  proof (cases "sint n < 1")
    case True
    then show ?thesis using Cons by (simp add: increase_all_def IncreaseItemCounting_def)
  next
    case False
    let ?m = "snd (IncreaseItemCounting key n m)"
    have "GetItem COUNTING_ITEM key ?m = Some (Counting (IncreaseCounting n c))"
      using False GetItem_change_same [OF Cons.prems, of "on_counting (IncreaseCounting n)"]
      by (simp add: IncreaseItemCounting_def)
    from Cons.IH [OF this] show ?thesis
      using False by (simp add: increase_all_def IncreaseCounting_def ac_simps)
  qed
qed

text \<open>What the monitor reports for a counter after a cycle is what was counted in that
  cycle: the sum of the accepted increments (those of at least 1) since the previous
  update, and that sum divided by the cycle's length; the total goes on growing.\<close>

theorem counting_cycle:
  assumes c: "GetItem COUNTING_ITEM key m = Some (Counting c)"
  shows "let total = sum_list (filter (\<lambda>n. 1 \<le> sint n) ns);
             m' = UpdateItems d (increase_all key ns (UpdateItems d m))
         in GetTotalCountingPerCycle key m' = Some total \<and>
            GetAverageCountingPerSecond key m' = Some (sdiv64 total d) \<and>
            (\<exists>c'. GetItem COUNTING_ITEM key m' = Some (Counting c') \<and> ci_total c' = ci_total c + total \<and>
                  ci_accumulated c' = 0)"
proof -
  have "GetItem COUNTING_ITEM key (UpdateItems d m) = Some (Counting (CountingUpdate d c))"
    using c by (simp add: GetItem_UpdateItems)
  from increase_all_counts [OF this, of ns] obtain c' where
    c': "GetItem COUNTING_ITEM key (increase_all key ns (UpdateItems d m)) = Some (Counting c')"
      "ci_accumulated c' = sum_list (filter (\<lambda>n. 1 \<le> sint n) ns)"
      "ci_total c' = ci_total c + sum_list (filter (\<lambda>n. 1 \<le> sint n) ns)"
    by (auto simp: CountingUpdate_def)
  then have "GetItem COUNTING_ITEM key (UpdateItems d (increase_all key ns (UpdateItems d m))) =
      Some (Counting (CountingUpdate d c'))"
    by (simp add: GetItem_UpdateItems)
  then show ?thesis
    using c' by (simp add: GetTotalCountingPerCycle_def GetAverageCountingPerSecond_def CountingUpdate_def Let_def)
qed

lemma counting_cycle_witness:
  "GetTotalCountingPerCycle ''request'' (UpdateItems 10 (increase_all ''request'' [25, 0, 17]
     (UpdateItems 10 (snd (RegisterItem ''request'' COUNTING_ITEM StatusManager_new))))) = Some 42"
proof -
  have "GetItem COUNTING_ITEM ''request'' (snd (RegisterItem ''request'' COUNTING_ITEM StatusManager_new)) =
      Some (Counting \<lparr>ci_per_second = 0, ci_per_cycle = 0, ci_total = 0, ci_accumulated = 0\<rparr>)"
    by (simp add: RegisterItem_def StatusManager_new_def GetItem_def)
  from counting_cycle [OF this, of "[25, 0, 17]" 10] show ?thesis by (simp add: Let_def)
qed

subsection \<open>Latencies over a cycle\<close>

definition insert_all :: "real list \<Rightarrow> LatencyItem \<Rightarrow> LatencyItem" where
  "insert_all xs l = fold InsertLatency xs l"

lemma insert_all_snoc: "insert_all (xs @ [x]) l = InsertLatency x (insert_all xs l)"
  by (simp add: insert_all_def)

lemma insert_all_stats:
  assumes z: "li_accumulated l = 0" "li_latency l = 0" and len: "length xs < 2 ^ 63"
  shows "li_accumulated (insert_all xs l) = of_nat (length xs) \<and>
    li_latency (insert_all xs l) = sum_list xs \<and>
    (xs \<noteq> [] \<longrightarrow> li_max_latency (insert_all xs l) = Max (set xs) \<and>
                li_min_latency (insert_all xs l) = Min (set xs))"
  using len
proof (induction xs rule: rev_induct)
  case Nil
  then show ?case using z by (simp add: insert_all_def)
next
  case (snoc x xs)
  have IH: "li_accumulated (insert_all xs l) = of_nat (length xs)"
      "li_latency (insert_all xs l) = sum_list xs"
      "xs \<noteq> [] \<longrightarrow> li_max_latency (insert_all xs l) = Max (set xs) \<and>
         li_min_latency (insert_all xs l) = Min (set xs)"
    using snoc by simp_all
  have "unat (of_nat (length xs) :: u64) = length xs"
    using snoc.prems by (simp add: unat_of_nat)
  then have "(of_nat (length xs) :: u64) = 0 \<longleftrightarrow> length xs = 0" by (simp only: flip: unat_eq_0)
  then have zero: "li_accumulated (insert_all xs l) = 0 \<longleftrightarrow> xs = []" using IH(1) by simp
  show ?case
  proof (cases "xs = []")
    case True
    then show ?thesis using z by (simp add: insert_all_def InsertLatency_def Let_def)
  next
    case False
    define hi lo where "hi = Max (set xs)" and "lo = Min (set xs)"
    have "Max (set (xs @ [x])) = max hi x" "Min (set (xs @ [x])) = min lo x"
      using False by (simp_all add: hi_def lo_def max.commute min.commute)
    then show ?thesis
      using IH [folded hi_def lo_def] zero False
      by (simp only: insert_all_snoc) (simp add: InsertLatency_def Let_def max_def min_def)
  qed
qed

text \<open>what the monitor reports for a latency after a cycle is the maximum, the minimum
  and the average of the samples inserted in it, and their number.\<close>

theorem latency_cycle:
  assumes z: "li_accumulated l = 0" "li_latency l = 0"
    and xs: "xs \<noteq> []" "length xs < 2 ^ 63"
  shows "let l' = LatencyUpdate d (insert_all xs l) in
    li_max l' = Max (set xs) \<and> li_min l' = Min (set xs) \<and>
    li_average l' = sum_list xs / real (length xs) \<and>
    li_per_cycle l' = of_nat (length xs) \<and> li_accumulated l' = 0 \<and> li_latency l' = 0"
proof -
  note st = insert_all_stats [OF z xs(2)]
  have u: "unat (of_nat (length xs) :: u64) = length xs" using xs(2) by (simp add: unat_of_nat)
  have nz: "(of_nat (length xs) :: u64) \<noteq> 0" using xs(1) u by auto
  have "sint (of_nat (length xs) :: u64) = int (length xs)"
    using xs(2) by (simp add: signed_of_nat signed_take_bit_int_eq_self)
  then show ?thesis
    using st nz xs(1) by (simp add: LatencyUpdate_def Let_def)
qed

definition latency_new :: LatencyItem where
  "latency_new = \<lparr>li_per_second = 0, li_per_cycle = 0, li_total = 0, li_max = 0, li_average = 0,
     li_min = 0, li_accumulated = 0, li_latency = 0, li_max_latency = 0, li_min_latency = 0\<rparr>"

lemma latency_cycle_witness:
  "li_max (LatencyUpdate 10 (insert_all [3, 1, 2] latency_new)) = 3 \<and>
   li_average (LatencyUpdate 10 (insert_all [3, 1, 2] latency_new)) = 2"
  using latency_cycle [of latency_new "[3, 1, 2]" 10] by (simp add: latency_new_def Let_def)

subsection \<open>The background thread\<close>

lemma update_period_funpow [simp]: "update_period ((UpdateItems d ^^ n) m) = update_period m"
  by (induction n) simp_all

text \<open>The seconds read that are multiples of the period.\<close>

definition boundaries :: "int \<Rightarrow> int list \<Rightarrow> int set" where
  "boundaries period stamps = {t \<in> set stamps. t mod period = 0}"

lemma finite_boundaries [simp]: "finite (boundaries p ts)"
  by (simp add: boundaries_def)

lemma UpdateData_count:
  assumes "sorted stamps" and "\<forall>t \<in> set stamps. last_timestamp \<le> t"
  shows "UpdateData stamps last_timestamp m =
    (UpdateItems (update_period m) ^^ card (boundaries (update_period m) stamps - {last_timestamp})) m"
  using assms
proof (induction stamps last_timestamp m rule: UpdateData.induct)
  case (1 last_timestamp m)
  then show ?case by (simp add: boundaries_def)
next
  case (2 stamp stamps last_timestamp m)
  let ?p = "update_period m"
  show ?case
  proof (cases "last_timestamp \<noteq> stamp \<and> stamp mod ?p = 0")
    case True
    have lt: "last_timestamp \<notin> set stamps" using True "2.prems" by auto
    have "boundaries ?p (stamp # stamps) - {last_timestamp} = insert stamp (boundaries ?p stamps - {stamp})"
      using True lt by (auto simp: boundaries_def)
    then have "card (boundaries ?p (stamp # stamps) - {last_timestamp}) = Suc (card (boundaries ?p stamps - {stamp}))"
      by (simp only: card_insert_disjoint finite_Diff finite_boundaries Diff_iff singleton_iff simp_thms)
    moreover have "UpdateData stamps stamp (UpdateItems ?p m) =
        (UpdateItems ?p ^^ card (boundaries ?p stamps - {stamp})) (UpdateItems ?p m)"
      using "2.IH"(1) [OF True] "2.prems" True by simp
    ultimately show ?thesis using True by (simp add: funpow_swap1)
  next
    case False
    then have "boundaries ?p (stamp # stamps) - {last_timestamp} = boundaries ?p stamps - {last_timestamp}"
      by (auto simp: boundaries_def)
    moreover have "UpdateData stamps last_timestamp m =
        (UpdateItems ?p ^^ card (boundaries ?p stamps - {last_timestamp})) m"
      using "2.IH"(2) [OF False] "2.prems" by auto
    ultimately show ?thesis using False by (simp only: UpdateData.simps if_False)
  qed
qed

text \<open>the monitor's thread rolls the items over exactly once for each second it reads
  that is a multiple of the period, however often it reads it.\<close>

theorem UpdateData_once_per_boundary:
  assumes "sorted stamps" and "\<forall>t \<in> set stamps. 0 < t"
  shows "UpdateData stamps 0 m =
    (UpdateItems (update_period m) ^^ card (boundaries (update_period m) stamps)) m"
proof -
  have "0 \<notin> boundaries (update_period m) stamps" using assms(2) by (auto simp: boundaries_def)
  moreover have "\<forall>t \<in> set stamps. 0 \<le> t" using assms(2) by auto
  ultimately show ?thesis using UpdateData_count [OF assms(1)] by simp
qed

lemma UpdateData_once_per_boundary_witness:
  "UpdateData [8, 9, 10, 10, 11, 19, 20, 20] 0 StatusManager_new =
     UpdateItems 10 (UpdateItems 10 StatusManager_new)"
proof -
  have "boundaries 10 [8, 9, 10, 10, 11, 19, 20, 20] = {10, 20}" by (auto simp: boundaries_def)
  then show ?thesis
    using UpdateData_once_per_boundary [of "[8, 9, 10, 10, 11, 19, 20, 20]" StatusManager_new]
    by (simp add: StatusManager_new_def numeral_2_eq_2)
qed

end
