(* ===== verification/AnnounceHandler.thy ===== *)
theory AnnounceHandler
  imports PeerProps
begin

text \<open>
  The tracker's request handler, \<open>gko-tracker-src/src/AnnounceHandler.cpp\<close>, with the
  request and response structures of \<open>protocol/tracker_types.h\<close> and
  \<open>protocol/Announce.h\<close> and the error texts of \<open>src/TrackerErrorCategory.cpp\<close>. Of the
  \<open>__isset\<close> flags only those the handler reads are fields; log messages are left out.
\<close>

subsection \<open>Requests and responses\<close>

record Peer =
  ap_peerid :: string
  ap_ip :: string
  ap_port :: u32
  ap_idc :: string
  ap_isset_ip :: bool
  ap_isset_idc :: bool

record Stat =
  st_uploaded :: u64
  st_downloaded :: u64
  st_left :: u64
  st_status :: Status

record AnnounceRequest =
  rq_infohash :: string
  rq_peer :: Peer
  rq_stat :: Stat
  rq_is_seed :: bool
  rq_num_want :: u32
  rq_isset_infohash :: bool
  rq_isset_peer :: bool
  rq_isset_stat :: bool
  rq_isset_is_seed :: bool
  rq_isset_num_want :: bool

record ResponsePeer =
  rp_peerid :: string
  rp_ip :: string
  rp_port :: u32

record AnnounceResponse =
  an_ret :: int
  an_failure_reason :: string
  an_min_interval :: int
  an_have_seed :: bool
  an_peers :: "ResponsePeer list"

definition AnnounceResponse_new :: AnnounceResponse where
  "AnnounceResponse_new = \<lparr>an_ret = 0, an_failure_reason = [], an_min_interval = 0,
     an_have_seed = False, an_peers = []\<rparr>"

definition MIN_INTERVAL :: int where
  "MIN_INTERVAL = 2"

subsection \<open>Announce\<close>

definition AnnounceInfo :: "int \<Rightarrow> string \<Rightarrow> AnnounceResponse \<Rightarrow> AnnounceResponse" where
  "AnnounceInfo error_code message r =
     r\<lparr>an_ret := error_code, an_failure_reason := message, an_min_interval := MIN_INTERVAL\<rparr>"

definition AnnounceError :: "string \<Rightarrow> AnnounceResponse \<Rightarrow> AnnounceResponse" where
  "AnnounceError message r = AnnounceInfo (-1) message r"

definition AnnounceSuccess :: "AnnounceResponse \<Rightarrow> AnnounceResponse" where
  "AnnounceSuccess r = AnnounceInfo 0 ''successfully'' r"

text \<open>The peer filled so far, and whether the request was complete.\<close>

definition PreHandleRequest ::
  "(string \<Rightarrow> string) \<Rightarrow> string \<Rightarrow> AnnounceRequest \<Rightarrow> bool \<times> PeerInfo" where
  "PreHandleRequest b64e tracker_id request =
     (let p = SetTrackerId tracker_id PeerInfo_new in
      if \<not> rq_isset_infohash request then (False, p)
      else
        let p = (if \<not> Initialized p then SetInfoHash b64e (rq_infohash request) p else p) in
        if \<not> rq_isset_peer request then (False, p)
        else
          let peer = rq_peer request;
              p = (if \<not> Initialized p then SetPeerId b64e (ap_peerid peer) p else p);
              p = SetIp (ap_ip peer) p;
              idc = (if \<not> ap_isset_idc peer then ''default'' else ap_idc peer);
              p = SetIdc idc p;
              p = SetPort (ap_port peer) p
          in if \<not> rq_isset_stat request then (False, p)
             else
               let stat = rq_stat request;
                   p = SetUploaded (st_uploaded stat) p;
                   p = SetDownloaded (st_downloaded stat) p;
                   p = SetLeft (st_left stat) p;
                   p = SetStatus (st_status stat) p
               in if \<not> rq_isset_is_seed request then (False, p)
                  else
                    let p = SetIsSeed (rq_is_seed request) p in
                    if \<not> rq_isset_num_want request then (False, p)
                    else (True, SetWantNumber (rq_num_want request) p))"

definition response_peer :: "PeerInfo \<Rightarrow> ResponsePeer" where
  "response_peer p = \<lparr>rp_peerid = sp_peer_id (thrift_peer p), rp_ip = sp_ip (thrift_peer p),
     rp_port = sp_port (thrift_peer p)\<rparr>"

definition ComposeResponse :: "PeerInfo list \<Rightarrow> bool \<Rightarrow> AnnounceResponse \<Rightarrow> AnnounceResponse" where
  "ComposeResponse peer_list have_seed r =
     r\<lparr>an_peers := an_peers r @ map response_peer peer_list, an_have_seed := have_seed\<rparr>"

definition announce ::
  "(string \<Rightarrow> string) \<Rightarrow> (StoredPeerInfo \<Rightarrow> string) \<Rightarrow> string \<Rightarrow> u64 \<Rightarrow> nat list \<Rightarrow>
   AnnounceRequest \<Rightarrow> PeerHandler \<Rightarrow> AnnounceResponse \<times> PeerHandler" where
  "announce b64e thrift_write tracker_id now rs request h =
     (let h = emit [StatusIncrease ''request''] h; r = AnnounceResponse_new in
      if \<not> rq_isset_infohash request \<or> \<not> rq_isset_peer request \<or> \<not> ap_isset_ip (rq_peer request)
      then (AnnounceError ''No infohash or source ip'' r, h)
      else
        let (ok, peer_info) = PreHandleRequest b64e tracker_id request in
        if \<not> ok then (AnnounceError ''parse request error'' r, h)
        else
          let h = emit [StatusIncrease ''valid_request''] h;
              (ret, h, a) = Handle b64e thrift_write now peer_info h \<lparr>an_out = [], an_seed = False, an_rs = rs\<rparr>
          in if ret \<noteq> 0 then (AnnounceInfo ret ''handle request error'' r, h)
             else (AnnounceSuccess (ComposeResponse (an_out a) (an_seed a) r), h))"

subsection \<open>Operator requests\<close>

record BaseResponse =
  br_retval :: int
  br_message :: string

record ControlByInfohashRequest =
  cr_ip :: string
  cr_token :: string
  cr_infohash :: string
  cr_isset_ip :: bool
  cr_isset_token :: bool
  cr_isset_infohash :: bool

fun error_value :: "tracker_error option \<Rightarrow> int" where
  "error_value None = 0"
| "error_value (Some MISSING_ARGS) = 1"
| "error_value (Some INVALID_ARGS) = 2"
| "error_value (Some INFOHASH_NOT_FOUND) = 3"
| "error_value (Some INVALID_OPERAT_TYPE) = 4"

text \<open>\<open>TrackerErrorCategory::message\<close>, on any integer.\<close>

definition error_message :: "int \<Rightarrow> string" where
  "error_message ev =
     (if ev < 0 \<or> ev \<ge> 5 then ''invalid error''
      else [''no error'', ''missing arguments'', ''invalid arguments'', ''infohash not found'',
            ''invalid operate type''] ! nat ev)"

definition FillBaseResponse :: "tracker_error option \<Rightarrow> BaseResponse" where
  "FillBaseResponse ec = \<lparr>br_retval = error_value ec, br_message = error_message (error_value ec)\<rparr>"

definition ControlRequest ::
  "(string \<Rightarrow> string) \<Rightarrow> u64 \<Rightarrow> ControlByInfohashRequest \<Rightarrow> int \<Rightarrow> PeerHandler \<Rightarrow>
   BaseResponse \<times> PeerHandler" where
  "ControlRequest b64e now request type h =
     (if \<not> cr_isset_ip request \<or> \<not> cr_isset_token request \<or> \<not> cr_isset_infohash request
      then (FillBaseResponse (Some MISSING_ARGS), h)
      else if cr_token request \<noteq> ''bbts-tracker-control'' then (FillBaseResponse (Some INVALID_ARGS), h)
      else let (ec, h) = ControlByInfohash now (base64_or_raw b64e (cr_infohash request)) type h
           in (FillBaseResponse ec, h))"

definition StopByInfohash where
  "StopByInfohash b64e now request h = ControlRequest b64e now request 0 h"

definition ResumeByInfohash where
  "ResumeByInfohash b64e now request h = ControlRequest b64e now request 1 h"

subsection \<open>What a complete request becomes\<close>

definition complete :: "AnnounceRequest \<Rightarrow> bool" where
  "complete r \<longleftrightarrow> rq_isset_infohash r \<and> rq_isset_peer r \<and> ap_isset_ip (rq_peer r) \<and>
     rq_isset_stat r \<and> rq_isset_is_seed r \<and> rq_isset_num_want r"

lemmas prehandle = PreHandleRequest_def peer_setters PeerInfo_new_def StoredPeerInfo_new_def Let_def

lemma PreHandleRequest_ok:
  "fst (PreHandleRequest b64e t r) \<longleftrightarrow> rq_isset_infohash r \<and> rq_isset_peer r \<and>
     rq_isset_stat r \<and> rq_isset_is_seed r \<and> rq_isset_num_want r"
  by (simp add: PreHandleRequest_def Let_def)

lemma PreHandleRequest_wf:
  assumes "PreHandleRequest b64e t r = (True, p)"
  shows "wf_input b64e p" and "sp_info_hash (thrift_peer p) = rq_infohash r"
    and "sp_peer_id (thrift_peer p) = ap_peerid (rq_peer r)"
    and "sp_status (thrift_peer p) = st_status (rq_stat r)"
    and "sp_is_seed (thrift_peer p) = rq_is_seed r"
    and "sp_want_number (thrift_peer p) = rq_num_want r"
    and "base64_info_hash p = base64_or_raw b64e (rq_infohash r)"
  using assms by (auto simp: prehandle wf_input_def Initialized_def split: if_splits)

lemma handler_inv_effects [simp]: "handler_inv (h\<lparr>effects := es\<rparr>) = handler_inv h"
  by (simp add: handler_inv_def)

text \<open>The parts of a request the return code depends on.\<close>

definition hash_stopped :: "(string \<Rightarrow> string) \<Rightarrow> AnnounceRequest \<Rightarrow> PeerHandler \<Rightarrow> bool" where
  "hash_stopped b64e r h =
     (case lookup (local_map h) (base64_or_raw b64e (rq_infohash r)) of
        None \<Rightarrow> False | Some info \<Rightarrow> need_stop info)"

lemma Handle_fst: "fst (Handle b64e w now p h a) = fst (UpdatePeer b64e w now p h (an_rs a))"
proof -
  obtain ret h1 rs where up: "UpdatePeer b64e w now p h (an_rs a) = (ret, h1, rs)" by (metis prod_cases3)
  then show ?thesis by (auto simp: Handle_def Let_def split: prod.splits)
qed

lemma announce_code:
  "if complete r
   then an_ret (fst (announce b64e w tid now rs r h)) =
     (if st_status (rq_stat r) \<noteq> STOPPED \<and> \<not> rq_is_seed r \<and> hash_stopped b64e r h then 26234 else 0)
   else an_ret (fst (announce b64e w tid now rs r h)) = -1 \<and>
     snd (announce b64e w tid now rs r h) = emit [StatusIncrease ''request''] h"
proof (cases "rq_isset_infohash r \<and> rq_isset_peer r \<and> ap_isset_ip (rq_peer r)")
  case False
  then show ?thesis
    by (auto simp: announce_def complete_def Let_def AnnounceError_def AnnounceInfo_def)
next
  case True
  obtain ok p where p: "PreHandleRequest b64e tid r = (ok, p)" by force
  have ok: "ok \<longleftrightarrow> complete r" using PreHandleRequest_ok [of b64e tid r] p True by (auto simp: complete_def)
  show ?thesis
  proof (cases ok)
    case False
    then show ?thesis
      using True p ok by (simp add: announce_def Let_def AnnounceError_def AnnounceInfo_def)
  next
    case okT: True
    let ?h = "emit [StatusIncrease ''valid_request''] (emit [StatusIncrease ''request''] h)"
    let ?a = "\<lparr>an_out = [], an_seed = False, an_rs = rs\<rparr>"
    obtain ret h' a' where ha: "Handle b64e w now p ?h ?a = (ret, h', a')" by (metis prod_cases3)
    have "PreHandleRequest b64e tid r = (True, p)" using p okT by simp
    note wf = PreHandleRequest_wf [OF this]
    have "stopped_hash ?h p = hash_stopped b64e r h"
      by (simp add: stopped_hash_def hash_stopped_def wf(7))
    then have "ret = (if st_status (rq_stat r) \<noteq> STOPPED \<and> \<not> rq_is_seed r \<and> hash_stopped b64e r h then 26234 else 0)"
      using Handle_fst [of b64e w now p ?h ?a] ha UpdatePeer_return_code [of b64e w now p ?h rs] wf(4,5)
      by (simp add: CheckToStop_def IsASeed_def)
    moreover have "an_ret (fst (announce b64e w tid now rs r h)) = ret"
      using True p okT ha
      by (simp add: announce_def Let_def AnnounceInfo_def AnnounceSuccess_def)
    ultimately show ?thesis using ok okT by simp
  qed
qed

text \<open>C6: the code an announce returns. An incomplete request is refused with -1 and leaves
  the tracker's maps and queue as they are; a complete one returns 26234 exactly when
  it is neither a stop message nor a seed's and its info hash is stopped, and 0 otherwise.\<close>

theorem announce_return_code:
  "if complete r
   then an_ret (fst (announce b64e w tid now rs r h)) =
     (if st_status (rq_stat r) \<noteq> STOPPED \<and> \<not> rq_is_seed r \<and> hash_stopped b64e r h then 26234 else 0)
   else an_ret (fst (announce b64e w tid now rs r h)) = -1 \<and>
     snd (announce b64e w tid now rs r h) = emit [StatusIncrease ''request''] h"
  by (rule announce_code)

end
