(* ===== verification/RedisManager.thy ===== *)
theory RedisManager
  imports Crc32
begin

text \<open>
  The tracker's Redis client, \<open>gko-tracker-src/src/RedisManager.cpp\<close> and
  \<open>include/bbts/RedisManager.h\<close>. hiredis is not under \<open>src/\<close>: a \<open>redisContext\<close> is
  represented by the commands appended to it whose replies have not been read, which is
  what its pipelining interface documents; what the server answers, and whether a
  connection succeeds, are inputs of each step. One server pair has two pipelines, its
  master's and its slave's. \<open>int\<close> counters stay far below \<open>2^31\<close>.
\<close>

type_synonym redisContext = "string list"

datatype reply = NullReply | ErrorReply | GoodReply string

record ContextManager =
  charge_context :: "redisContext option"
  release_context :: "redisContext option"
  charged_commands :: int
  release_commands :: int
  flag :: bool

definition ContextManager_new :: ContextManager where
  "ContextManager_new = \<lparr>charge_context = None, release_context = None, charged_commands = 0,
     release_commands = 0, flag = False\<rparr>"

subsection \<open>Choosing the server\<close>

text \<open>\<open>redis_num_\<close> is positive once \<open>Start\<close> has succeeded.\<close>

definition GetRedisIndex :: "u32 \<Rightarrow> string \<Rightarrow> u32" where
  "GetRedisIndex redis_num key = hash_crc32 key mod redis_num"

subsection \<open>Pipelines\<close>

definition AppendCommand :: "string \<Rightarrow> ContextManager \<Rightarrow> bool \<times> ContextManager" where
  "AppendCommand command c =
     (if \<not> flag c then (False, c)
      else (True, c\<lparr>charge_context := map_option (\<lambda>q. q @ [c_str command]) (charge_context c),
                    charged_commands := charged_commands c + 1\<rparr>))"

text \<open>
  The answers the server gives are a list; each \<open>redisGetReply\<close> takes one and one
  command off the context. An exhausted list is a lost connection.
\<close>

fun next_reply :: "reply list \<Rightarrow> reply \<times> reply list" where
  "next_reply [] = (NullReply, [])"
| "next_reply (r # rs) = (r, rs)"

fun flush_loop :: "nat \<Rightarrow> reply list \<Rightarrow> redisContext \<Rightarrow> bool \<times> redisContext" where
  "flush_loop 0 replies q = (True, q)"
| "flush_loop (Suc n) replies q =
     (let (r, replies) = next_reply replies; q = tl q in
      (case r of
         NullReply \<Rightarrow> (False, q)
       | ErrorReply \<Rightarrow> (False, q)
       | GoodReply _ \<Rightarrow> flush_loop n replies q))"

definition FlushPipeline :: "reply list \<Rightarrow> ContextManager \<Rightarrow> bool \<times> ContextManager" where
  "FlushPipeline replies c =
     (case release_context c of
        None \<Rightarrow> (release_commands c \<le> 0, c)
      | Some q \<Rightarrow> (let (ok, q) = flush_loop (nat (release_commands c)) replies q
                  in (ok, c\<lparr>release_context := Some q\<rparr>)))"

text \<open>One pass of the loop of \<open>SendToRedis\<close>.\<close>

definition SendToRedis :: "reply list \<Rightarrow> ContextManager \<Rightarrow> ContextManager" where
  "SendToRedis replies c =
     (if flag c then
        (let (ok, c) = FlushPipeline replies c in
         if ok then c\<lparr>release_context := charge_context c, charge_context := release_context c,
                      release_commands := charged_commands c, charged_commands := 0\<rparr>
         else c\<lparr>flag := False\<rparr>)
      else c)"

text \<open>
  One server of \<open>DoConnection\<close>; \<open>ok1\<close> and \<open>ok2\<close> say whether the two connections
  succeed (the second is not tried when the first fails).
\<close>

definition DoConnection :: "bool \<Rightarrow> bool \<Rightarrow> ContextManager \<Rightarrow> ContextManager" where
  "DoConnection ok1 ok2 c =
     (if flag c then c
      else
        let c = c\<lparr>release_context := None, charge_context := None, release_commands := 0,
                  charged_commands := 0\<rparr>;
            c = (if ok1 then c\<lparr>release_context := Some []\<rparr> else c);
            c = (if ok1 \<and> ok2 then c\<lparr>charge_context := Some []\<rparr> else c)
        in if ok1 \<and> ok2 then c\<lparr>flag := True\<rparr> else c)"

text \<open>The two pipelines of the server pair a key belongs to.\<close>

definition PipelineCommand ::
  "string \<Rightarrow> ContextManager \<times> ContextManager \<Rightarrow> bool \<times> ContextManager \<times> ContextManager" where
  "PipelineCommand command pair =
     (let (ok1, master) = AppendCommand command (fst pair);
          (ok2, slave) = AppendCommand command (snd pair)
      in (ok1 \<or> ok2, master, slave))"

subsection \<open>Connecting\<close>

text \<open>
  \<open>ConnectRedis\<close> as a decision on what hiredis reports: no connection error, \<open>AUTH\<close>
  answered with a status starting with OK, and the same for \<open>SELECT\<close> when a database is
  configured.
\<close>

datatype status_reply = NoReply | OtherReply | StatusReply string

definition is_ok :: "status_reply \<Rightarrow> bool" where
  "is_ok r = (case r of StatusReply s \<Rightarrow> take 2 s = ''OK'' | _ \<Rightarrow> False)"

definition ConnectRedis :: "string \<Rightarrow> bool \<Rightarrow> status_reply \<Rightarrow> status_reply \<Rightarrow> bool" where
  "ConnectRedis database err auth_reply select_reply =
     (if err then False
      else if \<not> is_ok auth_reply then False
      else if length database = 0 then True
      else is_ok select_reply)"

subsection \<open>Synchronous commands\<close>

text \<open>The flag of the thread's context, the outcome of a reconnection, the server's reply.\<close>

definition ExcuteCommandInternal :: "bool \<Rightarrow> reply \<Rightarrow> bool \<Rightarrow> bool \<times> bool \<times> reply" where
  "ExcuteCommandInternal connect_ok r flg =
     (if \<not> flg \<and> \<not> connect_ok then (False, flg, NullReply)
      else case r of
             NullReply \<Rightarrow> (False, False, NullReply)
           | ErrorReply \<Rightarrow> (False, False, NullReply)
           | GoodReply s \<Rightarrow> (True, True, GoodReply s))"

definition ExecuteCommand ::
  "bool \<times> reply \<Rightarrow> bool \<times> reply \<Rightarrow> bool \<times> bool \<Rightarrow> bool \<times> reply \<times> bool \<times> bool" where
  "ExecuteCommand master slave flags =
     (let (ok, f1, r) = ExcuteCommandInternal (fst master) (snd master) (fst flags) in
      if ok then (True, r, f1, snd flags)
      else
        let (ok2, f2, r2) = ExcuteCommandInternal (fst slave) (snd slave) (snd flags)
        in (ok2, r2, f1, f2))"

subsection \<open>The pipeline as a queue\<close>

text \<open>
  The state of one pipeline with two histories kept for the proof, both since the last
  connection: the commands accepted, and those whose good reply has been read.
\<close>

record pipeline =
  ctx :: ContextManager
  accepted :: "string list"
  acked :: "string list"

inductive pipe_step :: "pipeline \<Rightarrow> pipeline \<Rightarrow> bool" where
  append: "AppendCommand command (ctx s) = (ok, c') \<Longrightarrow>
    pipe_step s (s\<lparr>ctx := c', accepted := accepted s @ (if ok then [c_str command] else [])\<rparr>)"
| flush: "flag (ctx s) \<Longrightarrow> FlushPipeline replies (ctx s) = (True, c1) \<Longrightarrow>
    pipe_step s (s\<lparr>ctx := SendToRedis replies (ctx s),
      acked := acked s @ (case release_context (ctx s) of None \<Rightarrow> [] | Some q \<Rightarrow> q)\<rparr>)"
| flush_fails: "FlushPipeline replies (ctx s) = (False, c1) \<Longrightarrow>
    pipe_step s (s\<lparr>ctx := SendToRedis replies (ctx s)\<rparr>)"
| reconnect: "\<not> flag (ctx s) \<Longrightarrow>
    pipe_step s \<lparr>ctx = DoConnection ok1 ok2 (ctx s), accepted = [], acked = []\<rparr>"

definition pipe_init :: "pipeline \<Rightarrow> bool" where
  "pipe_init s \<longleftrightarrow> s = \<lparr>ctx = ContextManager_new, accepted = [], acked = []\<rparr>"

definition pipe_inv :: "pipeline \<Rightarrow> bool" where
  "pipe_inv s \<longleftrightarrow>
     (flag (ctx s) \<longrightarrow>
        (\<exists>q r. charge_context (ctx s) = Some q \<and> release_context (ctx s) = Some r \<and>
           charged_commands (ctx s) = int (length q) \<and> release_commands (ctx s) = int (length r) \<and>
           accepted s = acked s @ r @ q))"

lemma flush_loop_ok: "flush_loop n replies q = (True, q') \<Longrightarrow> q' = drop n q"
  by (induction n replies q arbitrary: q' rule: flush_loop.induct)
    (auto simp: drop_Suc Let_def split: reply.splits prod.splits)

lemma pipe_inv_init: "pipe_init s \<Longrightarrow> pipe_inv s"
  by (simp add: pipe_init_def pipe_inv_def ContextManager_new_def)

lemma pipe_inv_step:
  assumes inv: "pipe_inv s" and st: "pipe_step s t"
  shows "pipe_inv t"
  using st
proof cases
  case (append command ok c')
  then show ?thesis
    using inv by (auto simp: pipe_inv_def AppendCommand_def split: if_splits)
next
  case (flush replies c1)
  obtain q r where qr: "charge_context (ctx s) = Some q" "release_context (ctx s) = Some r"
      "charged_commands (ctx s) = int (length q)" "release_commands (ctx s) = int (length r)"
      "accepted s = acked s @ r @ q"
    using inv flush(2) by (auto simp: pipe_inv_def)
  obtain r' where r': "flush_loop (length r) replies r = (True, r')" "c1 = (ctx s)\<lparr>release_context := Some r'\<rparr>"
    using flush(3) qr by (auto simp: FlushPipeline_def split: prod.splits)
  have "r' = []" using flush_loop_ok [OF r'(1)] by simp
  then show ?thesis
    using flush qr r' by (simp add: pipe_inv_def SendToRedis_def)
next
  case (flush_fails replies c1)
  then show ?thesis by (simp add: pipe_inv_def SendToRedis_def)
next
  case (reconnect ok1 ok2)
  then show ?thesis by (simp add: pipe_inv_def DoConnection_def Let_def)
qed

interpretation pipe: invariant_system pipe_init pipe_step pipe_inv
  by unfold_locales (blast intro: pipe_inv_init pipe_inv_step)+

text \<open>C16: the double-buffered pipeline is a queue. In every reachable state of a connected
  pipeline the commands accepted since it was connected are, in order, those whose
  replies have been read, those being flushed and those being charged, and the two
  counters are the lengths of the last two: no reply is waited for twice or forgotten.\<close>

theorem pipeline_fifo:
  assumes "reach pipe_init pipe_step s" and "flag (ctx s)"
  shows "\<exists>q r. charge_context (ctx s) = Some q \<and> release_context (ctx s) = Some r \<and>
    charged_commands (ctx s) = int (length q) \<and> release_commands (ctx s) = int (length r) \<and>
    accepted s = acked s @ r @ q"
  using pipe.reach_inv [OF assms(1)] assms(2) by (auto simp: pipe_inv_def)

lemma pipeline_fifo_witness:
  "\<exists>(s :: pipeline) q r. charge_context (ctx s) = Some q \<and> release_context (ctx s) = Some r \<and>
     accepted s = [''hset a''] \<and> accepted s = acked s @ r @ q"
proof -
  let ?s0 = "\<lparr>ctx = ContextManager_new, accepted = [], acked = []\<rparr>"
  let ?s1 = "\<lparr>ctx = DoConnection True True ContextManager_new, accepted = [], acked = []\<rparr>"
  have r0: "reach pipe_init pipe_step ?s0" by (rule reach_init) (simp add: pipe_init_def)
  have "pipe_step ?s0 ?s1" using pipe_step.reconnect [of ?s0 True True] by (simp add: ContextManager_new_def)
  then have r1: "reach pipe_init pipe_step ?s1" by (rule reach_step [OF r0])
  obtain c' where a: "AppendCommand ''hset a'' (ctx ?s1) = (True, c')" "flag c'"
    by (simp add: AppendCommand_def DoConnection_def Let_def ContextManager_new_def)
  let ?s2 = "?s1\<lparr>ctx := c', accepted := accepted ?s1 @ (if True then [c_str ''hset a''] else [])\<rparr>"
  have "reach pipe_init pipe_step ?s2" by (rule reach_step [OF r1]) (rule pipe_step.append [OF a(1)])
  moreover have "flag (ctx ?s2)" using a(2) by simp
  ultimately obtain q r where "charge_context (ctx ?s2) = Some q" "release_context (ctx ?s2) = Some r"
      "accepted ?s2 = acked ?s2 @ r @ q"
    using pipeline_fifo by blast
  then show ?thesis by (intro exI [of _ ?s2] exI [of _ q] exI [of _ r]) (simp add: c_str_def)
qed

text \<open>
  A failed flush takes the pipeline down and what it held is gone: the commands had been
  reported as accepted, and the reconnection starts with empty buffers.
\<close>

lemma reconnect_drops_accepted:
  "let c = DoConnection True True ContextManager_new; (ok, c) = AppendCommand ''hset a'' c;
       c = SendToRedis [] c; c = SendToRedis [NullReply] c; c = DoConnection True True c
   in ok \<and> flag c \<and> charge_context c = Some [] \<and> release_context c = Some []"
  by code_simp

subsection \<open>Requests\<close>

lemma GetRedisIndex_bound: "0 < redis_num \<Longrightarrow> GetRedisIndex redis_num key < redis_num"
  by (simp add: GetRedisIndex_def word_less_nat_alt unat_mod word_neq_0_conv [symmetric] unat_gt_0)

text \<open>a synchronous command is answered by the master when it can be, by the slave of the
  same pair otherwise, and fails only when both do; a reply is handed out exactly on
  success, and a server that failed has to be reconnected before it is used again.\<close>

theorem ExecuteCommand_failover:
  "ExecuteCommand (c1, r1) (c2, r2) (f1, f2) =
     (case r1 of
        GoodReply s \<Rightarrow> if f1 \<or> c1 then (True, GoodReply s, True, f2)
          else (case r2 of GoodReply t \<Rightarrow> if f2 \<or> c2 then (True, GoodReply t, False, True)
                                       else (False, NullReply, False, False)
                | _ \<Rightarrow> (False, NullReply, False, False))
      | _ \<Rightarrow> (case r2 of GoodReply t \<Rightarrow> if f2 \<or> c2 then (True, GoodReply t, False, True)
                                       else (False, NullReply, False, False)
                | _ \<Rightarrow> (False, NullReply, False, False)))"
  by (cases f1; cases f2; cases c1; cases c2; cases r1; cases r2)
    (simp_all add: ExecuteCommand_def ExcuteCommandInternal_def)

end
