(* ===== verification/UnixSocket.thy ===== *)
theory UnixSocket
  imports Encode
begin

text \<open>
  The agent's message framing on Unix sockets, \<open>gko-src/src/UnixSocketConnection.cpp\<close> and
  \<open>include/bbts/UnixSocketConnection.h\<close>. The header structure is written to the socket as
  it lies in memory: four little-endian 32-bit words, without padding. Boost.Asio is the
  environment: it runs one handler at a time and completes the operation started last.
  The writer (a queue with one operation in progress) and the reader (header, then data)
  are the two state machines.
\<close>

subsection \<open>Headers\<close>

record Header =
  hd_length :: u32
  hd_type :: u32
  hd_magic :: u32
  hd_checksum :: u32

definition Assign :: "u32 \<Rightarrow> u32 \<Rightarrow> Header" where
  "Assign type len = \<lparr>hd_length = len, hd_type = type, hd_magic = 47417,
     hd_checksum = len XOR type XOR 47417\<rparr>"

definition IsValid :: "Header \<Rightarrow> bool" where
  "IsValid h \<longleftrightarrow> (hd_length h XOR hd_type h) XOR hd_magic h = hd_checksum h"

lemma IsValid_Assign [simp]: "IsValid (Assign type len)"
  by (simp add: IsValid_def Assign_def xor.assoc)

lemma xor_cancel: "a XOR b = c XOR b \<longleftrightarrow> a = (c :: u32)"
proof
  assume "a XOR b = c XOR b"
  then have "(a XOR b) XOR b = (c XOR b) XOR b" by simp
  then show "a = c" by (simp add: xor.assoc)
qed simp

text \<open>Changing one field of a valid header makes it invalid.\<close>

lemma IsValid_detects:
  assumes "IsValid h"
  shows "l \<noteq> hd_length h \<Longrightarrow> \<not> IsValid (h\<lparr>hd_length := l\<rparr>)"
    and "t \<noteq> hd_type h \<Longrightarrow> \<not> IsValid (h\<lparr>hd_type := t\<rparr>)"
    and "c \<noteq> hd_checksum h \<Longrightarrow> \<not> IsValid (h\<lparr>hd_checksum := c\<rparr>)"
proof -
  have v: "hd_checksum h = (hd_length h XOR hd_type h) XOR hd_magic h" using assms by (simp add: IsValid_def)
  show "l \<noteq> hd_length h \<Longrightarrow> \<not> IsValid (h\<lparr>hd_length := l\<rparr>)"
    by (simp add: IsValid_def v xor_cancel)
  show "t \<noteq> hd_type h \<Longrightarrow> \<not> IsValid (h\<lparr>hd_type := t\<rparr>)"
    by (simp add: IsValid_def v xor_cancel xor.commute [of "hd_length h"])
  show "c \<noteq> hd_checksum h \<Longrightarrow> \<not> IsValid (h\<lparr>hd_checksum := c\<rparr>)"
    using assms by (simp add: IsValid_def)
qed

lemma IsValid_zero: "IsValid \<lparr>hd_length = 0, hd_type = 0, hd_magic = 0, hd_checksum = 0\<rparr>"
  by (simp add: IsValid_def)

definition word_bytes :: "u32 \<Rightarrow> string" where
  "word_bytes w = map (\<lambda>i. char_of (unat (drop_bit (8 * i) w) mod 256)) [0, 1, 2, 3]"

fun word_of_bytes :: "string \<Rightarrow> u32" where
  "word_of_bytes [] = 0"
| "word_of_bytes (c # cs) = of_nat (of_char c) + 256 * word_of_bytes cs"

lemma length_word_bytes [simp]: "length (word_bytes w) = 4"
  by (simp add: word_bytes_def)

lemma word_of_word_bytes [simp]: "word_of_bytes (word_bytes w) = w"
proof -
  let ?n = "unat w"
  have lt: "?n < 4294967296" using unsigned_less [of w, where 'a = nat] by simp
  have d: "unat (drop_bit k w) = ?n div 2 ^ k" for k
    using lt by (simp only: unsigned_drop_bit_eq) (simp add: drop_bit_eq_div take_bit_nat_eq_self)
  have c: "(of_char (char_of (m mod 256) :: char) :: nat) = m mod 256" for m by simp
  have "?n mod 256 + 256 * (?n div 256 mod 256 + 256 * (?n div 65536 mod 256 + 256 * (?n div 16777216 mod 256))) = ?n"
  proof -
    define a b c where "a = ?n div 256" and "b = a div 256" and "c = b div 256"
    have d: "?n div 65536 = b" "?n div 16777216 = c"
      using div_mult2_eq [of ?n 256 256] div_mult2_eq [of ?n 65536 256] by (simp_all add: a_def b_def c_def)
    have "c < 256" using lt by (simp add: d(2) [symmetric] less_mult_imp_div_less)
    then have "b = b mod 256 + 256 * (c mod 256)" by (simp add: c_def)
    moreover have "a = a mod 256 + 256 * b" and "?n = ?n mod 256 + 256 * a" by (simp_all add: a_def b_def)
    ultimately show ?thesis unfolding d a_def [symmetric] by metis
  qed
  moreover have "word_of_bytes (word_bytes w) = of_nat (?n mod 256 + 256 * (?n div 256 mod 256 +
      256 * (?n div 65536 mod 256 + 256 * (?n div 16777216 mod 256))))"
    by (simp add: word_bytes_def d)
  ultimately show ?thesis by (simp only: of_nat_unat ucast_id)
qed

definition header_bytes :: "Header \<Rightarrow> string" where
  "header_bytes h = word_bytes (hd_length h) @ word_bytes (hd_type h) @ word_bytes (hd_magic h) @
     word_bytes (hd_checksum h)"

definition header_of :: "string \<Rightarrow> Header" where
  "header_of s = \<lparr>hd_length = word_of_bytes (take 4 s), hd_type = word_of_bytes (take 4 (drop 4 s)),
     hd_magic = word_of_bytes (take 4 (drop 8 s)), hd_checksum = word_of_bytes (take 4 (drop 12 s))\<rparr>"

lemma length_header_bytes [simp]: "length (header_bytes h) = 16"
  by (simp add: header_bytes_def)

lemma header_of_bytes [simp]: "header_of (header_bytes h) = h"
  by (simp add: header_of_def header_bytes_def)

subsection \<open>Messages on the wire\<close>

datatype MessageType = HEARTBEAT | USERDATA

fun type_code :: "MessageType \<Rightarrow> u32" where
  "type_code HEARTBEAT = 0"
| "type_code USERDATA = 1"

type_synonym Message = "MessageType \<times> string option"

text \<open>What \<open>WriteMessage\<close> puts on the socket.\<close>

definition WriteMessage :: "Message \<Rightarrow> string" where
  "WriteMessage m =
     (case snd m of
        Some payload \<Rightarrow> header_bytes (Assign (type_code (fst m)) (of_nat (length payload))) @ payload
      | None \<Rightarrow> header_bytes (Assign (type_code (fst m)) 0))"

subsection \<open>The reader\<close>

text \<open>
  What a run of the reader on a byte stream does: the payloads passed to
  \<open>read_callback_\<close>, and how it ended (more bytes needed, or the connection closed).
\<close>

datatype read_end = NeedMore | Closed

function read_stream :: "string \<Rightarrow> string list \<times> read_end" where
  "read_stream s =
     (if length s < 16 then ([], NeedMore)
      else
        let h = header_of s; rest = drop 16 s in
        if \<not> IsValid h then ([], Closed)
        else if hd_type h = 0 then read_stream rest
        else if hd_type h = 1 then
          (let n = unat (hd_length h) in
           if length rest < n then ([], NeedMore)
           else let (ps, e) = read_stream (drop n rest) in (take n rest # ps, e))
        else ([], Closed))"
  by pat_completeness auto
termination by (relation "measure length") auto

declare read_stream.simps [simp del]

lemma header_of_append: "header_of (header_bytes h @ rest) = h"
  by (simp add: header_of_def header_bytes_def)

text \<open>The messages the agent and its clients send: heartbeats without, data with a payload.\<close>

definition sendable :: "Message \<Rightarrow> bool" where
  "sendable m \<longleftrightarrow> (case m of (HEARTBEAT, d) \<Rightarrow> d = None | (USERDATA, None) \<Rightarrow> False
    | (USERDATA, Some p) \<Rightarrow> length p < 2 ^ 32)"

lemma read_stream_message:
  assumes "sendable m"
  shows "read_stream (WriteMessage m @ rest) =
    (case snd m of None \<Rightarrow> read_stream rest
     | Some p \<Rightarrow> (p # fst (read_stream rest), snd (read_stream rest)))"
proof -
  obtain t d where m: "m = (t, d)" by force
  show ?thesis
  proof (cases t)
    case HEARTBEAT
    then have "d = None" using assms m by (simp add: sendable_def)
    then show ?thesis
      using m HEARTBEAT by (subst read_stream.simps)
        (simp add: WriteMessage_def header_of_append, simp add: Assign_def)
  next
    case USERDATA
    then obtain p where p: "d = Some p" "length p < 2 ^ 32"
      using assms m by (cases d) (auto simp: sendable_def)
    have u: "unat (of_nat (length p) :: u32) = length p" using p(2) by (simp add: unat_of_nat)
    show ?thesis
      using m USERDATA p u by (subst read_stream.simps)
        (simp add: WriteMessage_def header_of_append, simp add: Assign_def case_prod_beta)
  qed
qed

text \<open>C34: framing. Whatever sequence of heartbeats and data messages one side writes, the
  other side's reader passes on exactly the data payloads, in order, and then waits for
  more.\<close>

theorem framing_roundtrip:
  assumes "\<forall>m \<in> set ms. sendable m"
  shows "read_stream (concat (map WriteMessage ms)) = (List.map_filter snd ms, NeedMore)"
  using assms
proof (induction ms)
  case Nil
  then show ?case by (simp add: read_stream.simps List.map_filter_def)
next
  case (Cons m ms)
  then show ?case
    using read_stream_message [of m "concat (map WriteMessage ms)"]
    by (auto simp: List.map_filter_def split: option.splits)
qed

lemma framing_roundtrip_witness:
  "read_stream (concat (map WriteMessage [(USERDATA, Some ''ab''), (HEARTBEAT, None), (USERDATA, Some [])]))
     = ([''ab'', []], NeedMore)"
  using framing_roundtrip [of "[(USERDATA, Some ''ab''), (HEARTBEAT, None), (USERDATA, Some [])]"]
  by (simp add: sendable_def List.map_filter_def)

subsection \<open>The writer\<close>

text \<open>
  The queue, the operation in progress, and what the socket has taken so far (a
  history). \<open>closed\<close> is the state of the socket.
\<close>

record writer =
  write_message_queue :: "Message list"
  writing :: "Message option"
  wire :: "Message list"
  closed :: bool

definition writer_new :: writer where
  "writer_new = \<lparr>write_message_queue = [], writing = None, wire = [], closed = False\<rparr>"

definition AsyncWrite :: "Message \<Rightarrow> writer \<Rightarrow> writer" where
  "AsyncWrite m w =
     (let is_writting = write_message_queue w \<noteq> [];
          w = w\<lparr>write_message_queue := write_message_queue w @ [m]\<rparr>
      in if \<not> is_writting then w\<lparr>writing := Some (hd (write_message_queue w))\<rparr> else w)"

text \<open>\<open>Write\<close> posts \<open>AsyncWrite\<close> of user data, and ignores a null pointer.\<close>

definition Write :: "string option \<Rightarrow> writer \<Rightarrow> writer" where
  "Write data w = (if data \<noteq> None then AsyncWrite (USERDATA, data) w else w)"

definition Close :: "writer \<Rightarrow> writer" where
  "Close w = w\<lparr>closed := True\<rparr>"

text \<open>Completion of the operation in progress, with or without an error.\<close>

definition HandleWriteMessage :: "bool \<Rightarrow> writer \<Rightarrow> writer" where
  "HandleWriteMessage ec w =
     (if ec then Close (w\<lparr>writing := None\<rparr>)
      else
        let w = w\<lparr>wire := wire w @ [hd (write_message_queue w)],
                  write_message_queue := tl (write_message_queue w), writing := None\<rparr>
        in if write_message_queue w \<noteq> [] then w\<lparr>writing := Some (hd (write_message_queue w))\<rparr> else w)"

text \<open>
  A run: messages submitted, completions while an operation is in progress, and closes
  from the reader or the heartbeat timer.
\<close>

datatype writer_event = Submit Message | Complete bool | CloseNow

fun writer_step :: "writer_event \<Rightarrow> writer \<Rightarrow> writer" where
  "writer_step (Submit m) w = AsyncWrite m w"
| "writer_step (Complete ec) w = (if writing w = None then w else HandleWriteMessage ec w)"
| "writer_step CloseNow w = Close w"

definition submitted :: "writer_event list \<Rightarrow> Message list" where
  "submitted es = concat (map (\<lambda>e. case e of Submit m \<Rightarrow> [m] | _ \<Rightarrow> []) es)"

definition writer_inv :: "writer \<Rightarrow> bool" where
  "writer_inv w \<longleftrightarrow>
     (case writing w of
        None \<Rightarrow> closed w \<or> write_message_queue w = []
      | Some m \<Rightarrow> write_message_queue w \<noteq> [] \<and> m = hd (write_message_queue w))"

lemma writer_step_inv: "writer_inv w \<Longrightarrow> writer_inv (writer_step e w)"
  by (cases e; cases "write_message_queue w")
    (auto simp: writer_inv_def AsyncWrite_def HandleWriteMessage_def Close_def Let_def
      split: if_splits list.splits option.splits)

lemma writer_step_order:
  "writer_inv w \<Longrightarrow> wire (writer_step e w) @ write_message_queue (writer_step e w) =
     wire w @ write_message_queue w @ submitted [e]"
  by (cases e; cases "write_message_queue w")
    (auto simp: writer_inv_def AsyncWrite_def HandleWriteMessage_def Close_def Let_def submitted_def
      split: if_splits list.splits option.splits)

text \<open>The write queue. At most one operation is in progress, always on the message at
  the front of the queue, and while the socket is open there is one whenever the queue is
  not empty; what has been written and what is queued make up exactly what was submitted,
  in order.\<close>

theorem writer_run:
  "let w = fold writer_step es writer_new in
   (case writing w of
      None \<Rightarrow> closed w \<or> write_message_queue w = []
    | Some m \<Rightarrow> write_message_queue w \<noteq> [] \<and> m = hd (write_message_queue w)) \<and>
   wire w @ write_message_queue w = submitted es"
proof -
  have "writer_inv (fold writer_step es writer_new) \<and>
      wire (fold writer_step es writer_new) @ write_message_queue (fold writer_step es writer_new) = submitted es"
  proof (induction es rule: rev_induct)
    case Nil
    then show ?case by (simp add: writer_inv_def writer_new_def submitted_def)
  next
    case (snoc e es)
    then show ?case
      using writer_step_inv [of "fold writer_step es writer_new" e]
        writer_step_order [of "fold writer_step es writer_new" e]
      by (simp add: submitted_def)
  qed
  then show ?thesis by (simp add: writer_inv_def Let_def)
qed

end
