(* ===== verification/AgentUtil.thy ===== *)
theory AgentUtil
  imports PathUtil Complex_Main
begin

text \<open>
  Small agent utilities of \<open>gko-src/src\<close>: \<open>subnet_mask.cpp\<close>, \<open>SpeedLimit.cpp\<close>,
  \<open>number_util.cpp\<close> and the pure part of \<open>host_info_util.cpp\<close>. Boost's address parser
  and the C library's \<open>atof\<close> are parameters; times are microseconds.
\<close>

subsection \<open>Subnets\<close>

text \<open>The loop over the mask from bit \<open>i - 1\<close> down: the number of host bits.\<close>

fun mask_loop :: "nat \<Rightarrow> u32 \<Rightarrow> nat" where
  "mask_loop 0 mask_value = 0"
| "mask_loop (Suc i) mask_value = (if \<not> bit mask_value i then Suc i else mask_loop i mask_value)"

definition host_bits :: "u32 \<Rightarrow> nat" where
  "host_bits mask_value = mask_loop 32 mask_value"

definition range_start :: "nat \<Rightarrow> u32 \<Rightarrow> u32" where
  "range_start i ip_value = push_bit i (drop_bit i ip_value)"

definition range_end :: "nat \<Rightarrow> u32 \<Rightarrow> u32" where
  "range_end i ip_value = ip_value OR mask i"

definition dotted :: "u32 \<Rightarrow> string" where
  "dotted a = show_nat (unat (drop_bit 24 a AND 255)) @ ''.'' @ show_nat (unat (drop_bit 16 a AND 255)) @
     ''.'' @ show_nat (unat (drop_bit 8 a AND 255)) @ ''.'' @ show_nat (unat (a AND 255))"

definition ParseMaskToIPRange ::
  "(string \<Rightarrow> u32 option) \<Rightarrow> string \<Rightarrow> string \<Rightarrow> string option" where
  "ParseMaskToIPRange from_string ip mask_text =
     (case from_string ip of
        None \<Rightarrow> None
      | Some ip_value \<Rightarrow>
          (case from_string mask_text of
             None \<Rightarrow> None
           | Some mask_value \<Rightarrow>
               let i = host_bits mask_value in
               Some (dotted (range_start i ip_value) @ ''-'' @ dotted (range_end i ip_value))))"

lemma mask_loop_le: "mask_loop i m \<le> i"
  by (induction i) auto

lemma mask_loop_ones: "mask_loop i m \<le> j \<Longrightarrow> j < i \<Longrightarrow> bit m j"
  by (induction i) (auto simp: less_Suc_eq split: if_splits)

lemma host_bits_prefix:
  assumes "k \<le> 32"
  shows "host_bits (NOT (mask k)) = k"
proof -
  have "mask_loop i (NOT (mask k)) = (if k \<le> i then k else i)" if "i \<le> 32" for i
    using that assms by (induction i) (auto simp: bit_simps)
  from this [of 32] show ?thesis using assms by (simp add: host_bits_def)
qed

lemma unat_range_start: "unat (range_start k a) = unat a div 2 ^ k * 2 ^ k"
proof -
  have lt: "unat a < 2 ^ 32" using unsigned_less [of a, where 'a = nat] by simp
  have "unat (range_start k a) = take_bit 32 (push_bit k (unat (drop_bit k a)))"
    unfolding range_start_def by (simp only: unsigned_push_bit_eq) simp
  also have "unat (drop_bit k a) = unat a div 2 ^ k"
    using lt by (simp only: unsigned_drop_bit_eq) (simp add: drop_bit_eq_div take_bit_nat_eq_self)
  also have "take_bit 32 (push_bit k (unat a div 2 ^ k)) = unat a div 2 ^ k * 2 ^ k"
  proof -
    have "unat a div 2 ^ k * 2 ^ k \<le> unat a" by simp
    then have "unat a div 2 ^ k * 2 ^ k < 2 ^ 32" using lt by (rule le_less_trans)
    then show ?thesis by (simp only: push_bit_eq_mult take_bit_nat_eq_self)
  qed
  finally show ?thesis .
qed

lemma unat_range_end:
  assumes "k \<le> 32"
  shows "unat (range_end k a) = unat a div 2 ^ k * 2 ^ k + (2 ^ k - 1)"
proof -
  have split: "range_end k a = range_start k a OR mask k"
    unfolding range_end_def range_start_def by (rule bit_eqI) (auto simp: bit_simps)
  have disj: "range_start k a OR mask k = range_start k a + mask k"
    by (rule disjunctive_add [symmetric]) (auto simp: range_start_def bit_simps)
  have m: "unat (mask k :: u32) = 2 ^ k - 1"
  proof -
    have "(2 :: nat) ^ k - 1 < 2 ^ 32"
      using power_increasing [of k 32 "2 :: nat"] assms by (simp add: less_le_trans)
    then have small: "take_bit 32 (mask k) = (2 ^ k - 1 :: nat)"
      by (simp only: mask_eq_exp_minus_1 take_bit_nat_eq_self)
    have "unat (of_nat (mask k) :: u32) = take_bit 32 (mask k)" by (simp add: unsigned_of_nat)
    then show ?thesis by (simp only: of_nat_mask_eq small)
  qed
  have lt: "unat a < 2 ^ 32" using unsigned_less [of a, where 'a = nat] by simp
  have "unat a div 2 ^ k * 2 ^ k + (2 ^ k - 1) < 2 ^ 32"
  proof -
    have "unat a div 2 ^ k < 2 ^ (32 - k)"
      using lt assms by (simp add: less_mult_imp_div_less flip: power_add)
    then have "(unat a div 2 ^ k + 1) * 2 ^ k \<le> 2 ^ (32 - k) * 2 ^ k"
      by (intro mult_le_mono1) simp
    also have "\<dots> = 2 ^ 32" using assms by (simp flip: power_add)
    finally show ?thesis by (simp add: algebra_simps)
  qed
  then show ?thesis
    unfolding split disj by (simp add: unat_word_ariths m unat_range_start)
qed

lemma div_eq_iff_between:
  assumes "0 < (n :: nat)"
  shows "x div n = q \<longleftrightarrow> q * n \<le> x \<and> x \<le> q * n + (n - 1)"
proof
  assume "x div n = q"
  then have "x = q * n + x mod n" by (metis div_mult_mod_eq)
  moreover have "x mod n < n" using assms by simp
  ultimately show "q * n \<le> x \<and> x \<le> q * n + (n - 1)" by linarith
next
  assume "q * n \<le> x \<and> x \<le> q * n + (n - 1)"
  then have "n * q \<le> x" "x < n * Suc q" using assms by (auto simp: algebra_simps)
  then show "x div n = q" by (rule div_nat_eqI)
qed

text \<open>a mask of \<open>k\<close> host bits gives the address range of the subnet: an address lies
  between the two ends exactly when it agrees with the given one on the masked bits.\<close>

theorem subnet_range:
  assumes k: "k \<le> 32" and m: "mask_value = NOT (mask k)"
  shows "(range_start (host_bits mask_value) ip \<le> x \<and> x \<le> range_end (host_bits mask_value) ip) \<longleftrightarrow>
    x AND mask_value = ip AND mask_value"
proof -
  have h: "host_bits mask_value = k" using host_bits_prefix [OF k] m by simp
  have and_eq: "y AND mask_value = push_bit k (drop_bit k y)" for y :: u32
    unfolding m by (rule bit_eqI) (auto simp: bit_simps)
  have "x AND mask_value = ip AND mask_value \<longleftrightarrow> unat (range_start k x) = unat (range_start k ip)"
    unfolding and_eq range_start_def by (simp only: word_unat_eq_iff)
  also have "\<dots> \<longleftrightarrow> unat x div 2 ^ k = unat ip div 2 ^ k" unfolding unat_range_start by simp
  also have "\<dots> \<longleftrightarrow> unat ip div 2 ^ k * 2 ^ k \<le> unat x \<and> unat x \<le> unat ip div 2 ^ k * 2 ^ k + (2 ^ k - 1)"
    by (rule div_eq_iff_between) simp
  finally show ?thesis
    unfolding h word_le_nat_alt unat_range_start unat_range_end [OF k] by blast
qed

lemma subnet_range_witness:
  "(range_start (host_bits 0xffffff00) 0x0a010203 \<le> 0x0a0102fe \<and>
    0x0a0102fe \<le> range_end (host_bits 0xffffff00) 0x0a010203) \<longleftrightarrow>
   (0x0a0102fe :: u32) AND 0xffffff00 = 0x0a010203 AND 0xffffff00"
  by (rule subnet_range [of 8]) (simp_all add: mask_eq_exp_minus_1)

subsection \<open>Bandwidth\<close>

text \<open>
  The amount since the window began and the window's start, in microseconds. The call
  gets the clock \<open>now\<close> and returns the time it sleeps; the clock read after the sleep,
  \<open>later\<close>, starts the next window. \<open>int lamt_\<close> does not overflow at the rates used.
\<close>

record SpeedLimit =
  lamt :: int
  bw_start :: int

definition BandwidthLimit :: "int \<Rightarrow> int \<Rightarrow> int \<Rightarrow> int \<Rightarrow> SpeedLimit \<Rightarrow> int \<times> SpeedLimit" where
  "BandwidthLimit amount limit_rate now later s =
     (if amount \<le> 0 \<or> limit_rate \<le> 0 then (0, s)
      else
        let s = s\<lparr>lamt := lamt s + amount\<rparr>; bw_end = now - bw_start s in
        if bw_end = 0 then (0, s)
        else
          let waitlen = 1000000 * lamt s div limit_rate;
              wait = (if waitlen > bw_end then waitlen - bw_end else 0)
          in (wait, s\<lparr>lamt := 0, bw_start := later\<rparr>))"

text \<open>The bandwidth limiter. When a call closes a window, the time from the window's
  start to the end of the sleep is enough for the amount at the limit: it is never more
  than \<open>limit_rate\<close> bytes a second over the window, up to the microsecond rounding; and
  a call that does not close it keeps the amount for the next.\<close>

theorem BandwidthLimit_rate:
  assumes "0 < amount" "0 < limit_rate" "0 \<le> lamt s" "bw_start s \<le> now"
    and b: "BandwidthLimit amount limit_rate now later s = (wait, s')"
  shows "0 \<le> wait \<and>
    (if now = bw_start s then s' = s\<lparr>lamt := lamt s + amount\<rparr> \<and> wait = 0
     else lamt s' = 0 \<and> bw_start s' = later \<and>
       1000000 * (lamt s + amount) < limit_rate * (now + wait - bw_start s + 1))"
proof (cases "now = bw_start s")
  case True
  then show ?thesis using assms by (auto simp: BandwidthLimit_def Let_def)
next
  case False
  let ?w = "1000000 * (lamt s + amount) div limit_rate"
  have w: "wait = (if ?w > now - bw_start s then ?w - (now - bw_start s) else 0)"
      "s' = s\<lparr>lamt := 0, bw_start := later\<rparr>"
    using assms False by (auto simp: BandwidthLimit_def Let_def)
  have "1000000 * (lamt s + amount) < limit_rate * (?w + 1)"
    using assms(2) by (metis add.commute distrib_left int_distrib(2) mult.commute mult.right_neutral
        mult_div_mod_eq pos_mod_bound add_less_cancel_left)
  moreover have "limit_rate * (?w + 1) \<le> limit_rate * (now + wait - bw_start s + 1)"
    using assms(2) w(1) by (intro mult_left_mono) auto
  ultimately show ?thesis using False w by auto
qed

lemma BandwidthLimit_rate_witness:
  "fst (BandwidthLimit 1000 100 1000000 9000000 \<lparr>lamt = 500, bw_start = 0\<rparr>) = 14000000 \<and>
   1000000 * (500 + 1000) < 100 * (1000000 + 14000000 - 0 + (1 :: int))"
  using BandwidthLimit_rate [of 1000 100 "\<lparr>lamt = 500, bw_start = 0\<rparr>" 1000000 9000000 14000000
      "\<lparr>lamt = 0, bw_start = 9000000\<rparr>"]
  by (simp add: BandwidthLimit_def)

subsection \<open>Machine rooms\<close>

text \<open>\<open>find\<close> and \<open>rfind\<close> of a text: the first and the last position where it occurs.\<close>

definition occurs_at :: "string \<Rightarrow> string \<Rightarrow> nat \<Rightarrow> bool" where
  "occurs_at pat s i \<longleftrightarrow> i + length pat \<le> length s \<and> take (length pat) (drop i s) = pat"

definition find_text :: "string \<Rightarrow> string \<Rightarrow> nat option" where
  "find_text pat s = List.find (occurs_at pat s) [0..<Suc (length s)]"

definition rfind_text :: "string \<Rightarrow> string \<Rightarrow> nat option" where
  "rfind_text pat s = List.find (occurs_at pat s) (rev [0..<Suc (length s)])"

definition get_local_machine_room :: "string \<Rightarrow> string option" where
  "get_local_machine_room hostname =
     (if hostname = [] then None
      else
        let hostname = (case rfind_text ''.baidu.com'' hostname of
                          None \<Rightarrow> hostname | Some index \<Rightarrow> take index hostname)
        in case rfind_text ''.'' hostname of
             None \<Rightarrow> None
           | Some index \<Rightarrow>
               let machine_room = drop (index + 1) hostname in
               if machine_room = ''vm'' then map_option (\<lambda>index. take index hostname) (find_text ''-'' hostname)
               else Some machine_room)"

text \<open>
  The position after the last character that is no digit; the text is cut there only
  when that leaves out more than one character.
\<close>

fun digit_loop :: "string \<Rightarrow> nat \<Rightarrow> nat" where
  "digit_loop s 0 = 0"
| "digit_loop s (Suc i) = (if is_digit (s ! i) then digit_loop s i else Suc i)"

definition trim_machine_room_digit :: "string \<Rightarrow> string" where
  "trim_machine_room_digit s =
     (let index = digit_loop s (length s) in
      if int index < int (length s) - 1 then take index s else s)"

lemma trim_digit_examples:
  "trim_machine_room_digit ''nj02'' = ''nj''" "trim_machine_room_digit ''nj2'' = ''nj2''"
  "get_local_machine_room ''a-b.nj02.baidu.com'' = Some ''nj02''"
  "get_local_machine_room ''nj03-b.vm.baidu.com'' = Some ''nj03''"
  by code_simp+

subsection \<open>Byte counts\<close>

definition readable_unit :: "int \<Rightarrow> int \<times> string" where
  "readable_unit bytes =
     (if bytes \<ge> 1024 * 1024 * 1024 * 1024 then (1024 * 1024 * 1024 * 1024, ''TB'')
      else if bytes \<ge> 1024 * 1024 * 1024 then (1024 * 1024 * 1024, ''GB'')
      else if bytes \<ge> 1024 * 1024 then (1024 * 1024, ''MB'')
      else if bytes \<ge> 1024 then (1024, ''KB'')
      else (1, ''B''))"

text \<open>\<open>print2\<close> is the C library's \<open>%.2f\<close>.\<close>

definition BytesToReadable :: "(real \<Rightarrow> string) \<Rightarrow> int \<Rightarrow> string" where
  "BytesToReadable print2 bytes =
     (let (dv, unit) = readable_unit bytes in take 19 (print2 (of_int bytes / of_int dv) @ unit))"

text \<open>The unit a suffix stands for; the argument must not be empty (the code reads its last character).\<close>

definition suffix_unit :: "string \<Rightarrow> int \<Rightarrow> int" where
  "suffix_unit s unit =
     (let c = last s in
      if c = CHR ''M'' \<or> c = CHR ''m'' then 1024 * 1024
      else if c = CHR ''K'' \<or> c = CHR ''k'' then 1024
      else if c = CHR ''G'' \<or> c = CHR ''g'' then 1024 * 1024 * 1024
      else if c = CHR ''T'' \<or> c = CHR ''t'' then 1024 * 1024 * 1024 * 1024
      else if c = CHR ''B'' \<or> c = CHR ''b'' then 1
      else unit)"

definition truncate :: "real \<Rightarrow> int" where
  "truncate x = (if x < 0 then - \<lfloor>- x\<rfloor> else \<lfloor>x\<rfloor>)"

definition ReadableToBytes :: "(string \<Rightarrow> real) \<Rightarrow> string \<Rightarrow> int \<Rightarrow> int" where
  "ReadableToBytes atof s unit = truncate (atof (c_str s) * of_int (suffix_unit s unit))"

lemma readable_unit_scale:
  assumes "0 \<le> bytes"
  shows "fst (readable_unit bytes) \<le> max 1 bytes" and "bytes < 1024 ^ 4 \<Longrightarrow> bytes < 1024 * fst (readable_unit bytes)"
  using assms by (auto simp: readable_unit_def)

end
