(* ===== verification/EventLoop.thy ===== *)
theory EventLoop
  imports Prelude
begin

text \<open>
  The event loop of the tracker's embedded HTTP server
  (\<open>gko-tracker-src/minihttpd/src/eventloop.cpp\<close>): timers installed by the loop's own
  thread or handed over by other threads as pending functors, cancellation, and the
  heartbeat that reclaims one-shot timers. libevent's \<open>event_add\<close> is the environment:
  its return code is an argument. A failing \<open>assert\<close> or a \<open>LOG(FATAL)\<close> is \<open>None\<close>.
  An interval is given in microseconds, the unit the code converts it to.
\<close>

record timer_event =
  persist :: bool
  tv_sec :: int
  tv_usec :: int
  cb_func :: nat
  cb_arg :: nat

datatype functor_call = InstallTimer u64 int nat int nat | InnerCancel u64

record EventLoop =
  timer :: "(u64, timer_event) assoc"
  oneShotTimerDeadLine :: "(u64, int) assoc"
  timerNumsCreated :: u64
  pendingFunctors :: "functor_call list"

definition kMicroSecondsPerSecond :: int where
  "kMicroSecondsPerSecond = 1000 * 1000"

definition new_EventLoop :: EventLoop where
  "new_EventLoop = \<lparr> timer = [], oneShotTimerDeadLine = [], timerNumsCreated = 0, pendingFunctors = [] \<rparr>"

definition newTimerId :: "EventLoop \<Rightarrow> u64 \<times> EventLoop" where
  "newTimerId l = (let n = timerNumsCreated l + 1 in (n, l\<lparr>timerNumsCreated := n\<rparr>))"

text \<open>\<open>event_new\<close>: a persistent timer for type 0, a one-shot timer for type 1, no event otherwise.\<close>

definition event_new :: "int \<Rightarrow> int \<Rightarrow> nat \<Rightarrow> nat \<Rightarrow> timer_event option" where
  "event_new type interval cb arg =
    (if type = 0 \<or> type = 1
     then Some \<lparr> persist = (type = 0), tv_sec = interval sdiv kMicroSecondsPerSecond,
                tv_usec = interval smod kMicroSecondsPerSecond, cb_func = cb, cb_arg = arg \<rparr>
     else None)"

definition installTimerEvent :: "int \<Rightarrow> int \<Rightarrow> u64 \<Rightarrow> int \<Rightarrow> nat \<Rightarrow> int \<Rightarrow> nat \<Rightarrow> EventLoop \<Rightarrow> EventLoop option" where
  "installTimerEvent add_rc now timerId interval cb type arg l =
    (case event_new type interval cb arg of
       None \<Rightarrow> None
     | Some ev \<Rightarrow>
         if add_rc \<noteq> 0 then None
         else if has_key (timer l) timerId then None
         else let l = l\<lparr>timer := AList.update timerId ev (timer l)\<rparr> in
              Some (if type = 1
                    then l\<lparr>oneShotTimerDeadLine := AList.update timerId (now + interval) (oneShotTimerDeadLine l)\<rparr>
                    else l))"

definition innerCancel :: "u64 \<Rightarrow> EventLoop \<Rightarrow> EventLoop" where
  "innerCancel timerId l =
    (if \<not> has_key (timer l) timerId then l
     else l\<lparr>timer := AList.delete timerId (timer l),
            oneShotTimerDeadLine := AList.delete timerId (oneShotTimerDeadLine l)\<rparr>)"

text \<open>\<open>runEvery\<close> (type 0) and \<open>runAfter\<close> (type 1) on the loop's thread.\<close>

definition run_in_loop :: "int \<Rightarrow> int \<Rightarrow> int \<Rightarrow> int \<Rightarrow> nat \<Rightarrow> nat \<Rightarrow> EventLoop \<Rightarrow> (u64 \<times> EventLoop) option" where
  "run_in_loop type add_rc now interval cb arg l =
    (let (i, l) = newTimerId l in
     map_option (Pair i) (installTimerEvent add_rc now i interval cb type arg l))"

text \<open>
  From another thread the call takes an id and then, under the lock again, queues the
  installation: two steps, so that other threads may come between them.
\<close>

definition queue_install :: "u64 \<Rightarrow> int \<Rightarrow> int \<Rightarrow> nat \<Rightarrow> nat \<Rightarrow> EventLoop \<Rightarrow> EventLoop" where
  "queue_install i type interval cb arg l =
    l\<lparr>pendingFunctors := pendingFunctors l @ [InstallTimer i interval cb type arg]\<rparr>"

definition runEvery :: "bool \<Rightarrow> int \<Rightarrow> int \<Rightarrow> int \<Rightarrow> nat \<Rightarrow> nat \<Rightarrow> EventLoop \<Rightarrow> (u64 \<times> EventLoop) option" where
  "runEvery in_loop add_rc now interval cb arg l =
    (if in_loop then run_in_loop 0 add_rc now interval cb arg l
     else let (i, l) = newTimerId l in Some (i, queue_install i 0 interval cb arg l))"

definition runAfter :: "bool \<Rightarrow> int \<Rightarrow> int \<Rightarrow> int \<Rightarrow> nat \<Rightarrow> nat \<Rightarrow> EventLoop \<Rightarrow> (u64 \<times> EventLoop) option" where
  "runAfter in_loop add_rc now interval cb arg l =
    (if in_loop then run_in_loop 1 add_rc now interval cb arg l
     else let (i, l) = newTimerId l in Some (i, queue_install i 1 interval cb arg l))"

definition cancel :: "u64 \<Rightarrow> EventLoop \<Rightarrow> EventLoop" where
  "cancel timerId l = l\<lparr>pendingFunctors := pendingFunctors l @ [InnerCancel timerId]\<rparr>"

definition run_functor :: "int \<Rightarrow> int \<Rightarrow> functor_call \<Rightarrow> EventLoop \<Rightarrow> EventLoop option" where
  "run_functor add_rc now f l =
    (case f of InstallTimer i interval cb type arg \<Rightarrow> installTimerEvent add_rc now i interval cb type arg l
     | InnerCancel i \<Rightarrow> Some (innerCancel i l))"

fun run_functors :: "int \<Rightarrow> int \<Rightarrow> functor_call list \<Rightarrow> EventLoop \<Rightarrow> EventLoop option" where
  "run_functors add_rc now [] l = Some l"
| "run_functors add_rc now (f # fs) l =
    (case run_functor add_rc now f l of None \<Rightarrow> None | Some l \<Rightarrow> run_functors add_rc now fs l)"

text \<open>The queue is swapped out under the lock and run without it.\<close>

definition doPendingFunctors :: "int \<Rightarrow> int \<Rightarrow> EventLoop \<Rightarrow> EventLoop option" where
  "doPendingFunctors add_rc now l = run_functors add_rc now (pendingFunctors l) (l\<lparr>pendingFunctors := []\<rparr>)"

definition heartbeat_delta :: int where
  "heartbeat_delta = 10 * kMicroSecondsPerSecond"

fun heartbeat_loop :: "int \<Rightarrow> (u64, int) assoc \<Rightarrow> EventLoop \<Rightarrow> EventLoop option" where
  "heartbeat_loop now [] l = Some l"
| "heartbeat_loop now ((i, d) # ds) l =
    (if d + heartbeat_delta < now
     then if \<not> has_key (timer l) i then None
          else heartbeat_loop now ds (l\<lparr>timer := AList.delete i (timer l),
                 oneShotTimerDeadLine := AList.delete i (oneShotTimerDeadLine l)\<rparr>)
     else heartbeat_loop now ds l)"

definition heartbeat :: "int \<Rightarrow> EventLoop \<Rightarrow> EventLoop option" where
  "heartbeat now l = heartbeat_loop now (oneShotTimerDeadLine l) l"

fun free_loop :: "u64 list \<Rightarrow> EventLoop \<Rightarrow> EventLoop" where
  "free_loop [] l = l"
| "free_loop (i # is) l = free_loop is (l\<lparr>oneShotTimerDeadLine := AList.delete i (oneShotTimerDeadLine l),
                                        timer := AList.delete i (timer l)\<rparr>)"

definition freeTimers :: "EventLoop \<Rightarrow> EventLoop" where
  "freeTimers l = free_loop (map fst (timer l)) l"

subsection \<open>The loop and the other threads\<close>

text \<open>
  \<open>reserved\<close> holds the ids other threads took and have not queued yet, \<open>running\<close> the
  functors \<open>doPendingFunctors\<close> has swapped out and not run yet. No id is taken once the
  64-bit counter is exhausted: the code would start again at 0.
\<close>

record loop_state =
  eloop :: EventLoop
  running :: "functor_call list"
  reserved :: "u64 list"

inductive el_step :: "loop_state \<Rightarrow> loop_state \<Rightarrow> bool" where
  InLoop: "running s = [] \<Longrightarrow> timerNumsCreated (eloop s) \<noteq> - 1 \<Longrightarrow> type \<in> {0, 1} \<Longrightarrow>
    run_in_loop type 0 now interval cb arg (eloop s) = Some (i, l) \<Longrightarrow> el_step s (s\<lparr>eloop := l\<rparr>)"
| Reserve: "timerNumsCreated (eloop s) \<noteq> - 1 \<Longrightarrow> newTimerId (eloop s) = (i, l) \<Longrightarrow>
    el_step s (s\<lparr>eloop := l, reserved := i # reserved s\<rparr>)"
| Queue: "i \<in> set (reserved s) \<Longrightarrow> type \<in> {0, 1} \<Longrightarrow>
    el_step s (s\<lparr>eloop := queue_install i type interval cb arg (eloop s), reserved := remove1 i (reserved s)\<rparr>)"
| Cancel: "el_step s (s\<lparr>eloop := cancel i (eloop s)\<rparr>)"
| Swap: "running s = [] \<Longrightarrow>
    el_step s (s\<lparr>eloop := (eloop s)\<lparr>pendingFunctors := []\<rparr>, running := pendingFunctors (eloop s)\<rparr>)"
| RunFunctor: "running s = f # fs \<Longrightarrow> run_functor 0 now f (eloop s) = Some l \<Longrightarrow>
    el_step s (s\<lparr>eloop := l, running := fs\<rparr>)"
| Heartbeat: "running s = [] \<Longrightarrow> heartbeat now (eloop s) = Some l \<Longrightarrow> el_step s (s\<lparr>eloop := l\<rparr>)"

inductive_cases el_stepE: "el_step s t"

definition el_init :: "loop_state \<Rightarrow> bool" where
  "el_init s \<longleftrightarrow> s = \<lparr> eloop = new_EventLoop, running = [], reserved = [] \<rparr>"

fun install_ids :: "functor_call list \<Rightarrow> u64 list" where
  "install_ids [] = []"
| "install_ids (InstallTimer i _ _ _ _ # fs) = i # install_ids fs"
| "install_ids (InnerCancel _ # fs) = install_ids fs"

fun install_types_ok :: "functor_call list \<Rightarrow> bool" where
  "install_types_ok [] = True"
| "install_types_ok (InstallTimer _ _ _ t _ # fs) = (t \<in> {0, 1} \<and> install_types_ok fs)"
| "install_types_ok (InnerCancel _ # fs) = install_types_ok fs"

lemma install_ids_append [simp]: "install_ids (xs @ ys) = install_ids xs @ install_ids ys"
  by (induction xs rule: install_ids.induct) simp_all

lemma install_types_append [simp]:
  "install_types_ok (xs @ ys) \<longleftrightarrow> install_types_ok xs \<and> install_types_ok ys"
  by (induction xs rule: install_types_ok.induct) simp_all

definition ids_in_use :: "loop_state \<Rightarrow> u64 list" where
  "ids_in_use s = map fst (timer (eloop s)) @ install_ids (running s) @
     install_ids (pendingFunctors (eloop s)) @ reserved s"

text \<open>The deadlines are those of exactly the one-shot timers.\<close>

definition timers_ok :: "EventLoop \<Rightarrow> bool" where
  "timers_ok l \<longleftrightarrow> distinct (map fst (timer l)) \<and> distinct (map fst (oneShotTimerDeadLine l)) \<and>
     (\<forall>i. has_key (oneShotTimerDeadLine l) i \<longleftrightarrow> (\<exists>e. map_of (timer l) i = Some e \<and> \<not> persist e))"

definition el_inv :: "loop_state \<Rightarrow> bool" where
  "el_inv s \<longleftrightarrow> timers_ok (eloop s) \<and> distinct (ids_in_use s) \<and>
     (\<forall>i \<in> set (ids_in_use s). i \<le> timerNumsCreated (eloop s)) \<and>
     install_types_ok (running s) \<and> install_types_ok (pendingFunctors (eloop s))"

subsection \<open>The operations keep the timer table\<close>

lemma timers_ok_other [simp]:
  "timers_ok (l\<lparr>timerNumsCreated := n\<rparr>) = timers_ok l"
  "timers_ok (l\<lparr>pendingFunctors := fs\<rparr>) = timers_ok l"
  by (simp_all add: timers_ok_def)

lemma distinct_filter_keys:
  "distinct (map fst m @ xs) \<Longrightarrow> distinct (map fst (filter P m) @ xs)"
  by (auto simp: distinct_map_filter)

lemma distinct_sub_keys:
  "distinct (ks @ xs) \<Longrightarrow> distinct ks' \<Longrightarrow> set ks' \<subseteq> set ks \<Longrightarrow> distinct (ks' @ xs)"
  by auto

lemma install_effect:
  assumes "timers_ok l" "i \<notin> set (map fst (timer l))" "type \<in> {0, 1}"
  shows "\<exists>l'. installTimerEvent 0 now i interval cb type arg l = Some l' \<and> timers_ok l' \<and>
    map fst (timer l') = map fst (timer l) @ [i] \<and> pendingFunctors l' = pendingFunctors l \<and>
    timerNumsCreated l' = timerNumsCreated l"
proof -
  have t: "map_of (timer l) i = None" using assms(2) by (simp add: map_of_eq_None_iff)
  then have d: "map_of (oneShotTimerDeadLine l) i = None"
    using assms(1) unfolding timers_ok_def by (metis not_None_eq option.distinct(1))
  show ?thesis
    using assms t d
    by (auto simp: installTimerEvent_def event_new_def timers_ok_def update_keys simp del: not_None_eq map_of_eq_Some_iff
        intro!: distinct_keys_update)
qed

lemma delete_timer_ok:
  assumes "timers_ok l"
  shows "timers_ok (l\<lparr>timer := AList.delete i (timer l),
    oneShotTimerDeadLine := AList.delete i (oneShotTimerDeadLine l)\<rparr>)"
  using assms by (auto simp: timers_ok_def simp del: map_of_eq_Some_iff)

lemma innerCancel_ok: "timers_ok l \<Longrightarrow> timers_ok (innerCancel i l)"
  by (simp add: innerCancel_def delete_timer_ok)

lemma innerCancel_same [simp]:
  "timerNumsCreated (innerCancel i l) = timerNumsCreated l"
  "pendingFunctors (innerCancel i l) = pendingFunctors l"
  by (simp_all add: innerCancel_def)

lemma innerCancel_keys: "map fst (timer (innerCancel i l)) = filter (\<lambda>k. k \<noteq> i) (map fst (timer l))"
proof (cases "has_key (timer l) i")
  case True
  then show ?thesis by (simp add: innerCancel_def AList.delete_keys removeAll_filter_not_eq eq_commute del: not_None_eq)
next
  case False
  then have "i \<notin> set (map fst (timer l))" by (simp add: map_of_eq_None_iff)
  then have "filter (\<lambda>k. k \<noteq> i) (map fst (timer l)) = map fst (timer l)"
    by (auto simp: filter_id_conv)
  then show ?thesis using False by (simp add: innerCancel_def)
qed

definition expired :: "int \<Rightarrow> (u64, int) assoc \<Rightarrow> u64 \<Rightarrow> bool" where
  "expired now ds i \<longleftrightarrow> (case map_of ds i of None \<Rightarrow> False | Some d \<Rightarrow> d + heartbeat_delta < now)"

lemma heartbeat_loop_effect:
  assumes "timers_ok l" "distinct (map fst ds)" "\<And>i d. (i, d) \<in> set ds \<Longrightarrow> map_of (oneShotTimerDeadLine l) i = Some d"
  shows "\<exists>l'. heartbeat_loop now ds l = Some l' \<and> timers_ok l' \<and>
    timer l' = filter (\<lambda>(i, e). \<not> expired now ds i) (timer l) \<and>
    oneShotTimerDeadLine l' = filter (\<lambda>(i, d). \<not> expired now ds i) (oneShotTimerDeadLine l) \<and>
    pendingFunctors l' = pendingFunctors l \<and> timerNumsCreated l' = timerNumsCreated l"
  using assms
proof (induction now ds l rule: heartbeat_loop.induct)
  case (1 now l)
  then show ?case by (simp add: expired_def filter_id_conv case_prod_beta)
next
  case (2 now i d ds l)
  have d: "map_of (oneShotTimerDeadLine l) i = Some d" using "2.prems"(3) by simp
  then have t: "has_key (timer l) i"
    using "2.prems"(1) by (auto simp: timers_ok_def simp del: map_of_eq_Some_iff)
  have nd: "map_of ds i = None" using "2.prems"(2) by (simp add: map_of_eq_None_iff)
  let ?l = "l\<lparr>timer := AList.delete i (timer l), oneShotTimerDeadLine := AList.delete i (oneShotTimerDeadLine l)\<rparr>"
  show ?case
  proof (cases "d + heartbeat_delta < now")
    case True
    have pre: "map_of (oneShotTimerDeadLine ?l) k = Some e" if "(k, e) \<in> set ds" for k e
      using "2.prems"(2) "2.prems"(3) [of k e] that by force
    have ex: "expired now ((i, d) # ds) = (\<lambda>k. k = i \<or> expired now ds k)"
      using True nd by (auto simp: expired_def fun_eq_iff)
    show ?thesis
      using "2.IH"(1) [OF True _ delete_timer_ok [OF "2.prems"(1)] _ pre] True t "2.prems"(2)
      by (auto simp: ex AList.delete_eq eq_commute [of i] case_prod_beta conj_commute simp del: not_None_eq)
  next
    case False
    have ex: "expired now ((i, d) # ds) = expired now ds"
      using False nd by (auto simp: expired_def fun_eq_iff)
    show ?thesis
      using "2.IH"(2) [OF False "2.prems"(1)] "2.prems" False by (simp add: ex)
  qed
qed

lemma heartbeat_effect:
  assumes "timers_ok l"
  shows "\<exists>l'. heartbeat now l = Some l' \<and> timers_ok l' \<and>
    timer l' = filter (\<lambda>(i, e). \<not> expired now (oneShotTimerDeadLine l) i) (timer l) \<and>
    oneShotTimerDeadLine l' = filter (\<lambda>(i, d). \<not> expired now (oneShotTimerDeadLine l) i) (oneShotTimerDeadLine l) \<and>
    pendingFunctors l' = pendingFunctors l \<and> timerNumsCreated l' = timerNumsCreated l"
proof -
  have "distinct (map fst (oneShotTimerDeadLine l))" using assms by (simp add: timers_ok_def)
  then show ?thesis
    unfolding heartbeat_def using assms by (intro heartbeat_loop_effect) auto
qed

lemma free_loop_maps:
  "timer (free_loop ks l) = filter (\<lambda>(i, e). i \<notin> set ks) (timer l)"
  "oneShotTimerDeadLine (free_loop ks l) = filter (\<lambda>(i, d). i \<notin> set ks) (oneShotTimerDeadLine l)"
  by (induction ks l rule: free_loop.induct) (auto simp: AList.delete_eq case_prod_beta conj_commute intro: filter_cong)

lemma freeTimers_empty:
  assumes "timers_ok l"
  shows "timer (freeTimers l) = []" and "oneShotTimerDeadLine (freeTimers l) = []"
proof -
  show "timer (freeTimers l) = []"
    by (auto simp: freeTimers_def free_loop_maps filter_empty_conv intro: rev_image_eqI)
  have "i \<in> set (map fst (timer l))" if "(i, d) \<in> set (oneShotTimerDeadLine l)" for i d
  proof -
    have "has_key (oneShotTimerDeadLine l) i"
      using that by (auto simp: map_of_eq_None_iff rev_image_eqI simp del: not_None_eq)
    then obtain e where "map_of (timer l) i = Some e" using assms by (auto simp: timers_ok_def simp del: map_of_eq_Some_iff)
    then have "(i, e) \<in> set (timer l)" by (rule map_of_SomeD)
    then show ?thesis by force
  qed
  then show "oneShotTimerDeadLine (freeTimers l) = []"
    by (fastforce simp: freeTimers_def free_loop_maps filter_empty_conv)
qed

subsection \<open>Every interleaving keeps the invariant\<close>

lemma fresh_id:
  fixes c :: u64
  assumes "c \<noteq> - 1"
  shows "c < c + 1" and "i \<le> c \<Longrightarrow> i < c + 1"
proof -
  have "unat c \<noteq> 2 ^ 64 - 1"
  proof
    assume "unat c = 2 ^ 64 - 1"
    then have "word_of_nat (unat c) = (word_of_nat (2 ^ 64 - 1) :: u64)" by (rule arg_cong)
    then show False using assms by simp
  qed
  then have "unat (c + 1) = unat c + 1"
    using unsigned_less [of c, where 'a = nat] by (simp add: unat_plus_if')
  then show "c < c + 1" by (simp add: word_less_nat_alt)
  then show "i \<le> c \<Longrightarrow> i < c + 1" by simp
qed

lemma fresh_for_all:
  assumes "el_inv s" "timerNumsCreated (eloop s) \<noteq> - 1"
  shows "timerNumsCreated (eloop s) + 1 \<notin> set (ids_in_use s)"
    and "\<forall>k \<in> set (ids_in_use s). k \<le> timerNumsCreated (eloop s) + 1"
proof -
  have le: "\<forall>k \<in> set (ids_in_use s). k \<le> timerNumsCreated (eloop s)"
    using assms(1) unfolding el_inv_def by blast
  then show "timerNumsCreated (eloop s) + 1 \<notin> set (ids_in_use s)"
    using fresh_id(1) [OF assms(2)] leD by blast
  show "\<forall>k \<in> set (ids_in_use s). k \<le> timerNumsCreated (eloop s) + 1"
    using le fresh_id(2) [OF assms(2)] less_imp_le by blast
qed

lemma run_functors_return:
  assumes "timers_ok l" "install_types_ok fs" "distinct (map fst (timer l) @ install_ids fs)"
  shows "\<exists>l'. run_functors 0 now fs l = Some l' \<and> timers_ok l'"
  using assms
proof (induction "0::int" now fs l rule: run_functors.induct)
  case (1 now l)
  then show ?case by simp
next
  case (2 now f fs l)
  show ?case
  proof (cases f)
    case (InstallTimer i interval cb type arg)
    then obtain l' where "installTimerEvent 0 now i interval cb type arg l = Some l'" "timers_ok l'"
        "map fst (timer l') = map fst (timer l) @ [i]"
      using install_effect [of l i type now interval cb arg] "2.prems" by auto
    then show ?thesis
      using "2.hyps" [of l'] "2.prems" InstallTimer by (simp add: run_functor_def)
  next
    case (InnerCancel i)
    then show ?thesis
      using "2.hyps" [of "innerCancel i l"] "2.prems"
      by (auto simp: run_functor_def innerCancel_ok innerCancel_keys)
  qed
qed

lemma el_inv_init: "el_init s \<Longrightarrow> el_inv s"
  by (simp add: el_init_def el_inv_def ids_in_use_def timers_ok_def new_EventLoop_def)

lemma el_inv_step:
  assumes inv: "el_inv s" and step: "el_step s t"
  shows "el_inv t"
  using step
proof cases
  case (InLoop type now interval cb arg i l)
  let ?l = "(eloop s)\<lparr>timerNumsCreated := timerNumsCreated (eloop s) + 1\<rparr>"
  have i: "i = timerNumsCreated (eloop s) + 1" "installTimerEvent 0 now i interval cb type arg ?l = Some l"
    using InLoop by (auto simp: run_in_loop_def newTimerId_def Let_def)
  have new: "i \<notin> set (ids_in_use s)" and le: "\<forall>k \<in> set (ids_in_use s). k \<le> i"
    using fresh_for_all [OF inv InLoop(3)] i(1) by simp_all
  have "timers_ok ?l" "i \<notin> set (map fst (timer ?l))"
    using inv new by (auto simp: el_inv_def ids_in_use_def)
  from install_effect [OF this InLoop(4), of now interval cb arg]
  have l: "timers_ok l" "map fst (timer l) = map fst (timer (eloop s)) @ [i]"
      "pendingFunctors l = pendingFunctors (eloop s)" "timerNumsCreated l = i"
    using i by auto
  show ?thesis
    using inv new le InLoop(1,2) l by (auto simp: el_inv_def ids_in_use_def)
next
  case (Reserve i l)
  then have i: "i = timerNumsCreated (eloop s) + 1"
      "l = (eloop s)\<lparr>timerNumsCreated := timerNumsCreated (eloop s) + 1\<rparr>"
    by (auto simp: newTimerId_def Let_def)
  have new: "i \<notin> set (ids_in_use s)" and le: "\<forall>k \<in> set (ids_in_use s). k \<le> i"
    using fresh_for_all [OF inv Reserve(2)] i(1) by simp_all
  then show ?thesis
    using inv i Reserve(1) by (auto simp: el_inv_def ids_in_use_def)
next
  case (Queue i type interval cb arg)
  then show ?thesis
    using inv by (auto simp: el_inv_def ids_in_use_def queue_install_def dest: notin_set_remove1)
next
  case (Cancel i)
  then show ?thesis
    using inv by (simp add: el_inv_def ids_in_use_def cancel_def)
next
  case Swap
  then show ?thesis
    using inv by (simp add: el_inv_def ids_in_use_def)
next
  case (RunFunctor f fs now l)
  show ?thesis
  proof (cases f)
    case (InstallTimer i interval cb type arg)
    have "timers_ok (eloop s)" "i \<notin> set (map fst (timer (eloop s)))" "type \<in> {0, 1}"
      using inv RunFunctor(2) InstallTimer by (auto simp: el_inv_def ids_in_use_def)
    from install_effect [OF this, of now interval cb arg]
    have l: "timers_ok l" "map fst (timer l) = map fst (timer (eloop s)) @ [i]"
        "pendingFunctors l = pendingFunctors (eloop s)" "timerNumsCreated l = timerNumsCreated (eloop s)"
      using RunFunctor(3) InstallTimer by (auto simp: run_functor_def)
    show ?thesis
      using inv RunFunctor(1,2) InstallTimer l by (auto simp: el_inv_def ids_in_use_def)
  next
    case (InnerCancel i)
    then have l: "l = innerCancel i (eloop s)" using RunFunctor(3) by (simp add: run_functor_def)
    have ks: "distinct (map fst (timer l))" "set (map fst (timer l)) \<subseteq> set (map fst (timer (eloop s)))"
      using inv unfolding l innerCancel_keys by (auto simp: el_inv_def ids_in_use_def)
    have t: "ids_in_use t = map fst (timer l) @ install_ids fs @ install_ids (pendingFunctors (eloop s)) @ reserved s"
        "ids_in_use s = map fst (timer (eloop s)) @ install_ids fs @ install_ids (pendingFunctors (eloop s)) @ reserved s"
      using RunFunctor(1,2) InnerCancel l by (simp_all add: ids_in_use_def)
    have "distinct (ids_in_use t)" "set (ids_in_use t) \<subseteq> set (ids_in_use s)"
      using inv distinct_sub_keys [OF _ ks] ks(2) unfolding t el_inv_def by blast (use ks(2) in auto)
    then show ?thesis
      using RunFunctor(1,2) inv InnerCancel by (auto simp: l el_inv_def innerCancel_ok)
  qed
next
  case (Heartbeat now l)
  have ok: "timers_ok (eloop s)" using inv by (simp add: el_inv_def)
  obtain l' where l': "heartbeat now (eloop s) = Some l'" "timers_ok l'"
      "timer l' = filter (\<lambda>(i, e). \<not> expired now (oneShotTimerDeadLine (eloop s)) i) (timer (eloop s))"
      "pendingFunctors l' = pendingFunctors (eloop s)" "timerNumsCreated l' = timerNumsCreated (eloop s)"
    using heartbeat_effect [OF ok, of now] by blast
  have "distinct (map fst (timer l') @ install_ids (pendingFunctors l') @ reserved s)"
    unfolding l'(3) using inv Heartbeat(2) l'(4) by (intro distinct_filter_keys) (simp add: el_inv_def ids_in_use_def)
  then show ?thesis
    using inv Heartbeat l' by (auto simp: el_inv_def ids_in_use_def)
qed

interpretation event_loop: invariant_system el_init el_step el_inv
  by unfold_locales (auto intro: el_inv_init el_inv_step)


text \<open>A one-shot timer taken, queued and installed by another thread, due at 5 s.\<close>

definition armed :: loop_state where
  "armed = \<lparr> eloop = \<lparr> timer = [(1, \<lparr> persist = False, tv_sec = 5, tv_usec = 0, cb_func = 7, cb_arg = 8 \<rparr>)],
     oneShotTimerDeadLine = [(1, 5000000)], timerNumsCreated = 1, pendingFunctors = [] \<rparr>,
     running = [], reserved = [] \<rparr>"


end
