(* ===== verification/MiniHttpd.thy ===== *)
theory MiniHttpd
  imports Prelude "HOL-Library.Char_ord" "HOL-Library.List_Lexorder"
begin

text \<open>
  The tracker's embedded HTTP server (\<open>minihttpd/src/minihttpd.cpp\<close>, \<open>strutil.h\<close>,
  \<open>path.h\<close>) and the statistics container it serves (\<open>monitor_helper.cpp\<close>). libevent
  is the environment: a request comes in as its host, method and URI, and the reply is the
  status, reason and body given to \<open>evhttp_send_reply\<close>.
\<close>

subsection \<open>Address filter\<close>

definition is_space :: "char \<Rightarrow> bool" where
  "is_space c \<longleftrightarrow> c \<in> {CHR '' '', CHR 0x09, CHR 0x0A, CHR 0x0B, CHR 0x0C, CHR 0x0D}"

text \<open>
  The conversion \<open>%u\<close> of \<open>sscanf\<close>: white space, a sign, digits; the number saturates at
  64 bits and is stored in 32.
\<close>

definition scan_u :: "string \<Rightarrow> (u32 \<times> string) option" where
  "scan_u s =
    (let s = dropWhile is_space s;
         neg = (s \<noteq> [] \<and> hd s = CHR ''-'');
         s = (if s \<noteq> [] \<and> hd s \<in> {CHR ''-'', CHR ''+''} then tl s else s);
         n = min (read_nat s) (2 ^ 64 - 1)
     in if takeWhile is_digit s = [] then None
        else Some (if neg then - of_nat n else of_nat n, dropWhile is_digit s))"

text \<open>
  \<open>sscanf(s, "%u.%u.%u.%u", ...)\<close>: a variable the scan does not reach keeps what it
  held, and the code never initialised it; those four values are an argument.
\<close>

fun scan_quad :: "string \<Rightarrow> u32 list \<Rightarrow> u32 list" where
  "scan_quad s [] = []"
| "scan_quad s (u # us) =
    (case scan_u s of None \<Rightarrow> u # us
     | Some (v, r) \<Rightarrow> v # (if r \<noteq> [] \<and> hd r = CHR ''.'' then scan_quad (tl r) us else us))"

definition ipToUint32 :: "u32 list \<Rightarrow> string \<Rightarrow> u32" where
  "ipToUint32 uninit ipstr =
    (let v = scan_quad (c_str ipstr) uninit
     in push_bit 24 (v ! 0) + push_bit 16 (v ! 1) + push_bit 8 (v ! 2) + v ! 3)"

record MiniHttpd =
  enableIpFilter_flag :: bool
  ipRange :: "u32 list"
  uriHandlerMap :: "(string, string \<Rightarrow> string) assoc"
  responseMap :: "(string, string) assoc"

definition new_MiniHttpd :: MiniHttpd where
  "new_MiniHttpd = \<lparr> enableIpFilter_flag = False, ipRange = [], uriHandlerMap = [], responseMap = [] \<rparr>"

definition enableIpFilter :: "u32 list \<Rightarrow> bool \<Rightarrow> MiniHttpd \<Rightarrow> MiniHttpd" where
  "enableIpFilter uninit flag s =
    (let s = s\<lparr>enableIpFilter_flag := flag\<rparr> in
     if enableIpFilter_flag s \<and> ipRange s = []
     then s\<lparr>ipRange := map (ipToUint32 uninit)
            [''10.0.0.0'', ''10.255.255.255'', ''172.16.0.0'', ''172.31.255.255'',
             ''192.168.0.0'', ''192.168.255.255'', ''127.0.0.0'', ''127.255.255.255'']\<rparr>
     else s)"

text \<open>\<open>None\<close> is the read of \<open>ipRange_[i+1]\<close> past the end.\<close>

fun allow_loop :: "u32 list \<Rightarrow> u32 \<Rightarrow> bool option" where
  "allow_loop [] ip = Some False"
| "allow_loop [a] ip = (if a \<le> ip then None else Some False)"
| "allow_loop (a # b # rs) ip = (if a \<le> ip \<and> ip \<le> b then Some True else allow_loop rs ip)"

definition inAllowIps :: "u32 list \<Rightarrow> string \<Rightarrow> MiniHttpd \<Rightarrow> bool option" where
  "inAllowIps uninit ipstr s = allow_loop (ipRange s) (ipToUint32 uninit ipstr)"

subsection \<open>Paths\<close>

definition pathCharacterMap :: "string" where
  "pathCharacterMap = [CHR ''.'', CHR ''-'', CHR ''_''] @ map char_of [97 ..< 123::nat] @
     map char_of [65 ..< 91::nat] @ map char_of [48 ..< 58::nat]"

definition checkPath :: "string \<Rightarrow> bool" where
  "checkPath path = (if path = [] then False else list_all (\<lambda>c. c \<in> set pathCharacterMap) path)"

fun find_question :: "nat \<Rightarrow> string \<Rightarrow> nat" where
  "find_question i [] = 0"
| "find_question i (c # cs) = (if c = CHR ''?'' then i else find_question (Suc i) cs)"

text \<open>The result is path, query and fragment; the fragment is never set.\<close>

definition parseUri :: "string \<Rightarrow> string \<times> string \<times> string" where
  "parseUri uri =
    (let uri_str = c_str uri in
     if uri_str = [] \<or> hd uri_str \<noteq> CHR ''/'' then ([], [], [])
     else let path_end = find_question 1 (tl uri_str) in
       if path_end = 0 then (drop 1 uri_str, [], [])
       else (take (path_end - 1) (drop 1 uri_str), drop (path_end + 1) uri_str, []))"

definition path_hint :: string where
  "path_hint = ''path don't match ([A-Za-z0-9.-_]+)''"

definition setResponse :: "string \<Rightarrow> string \<Rightarrow> MiniHttpd \<Rightarrow> bool \<times> string \<times> MiniHttpd" where
  "setResponse path response s =
    (if \<not> checkPath path then (False, path_hint, s)
     else if response = [] then (False, ''response is empty'', s)
     else (True, ''ok'', s\<lparr>responseMap := AList.update path response (responseMap s)\<rparr>))"

definition setCallBack :: "string \<Rightarrow> (string \<Rightarrow> string) \<Rightarrow> MiniHttpd \<Rightarrow> bool \<times> string \<times> MiniHttpd" where
  "setCallBack path cb s =
    (if \<not> checkPath path then (False, path_hint, s)
     else (True, ''ok'', s\<lparr>uriHandlerMap := AList.update path cb (uriHandlerMap s)\<rparr>))"

subsection \<open>Requests\<close>

record http_request =
  remote_host :: string
  is_get :: bool
  uri :: string

record http_reply =
  code :: nat
  reason :: string
  body :: string

definition newline :: string where
  "newline = [CHR 0x0A]"

text \<open>\<open>std::map\<close> iterates in key order.\<close>

definition getSupportedUri :: "MiniHttpd \<Rightarrow> string" where
  "getSupportedUri s = ''[supported uri:]'' @ newline @
     concat (map (\<lambda>p. p @ newline) (sort (map fst (responseMap s)))) @ newline @
     concat (map (\<lambda>p. p @ newline) (sort (map fst (uriHandlerMap s))))"

definition getFromLocal :: "string \<Rightarrow> MiniHttpd \<Rightarrow> string option" where
  "getFromLocal path s = map_of (responseMap s) path"

definition getFromCallBack :: "string \<Rightarrow> string \<Rightarrow> MiniHttpd \<Rightarrow> string option" where
  "getFromCallBack path query s = map_option (\<lambda>func. func query) (map_of (uriHandlerMap s) path)"

definition requestCallback :: "u32 list \<Rightarrow> http_request \<Rightarrow> MiniHttpd \<Rightarrow> http_reply option" where
  "requestCallback uninit req s =
    (case (if enableIpFilter_flag s then inAllowIps uninit (remote_host req) s else Some True) of
       None \<Rightarrow> None
     | Some False \<Rightarrow>
         Some \<lparr> code = 503, reason = ''forbidden'', body = remote_host req @ '' forbidden!!!'' @ newline \<rparr>
     | Some True \<Rightarrow>
         if \<not> is_get req then Some \<lparr> code = 200, reason = ''OK'', body = ''only GET method supported'' \<rparr>
         else let (path, query, fragment) = parseUri (uri req);
                  response = (if path = [] then getSupportedUri s
                              else case getFromLocal path s of Some r \<Rightarrow> r
                                   | None \<Rightarrow> (case getFromCallBack path query s of Some r \<Rightarrow> r | None \<Rightarrow> []))
              in Some \<lparr> code = 200, reason = ''OK'', body = (if response = [] then ''not found'' else response) \<rparr>)"

subsection \<open>Reading a dotted_quad quad\<close>

lemma digit_not_space: "is_digit c \<Longrightarrow> \<not> is_space c \<and> c \<notin> {CHR ''-'', CHR ''+'', CHR ''.''}"
  by (auto simp: is_digit_def is_space_def)

lemma scan_u_show:
  assumes "n < 2 ^ 64" "r = [] \<or> \<not> is_digit (hd r)"
  shows "scan_u (show_nat n @ r) = Some (of_nat n, r)"
proof -
  obtain c cs where c: "show_nat n = c # cs" using show_nat_nonempty by (cases "show_nat n") auto
  have dig: "\<forall>x \<in> set (show_nat n). is_digit x" using show_nat_digits by blast
  then have first: "\<not> is_space c" "c \<noteq> CHR ''-''" "c \<noteq> CHR ''+''" "is_digit c"
    using digit_not_space [of c] c by auto
  have tw: "takeWhile is_digit (show_nat n @ r) = show_nat n" "dropWhile is_digit (show_nat n @ r) = r"
    using dig assms(2) by (cases r; simp add: takeWhile_append dropWhile_append)+
  have rd: "read_nat (show_nat n @ r) = n"
    using read_show_nat [of n] dig tw by (simp add: read_nat_def takeWhile_eq_all_conv [THEN iffD2])
  have dw: "dropWhile is_space (show_nat n @ r) = show_nat n @ r" using c first by simp
  show ?thesis
    unfolding scan_u_def dw using assms(1) c first tw rd by (simp add: Let_def)
qed

definition dotted_quad :: "nat \<Rightarrow> nat \<Rightarrow> nat \<Rightarrow> nat \<Rightarrow> string" where
  "dotted_quad a b c d = show_nat a @ ''.'' @ show_nat b @ ''.'' @ show_nat c @ ''.'' @ show_nat d"

lemma dotted_quad_no_nul: "CHR 0x00 \<notin> set (dotted_quad a b c d)"
  using show_nat_digits by (fastforce simp: dotted_quad_def is_digit_def)

lemma ipToUint32_dotted:
  assumes "a < 256" "b < 256" "c < 256" "d < 256"
  shows "ipToUint32 [u0, u1, u2, u3] (dotted_quad a b c d) = of_nat (a * 2 ^ 24 + b * 2 ^ 16 + c * 2 ^ 8 + d)"
proof -
  have dot: "\<not> is_digit CHR ''.''" by (simp add: is_digit_def)
  have "scan_quad (dotted_quad a b c d) [u0, u1, u2, u3] = [of_nat a, of_nat b, of_nat c, of_nat d]"
    using assms scan_u_show [of d "[]"] by (simp add: dotted_quad_def scan_u_show dot)
  then show ?thesis
    by (simp add: ipToUint32_def c_str_id dotted_quad_no_nul Let_def push_bit_eq_mult)
qed

definition private_ranges :: "u32 list" where
  "private_ranges = [0x0A000000, 0x0AFFFFFF, 0xAC100000, 0xAC1FFFFF, 0xC0A80000, 0xC0A8FFFF, 0x7F000000, 0x7FFFFFFF]"

lemma default_ranges:
  "map (ipToUint32 [u0, u1, u2, u3])
     [''10.0.0.0'', ''10.255.255.255'', ''172.16.0.0'', ''172.31.255.255'',
      ''192.168.0.0'', ''192.168.255.255'', ''127.0.0.0'', ''127.255.255.255''] = private_ranges"
proof -
  have "map (\<lambda>(a, b, c, d). ipToUint32 [u0, u1, u2, u3] (dotted_quad a b c d))
     [(10, 0, 0, 0), (10, 255, 255, 255), (172, 16, 0, 0), (172, 31, 255, 255),
      (192, 168, 0, 0), (192, 168, 255, 255), (127, 0, 0, 0), (127, 255, 255, 255)] = private_ranges"
    by (simp add: ipToUint32_dotted private_ranges_def)
  moreover have "dotted_quad 10 0 0 0 = ''10.0.0.0''" "dotted_quad 10 255 255 255 = ''10.255.255.255''"
      "dotted_quad 172 16 0 0 = ''172.16.0.0''" "dotted_quad 172 31 255 255 = ''172.31.255.255''"
      "dotted_quad 192 168 0 0 = ''192.168.0.0''" "dotted_quad 192 168 255 255 = ''192.168.255.255''"
      "dotted_quad 127 0 0 0 = ''127.0.0.0''" "dotted_quad 127 255 255 255 = ''127.255.255.255''"
    by code_simp+
  ultimately show ?thesis by simp
qed

definition private_address :: "nat \<Rightarrow> nat \<Rightarrow> bool" where
  "private_address a b \<longleftrightarrow> a = 10 \<or> (a = 172 \<and> 16 \<le> b \<and> b \<le> 31) \<or> (a = 192 \<and> b = 168) \<or> a = 127"

lemma allow_private:
  assumes "a < 256" "b < 256" "c < 256" "d < 256"
  shows "allow_loop private_ranges (of_nat (a * 2 ^ 24 + b * 2 ^ 16 + c * 2 ^ 8 + d)) = Some (private_address a b)"
proof -
  let ?n = "a * 2 ^ 24 + b * 2 ^ 16 + c * 2 ^ 8 + d"
  have n: "?n < 2 ^ 32" using assms by simp
  have u: "unat (of_nat ?n :: u32) = ?n"
    using n by (simp add: unat_of_nat take_bit_nat_eq_self del: of_nat_add of_nat_mult)
  have le: "(w \<le> (of_nat ?n :: u32)) = (unat w \<le> ?n)" "((of_nat ?n :: u32) \<le> w) = (?n \<le> unat w)" for w :: u32
    unfolding word_le_nat_alt u by simp_all
  have r1: "(167772160 \<le> ?n \<and> ?n \<le> 184549375) = (a = 10)"
    using assms by (safe; simp)
  have r2: "(2886729728 \<le> ?n \<and> ?n \<le> 2887778303) = (a = 172 \<and> 16 \<le> b \<and> b \<le> 31)"
    using assms by (cases "a = 172") (auto; simp)+
  have r3: "(3232235520 \<le> ?n \<and> ?n \<le> 3232301055) = (a = 192 \<and> b = 168)"
    using assms by (cases "a = 192") (auto; simp)+
  have r4: "(2130706432 \<le> ?n \<and> ?n \<le> 2147483647) = (a = 127)"
    using assms by (safe; simp)
  show ?thesis
    unfolding private_ranges_def allow_loop.simps le private_address_def using r1 r2 r3 r4 by simp
qed

subsection \<open>What the server answers\<close>

datatype http_op = OSet string string | OCallBack string "string \<Rightarrow> string" | OFilter bool

text \<open>The server after a history of calls, the newest first.\<close>

fun httpd_after :: "u32 list \<Rightarrow> http_op list \<Rightarrow> MiniHttpd" where
  "httpd_after u [] = new_MiniHttpd"
| "httpd_after u (OSet p r # ops) = snd (snd (setResponse p r (httpd_after u ops)))"
| "httpd_after u (OCallBack p f # ops) = snd (snd (setCallBack p f (httpd_after u ops)))"
| "httpd_after u (OFilter b # ops) = enableIpFilter u b (httpd_after u ops)"

text \<open>The newest accepted response and call-back of a path, and the newest filter setting.\<close>

fun newest_response :: "string \<Rightarrow> http_op list \<Rightarrow> string option" where
  "newest_response p [] = None"
| "newest_response p (OSet q r # ops) =
    (if q = p \<and> checkPath p \<and> r \<noteq> [] then Some r else newest_response p ops)"
| "newest_response p (_ # ops) = newest_response p ops"

fun newest_callback :: "string \<Rightarrow> http_op list \<Rightarrow> (string \<Rightarrow> string) option" where
  "newest_callback p [] = None"
| "newest_callback p (OCallBack q f # ops) = (if q = p \<and> checkPath p then Some f else newest_callback p ops)"
| "newest_callback p (_ # ops) = newest_callback p ops"

fun newest_filter :: "http_op list \<Rightarrow> bool" where
  "newest_filter [] = False"
| "newest_filter (OFilter b # ops) = b"
| "newest_filter (_ # ops) = newest_filter ops"

lemma setResponse_state:
  "snd (snd (setResponse p r s)) =
    (if checkPath p \<and> r \<noteq> [] then s\<lparr>responseMap := AList.update p r (responseMap s)\<rparr> else s)"
  by (simp add: setResponse_def)

lemma setCallBack_state:
  "snd (snd (setCallBack p f s)) =
    (if checkPath p then s\<lparr>uriHandlerMap := AList.update p f (uriHandlerMap s)\<rparr> else s)"
  by (simp add: setCallBack_def)

lemma httpd_after_maps:
  "map_of (responseMap (httpd_after u ops)) p = newest_response p ops"
  "map_of (uriHandlerMap (httpd_after u ops)) p = newest_callback p ops"
  "enableIpFilter_flag (httpd_after u ops) = newest_filter ops"
proof (induction ops)
  case Nil
  { case 1 show ?case by (simp add: new_MiniHttpd_def) }
  { case 2 show ?case by (simp add: new_MiniHttpd_def) }
  { case 3 show ?case by (simp add: new_MiniHttpd_def) }
next
  case (Cons op ops)
  note eqs = setResponse_state setCallBack_state enableIpFilter_def Let_def
  { case 1 show ?case using Cons by (cases op) (simp_all add: eqs) }
  { case 2 show ?case using Cons by (cases op) (simp_all add: eqs) }
  { case 3 show ?case using Cons by (cases op) (simp_all add: eqs) }
qed

lemma httpd_after_ranges:
  assumes u: "u = [u0, u1, u2, u3]"
  shows "ipRange (httpd_after u ops) = private_ranges \<or>
     (ipRange (httpd_after u ops) = [] \<and> \<not> enableIpFilter_flag (httpd_after u ops))"
proof (induction ops)
  case Nil
  then show ?case by (simp add: new_MiniHttpd_def)
next
  case (Cons op ops)
  have d: "ipRange (enableIpFilter u b s) = (if b \<and> ipRange s = [] then private_ranges else ipRange s)" for b s
    unfolding enableIpFilter_def u default_ranges by (simp add: Let_def)
  have fl: "enableIpFilter_flag (enableIpFilter u b s) = b" for b s
    unfolding enableIpFilter_def by (simp add: Let_def)
  have "private_ranges \<noteq> []" by (simp add: private_ranges_def)
  then show ?case
    using Cons by (cases op) (auto simp: setResponse_state setCallBack_state d fl)
qed

lemma allow_dotted:
  assumes "a < 256" "b < 256" "c < 256" "d < 256"
  shows "allow_loop private_ranges (ipToUint32 [u0, u1, u2, u3] (dotted_quad a b c d)) = Some (private_address a b)"
  by (simp only: ipToUint32_dotted [OF assms] allow_private [OF assms])

lemma find_question_spec:
  "find_question i s = (if CHR ''?'' \<in> set s then i + length (takeWhile (\<lambda>c. c \<noteq> CHR ''?'') s) else 0)"
  by (induction i s rule: find_question.induct) auto

lemma parseUri_query:
  assumes "CHR ''?'' \<notin> set path" "CHR 0x00 \<notin> set (path @ query)"
  shows "parseUri (''/'' @ path @ ''?'' @ query) = (path, query, [])"
proof -
  have tw: "takeWhile (\<lambda>c. c \<noteq> CHR ''?'') (path @ CHR ''?'' # query) = path"
    using assms(1) by (subst takeWhile_append2) auto
  show ?thesis
    using assms by (simp add: parseUri_def c_str_id find_question_spec tw Let_def)
qed

text \<open>What a GET for a path with a query is answered, after any history of
  registrations and filter settings and for a client given by its dotted_quad address: 503
  exactly when the filter is on and the address is in none of the private ranges;
  otherwise the newest registered response of the path, else what its newest call-back
  returns for the query, and \<open>not found\<close> when there is neither or the call-back returns
  nothing. Registrations the path or response check refused leave no trace, and no read of
  the range table is out of bounds.\<close>

theorem httpd_answer:
  assumes "a < 256" "b < 256" "c < 256" "d < 256"
    and "path \<noteq> []" "CHR ''?'' \<notin> set path" "CHR 0x00 \<notin> set (path @ query)"
  shows "requestCallback [u0, u1, u2, u3]
      \<lparr> remote_host = dotted_quad a b c d, is_get = True, uri = ''/'' @ path @ ''?'' @ query \<rparr>
      (httpd_after [u0, u1, u2, u3] ops) =
    Some (if newest_filter ops \<and> \<not> (a = 10 \<or> (a = 172 \<and> 16 \<le> b \<and> b \<le> 31) \<or> (a = 192 \<and> b = 168) \<or> a = 127)
      then \<lparr> code = 503, reason = ''forbidden'', body = dotted_quad a b c d @ '' forbidden!!!'' @ newline \<rparr>
      else \<lparr> code = 200, reason = ''OK'', body =
        (case newest_response path ops of Some r \<Rightarrow> r
         | None \<Rightarrow> (case newest_callback path ops of None \<Rightarrow> ''not found''
             | Some f \<Rightarrow> if f query = [] then ''not found'' else f query)) \<rparr>)"
proof -
  let ?u = "[u0, u1, u2, u3]" and ?s = "httpd_after [u0, u1, u2, u3] ops"
  have f: "(if enableIpFilter_flag ?s then inAllowIps ?u (dotted_quad a b c d) ?s else Some True) =
      Some (\<not> newest_filter ops \<or> private_address a b)"
    using httpd_after_ranges [of ?u u0 u1 u2 u3 ops] assms(1-4)
    by (auto simp: httpd_after_maps inAllowIps_def allow_dotted)
  have r: "newest_response path ops = Some r \<Longrightarrow> r \<noteq> []" for r
    by (induction path ops rule: newest_response.induct) (auto split: if_splits)
  show ?thesis
    using assms(5) r
    unfolding requestCallback_def http_request.simps f parseUri_query [OF assms(6,7)]
    by (auto simp: Let_def getFromLocal_def getFromCallBack_def httpd_after_maps private_address_def
        split: option.splits bool.splits)
qed

lemma httpd_answer_witness:
  "requestCallback [0, 0, 0, 0] \<lparr> remote_host = dotted_quad 10 1 2 3, is_get = True, uri = ''/'' @ ''a'' @ ''?'' @ ''q=1'' \<rparr>
      (httpd_after [0, 0, 0, 0] [OFilter True, OCallBack ''a'' (\<lambda>q. q)]) =
    Some \<lparr> code = 200, reason = ''OK'', body = ''q=1'' \<rparr>"
proof -
  have "checkPath ''a''" by code_simp
  then show ?thesis
    by (subst httpd_answer) simp_all
qed

subsection \<open>Strings and paths\<close>

definition StringTrimLeft :: "string \<Rightarrow> string" where
  "StringTrimLeft str = dropWhile is_space str"

fun trim_end :: "string \<Rightarrow> nat \<Rightarrow> nat" where
  "trim_end str 0 = 0"
| "trim_end str (Suc n) = (if is_space (str ! n) then trim_end str n else Suc n)"

text \<open>\<open>end_pos + 1\<close> counts the characters kept.\<close>

definition StringTrimRight :: "string \<Rightarrow> string" where
  "StringTrimRight str = take (trim_end str (length str)) str"

definition StringTrim :: "string \<Rightarrow> string" where
  "StringTrim str =
    (let start_pos = length (takeWhile is_space str); end_pos = length str in
     if start_pos = end_pos then []
     else take (trim_end str end_pos - start_pos) (drop start_pos str))"

definition StringToLower :: "string \<Rightarrow> string" where
  "StringToLower s = map (\<lambda>c. let n = (of_char c :: nat) in if 65 \<le> n \<and> n \<le> 90 then char_of (n + 32) else c) s"

lemma trim_end_take: "n \<le> length str \<Longrightarrow> take (trim_end str n) str = rev (dropWhile is_space (rev (take n str)))"
  by (induction n) (auto simp: take_Suc_conv_app_nth)

lemma StringTrimRight_rev: "StringTrimRight str = rev (dropWhile is_space (rev str))"
  by (simp add: StringTrimRight_def trim_end_take)

lemma trim_end_le: "trim_end str n \<le> n"
  by (induction n) auto

lemma StringTrim_both: "StringTrim str = StringTrimRight (StringTrimLeft str)"
proof (cases "dropWhile is_space str = []")
  case True
  then have "length (takeWhile is_space str) = length str"
    by (metis append_Nil2 takeWhile_dropWhile_id)
  then show ?thesis
    using True by (simp add: StringTrim_def StringTrimLeft_def StringTrimRight_def Let_def)
next
  case False
  let ?k = "length (takeWhile is_space str)"
  have d: "drop ?k str = dropWhile is_space str" by (simp add: dropWhile_eq_drop)
  have ne: "?k \<noteq> length str" using False d by (metis drop_all order_refl)
  have "trim_end str (?k + n) = ?k + trim_end (drop ?k str) n"
    if "n \<le> length (drop ?k str)" "n > 0" for n
    using that
  proof (induction n)
    case (Suc n)
    have "\<not> is_space (drop ?k str ! 0)" using False d by (simp add: hd_conv_nth [symmetric] hd_dropWhile)
    then show ?case using Suc by (cases "n = 0") auto
  qed simp
  from this [of "length (drop ?k str)"] have "trim_end str (length str) = ?k + trim_end (drop ?k str) (length (drop ?k str))"
    using ne False d by (metis length_greater_0_conv length_takeWhile_le le_add_diff_inverse length_drop order_refl)
  then show ?thesis
    using ne d by (simp add: StringTrim_def StringTrimLeft_def StringTrimRight_def Let_def)
qed

fun last_separator :: "string \<Rightarrow> nat \<Rightarrow> nat" where
  "last_separator s 0 = 0"
| "last_separator s (Suc i) = (if s ! i = CHR ''/'' then Suc i else last_separator s i)"

text \<open>\<open>i + 1\<close> of the code: the position after the last separator, 0 when there is none.\<close>

definition getBaseName :: "string \<Rightarrow> string" where
  "getBaseName filepath = (let s = c_str filepath in drop (last_separator s (length s)) s)"

definition getDirectory :: "string \<Rightarrow> string" where
  "getDirectory filepath =
    (let s = c_str filepath; i = last_separator s (length s) in if 0 < i then take i s else [])"

lemma last_separator_no_slash:
  "n \<le> length s \<Longrightarrow> CHR ''/'' \<notin> set (drop (last_separator s n) (take n s))"
proof (induction n)
  case (Suc n)
  then have "take (Suc n) s = take n s @ [s ! n]" by (simp add: take_Suc_conv_app_nth)
  then show ?case using Suc by (auto simp: drop_Cons' split: if_splits)
qed simp

lemma directory_base: "getDirectory p @ getBaseName p = c_str p \<and> CHR ''/'' \<notin> set (getBaseName p)"
  using last_separator_no_slash [of "length (c_str p)" "c_str p"]
  by (simp add: getDirectory_def getBaseName_def Let_def)

subsection \<open>The statistics container\<close>

text \<open>Floating-point values are opaque; \<open>fmt\<close> is the formatting of \<open>%f\<close>.\<close>

record 'f DataContainer =
  strMap :: "(string, string) assoc"
  intMap :: "(string, u64) assoc"
  floatMap :: "(string, 'f) assoc"

definition setKeyVal_str :: "string \<Rightarrow> string \<Rightarrow> 'f DataContainer \<Rightarrow> 'f DataContainer" where
  "setKeyVal_str key val d = d\<lparr>strMap := AList.update key val (strMap d)\<rparr>"

definition setKeyVal_int :: "string \<Rightarrow> u64 \<Rightarrow> 'f DataContainer \<Rightarrow> 'f DataContainer" where
  "setKeyVal_int key val d = d\<lparr>intMap := AList.update key val (intMap d)\<rparr>"

definition increment :: "string \<Rightarrow> u64 \<Rightarrow> 'f DataContainer \<Rightarrow> 'f DataContainer" where
  "increment key val d =
    (case map_of (intMap d) key of
       None \<Rightarrow> d\<lparr>intMap := AList.update key val (intMap d)\<rparr>
     | Some v \<Rightarrow> d\<lparr>intMap := AList.update key (v + val) (intMap d)\<rparr>)"

definition setKeyVal_float :: "string \<Rightarrow> 'f \<Rightarrow> 'f DataContainer \<Rightarrow> 'f DataContainer" where
  "setKeyVal_float key val d = d\<lparr>floatMap := AList.update key val (floatMap d)\<rparr>"

definition in_key_order :: "(string, 'v) assoc \<Rightarrow> (string \<Rightarrow> 'v \<Rightarrow> string) \<Rightarrow> string" where
  "in_key_order m f = concat (map (\<lambda>k. case map_of m k of None \<Rightarrow> [] | Some v \<Rightarrow> f k v) (sort (map fst m)))"

definition formatToString :: "('f \<Rightarrow> string) \<Rightarrow> 'f DataContainer \<Rightarrow> string" where
  "formatToString fmt d =
     in_key_order (strMap d) (\<lambda>k v. k @ '':'' @ v @ newline) @
     in_key_order (intMap d) (\<lambda>k v. k @ '':'' @ show_int (sint v) @ newline) @
     in_key_order (floatMap d) (\<lambda>k v. k @ '':'' @ fmt v @ newline)"

lemma increment_sum:
  "map_of (intMap (fold (increment k) vs d)) k =
    (case map_of (intMap d) k of None \<Rightarrow> if vs = [] then None else Some (sum_list vs) | Some v \<Rightarrow> Some (v + sum_list vs))"
  by (induction vs arbitrary: d) (auto simp: increment_def add.assoc split: option.splits)

end
