(* ===== verification/AgentTask.thy ===== *)
theory AgentTask
  imports PathUtil Encode
begin

text \<open>
  A download task of the agent (\<open>gko-src/src/Task.cpp\<close>), its error codes
  (\<open>ErrorCategory\<close>) and its database connection (\<open>TaskDB.cpp\<close>). libtorrent and
  SQLite are the environment: what they return is an argument (the result of
  \<open>add_torrent\<close>, the status of a torrent, the outcomes of the three attempts to run a
  statement), and what the code asks of them is a list of \<open>task_effect\<close>s in call order.
  A torrent handle is a number, \<open>None\<close> the invalid one. The statistics record
  \<open>stat_\<close>, which only goes to a log file, is left out.
\<close>

subsection \<open>Error codes\<close>

datatype error_code_t =
  NO_ERROR | MEM_ALLOC_ERROR | MSG_READ_ERROR | PROTOBUF_PARSE_ERROR | MSG_ARGS_ERROR
| TORRENT_FILE_ERROR | INFOHASH_NOT_CORRECT | DUP_TASK_ERROR | GENERATE_TASK_ID_FAILED
| ADD_TORRENT_ERROR | TASK_NOT_FOUND | TRACKER_ERROR | READ_CRED_FAILED | CHECK_CRED_FAILED
| DB_ERROR | NO_METADATA | PARSE_METADATA_FAILED

definition all_errors :: "error_code_t list" where
  "all_errors = [NO_ERROR, MEM_ALLOC_ERROR, MSG_READ_ERROR, PROTOBUF_PARSE_ERROR, MSG_ARGS_ERROR,
     TORRENT_FILE_ERROR, INFOHASH_NOT_CORRECT, DUP_TASK_ERROR, GENERATE_TASK_ID_FAILED,
     ADD_TORRENT_ERROR, TASK_NOT_FOUND, TRACKER_ERROR, READ_CRED_FAILED, CHECK_CRED_FAILED,
     DB_ERROR, NO_METADATA, PARSE_METADATA_FAILED]"

fun ec_value :: "error_code_t \<Rightarrow> int" where
  "ec_value NO_ERROR = 0" | "ec_value MEM_ALLOC_ERROR = 1" | "ec_value MSG_READ_ERROR = 2"
| "ec_value PROTOBUF_PARSE_ERROR = 3" | "ec_value MSG_ARGS_ERROR = 4"
| "ec_value TORRENT_FILE_ERROR = 5" | "ec_value INFOHASH_NOT_CORRECT = 6"
| "ec_value DUP_TASK_ERROR = 7" | "ec_value GENERATE_TASK_ID_FAILED = 8"
| "ec_value ADD_TORRENT_ERROR = 9" | "ec_value TASK_NOT_FOUND = 10"
| "ec_value TRACKER_ERROR = 11" | "ec_value READ_CRED_FAILED = 12"
| "ec_value CHECK_CRED_FAILED = 13" | "ec_value DB_ERROR = 14" | "ec_value NO_METADATA = 15"
| "ec_value PARSE_METADATA_FAILED = 16"

definition MAX_ERROR_NUM :: int where "MAX_ERROR_NUM = 17"

definition error_msgs :: "string list" where
  "error_msgs = [''no error'', ''memery alloc failed'', ''message read failed'', ''ptotobuf parse failed'',
     ''args not correct'', ''torrent file not correct'', ''infohash not correct'', ''dup task error'',
     ''generate taskid failed'', ''add torrent failed'', ''task not found'', ''tracker failed'',
     ''read cred failed'', ''check cred failed'', ''db error'', ''have no metadata'', ''parse metadata failed'']"

definition ec_message :: "int \<Rightarrow> string" where
  "ec_message ev = (if ev < 0 \<or> ev \<ge> MAX_ERROR_NUM then ''invalid error'' else error_msgs ! nat ev)"

text \<open>The table has an entry for every code, so the indexing stays inside it.\<close>

lemma error_table:
  "int (length error_msgs) = MAX_ERROR_NUM \<and> map ec_value all_errors = map int [0 ..< length error_msgs]"
  by code_simp

subsection \<open>Messages and credentials\<close>

text \<open>Protobuf's optional fields; an unset field reads as the default.\<close>

datatype TaskType = SEEDING_TASK | NOCHECK_TASK | OTHER_TYPE int

fun type_value :: "TaskType \<Rightarrow> int" where
  "type_value SEEDING_TASK = 2" | "type_value NOCHECK_TASK = 3" | "type_value (OTHER_TYPE n) = n"

text \<open>\<open>static_cast<message::TaskType>\<close> of a number, named or not.\<close>

definition type_of_value :: "int \<Rightarrow> TaskType" where
  "type_of_value n = (if n = 2 then SEEDING_TASK else if n = 3 then NOCHECK_TASK else OTHER_TYPE n)"

datatype status_t = UNKNOW | ERROR | CHECKQ | CHECKING | DTORRENT | DOWNLOAD | PAUSED | SEEDING_STATUS | FINISHED | CANCELED

fun status_name :: "status_t \<Rightarrow> string" where
  "status_name UNKNOW = ''UNKNOW''" | "status_name ERROR = ''ERROR''" | "status_name CHECKQ = ''CHECKQ''"
| "status_name CHECKING = ''CHECKING''" | "status_name DTORRENT = ''DTORRENT''"
| "status_name DOWNLOAD = ''DOWNLOAD''" | "status_name PAUSED = ''PAUSED''"
| "status_name SEEDING_STATUS = ''SEEDING''" | "status_name FINISHED = ''FINISHED''"
| "status_name CANCELED = ''CANCELED''"

definition status_parse :: "string \<Rightarrow> status_t option" where
  "status_parse s = map_of (map (\<lambda>c. (status_name c, c))
     [UNKNOW, ERROR, CHECKQ, CHECKING, DTORRENT, DOWNLOAD, PAUSED, SEEDING_STATUS, FINISHED, CANCELED]) s"

record ucred =
  c_pid :: int
  c_uid :: int
  c_gid :: int

record task_message =
  m_taskid :: "int option"
  m_type :: "TaskType option"
  m_infohash :: "string option"
  m_torrent_path :: "string option"
  m_data :: "string option"
  m_save_path :: "string option"
  m_new_name :: "string option"
  m_trackers :: "(string \<times> int) list"
  m_cmd :: "string option"
  m_uid :: "int option"
  m_gid :: "int option"
  m_seeding_time :: "int option"

record task_options =
  o_taskid :: "int option"
  o_upload_limit :: "int option"
  o_download_limit :: "int option"
  o_max_conections :: "int option"

definition str_field :: "string option \<Rightarrow> string" where
  "str_field v = (case v of None \<Rightarrow> [] | Some s \<Rightarrow> s)"

definition int_field :: "int option \<Rightarrow> int" where
  "int_field v = (case v of None \<Rightarrow> 0 | Some i \<Rightarrow> i)"

definition type_field :: "TaskType option \<Rightarrow> TaskType" where
  "type_field v = (case v of None \<Rightarrow> SEEDING_TASK | Some t \<Rightarrow> t)"

subsection \<open>The task\<close>

record Task =
  flags :: u32
  task_id :: int
  infohash :: string
  cmd :: string
  cred :: ucred
  save_path :: string
  new_name :: string
  type :: TaskType
  trackers :: "(string \<times> int) list"
  seeding_time :: int
  torrent :: "nat option"
  error :: string

definition TASK_FLAG_NOT_NEW :: u32 where "TASK_FLAG_NOT_NEW = 1"
definition TASK_FLAG_CANCELED :: u32 where "TASK_FLAG_CANCELED = 2"
definition TASK_FLAG_PERSIST :: u32 where "TASK_FLAG_PERSIST = 4"

definition has_flag :: "Task \<Rightarrow> u32 \<Rightarrow> bool" where
  "has_flag t f \<longleftrightarrow> flags t AND f \<noteq> 0"

text \<open>The constructor leaves the credentials uninitialised: \<open>u\<close>.\<close>

definition new_Task :: "ucred \<Rightarrow> int \<Rightarrow> Task" where
  "new_Task u i = \<lparr> flags = 0, task_id = i, infohash = [], cmd = [], cred = u,
     save_path = [], new_name = [], type = NOCHECK_TASK, trackers = [], seeding_time = 0, torrent = None, error = [] \<rparr>"

definition get_data_path :: "Task \<Rightarrow> string" where
  "get_data_path t = save_path t @ ''/'' @ new_name t"

definition Cancel :: "Task \<Rightarrow> Task" where
  "Cancel t = t\<lparr>flags := flags t OR TASK_FLAG_CANCELED\<rparr>"

definition Persist :: "Task \<Rightarrow> Task" where
  "Persist t = t\<lparr>flags := flags t OR TASK_FLAG_PERSIST\<rparr>"

definition set_error :: "string \<Rightarrow> Task \<Rightarrow> Task" where
  "set_error e t = t\<lparr>error := e\<rparr>"

definition CheckCred :: "int \<Rightarrow> ucred \<Rightarrow> Task \<Rightarrow> bool" where
  "CheckCred self_uid c t \<longleftrightarrow>
     \<not> has_flag t TASK_FLAG_NOT_NEW \<or> c_uid c = 0 \<or> c_uid c = self_uid \<or> c_uid c = c_uid (cred t)"

text \<open>What libtorrent reports for a handle.\<close>

datatype torrent_state = downloading_metadata | checking_resume_data | queued_for_checking | checking_files
  | downloading | finished_state | seeding_state | allocating

record torrent_status =
  ts_error :: string
  ts_paused :: bool
  ts_is_finished :: bool
  ts_state :: torrent_state
  ts_progress_ppm :: int
  ts_num_peers :: int
  ts_num_seeds :: int
  ts_upload_rate :: int
  ts_total_payload_upload :: int
  ts_total_payload_download :: int

definition GetStatusCode :: "torrent_status \<Rightarrow> bool \<Rightarrow> Task \<Rightarrow> status_t" where
  "GetStatusCode ts is_finish t =
    (if ts_error ts \<noteq> [] \<or> error t \<noteq> [] then ERROR
     else if has_flag t TASK_FLAG_CANCELED then CANCELED
     else if ts_paused ts then PAUSED
     else if ts_is_finished ts then (if \<not> is_finish then SEEDING_STATUS else FINISHED)
     else (case ts_state ts of downloading_metadata \<Rightarrow> DTORRENT
           | checking_resume_data \<Rightarrow> CHECKQ
           | queued_for_checking \<Rightarrow> CHECKQ
           | checking_files \<Rightarrow> CHECKING
           | _ \<Rightarrow> DOWNLOAD))"

subsection \<open>What a task asks of its environment\<close>

record torrent_params =
  p_infohash :: string
  p_save_path :: string
  p_thrift_trackers :: "(string \<times> int) list"
  p_paused :: bool
  p_duplicate_is_error :: bool
  p_auto_managed :: bool
  p_real_seed :: bool
  p_seed_mode :: bool
  p_upload_limit :: "int option"
  p_max_connections :: "int option"

text \<open>A bencoded value of libtorrent's \<open>entry\<close>.\<close>

datatype entry = EInt int | EStr string | EList "entry list" | EDict "(string \<times> entry) list"

datatype task_effect =
    AddTorrent torrent_params
  | RemoveTorrentHandle nat
  | ResumeHandle nat
  | PauseHandle nat
  | AutoManaged nat bool
  | SetUploadLimit nat int
  | SetMaxConnections nat int
  | SqlTask string
  | ReconnectDb
  | WriteResume string entry
  | Unlink string
  | StartSeedingTimer int int

definition on_handle :: "Task \<Rightarrow> (nat \<Rightarrow> task_effect) \<Rightarrow> task_effect list" where
  "on_handle t f = (case torrent t of None \<Rightarrow> [] | Some h \<Rightarrow> [f h])"

definition RemoveTorrent :: "Task \<Rightarrow> task_effect list" where
  "RemoveTorrent t = on_handle t RemoveTorrentHandle"

definition Resume :: "Task \<Rightarrow> task_effect list" where
  "Resume t = on_handle t ResumeHandle @ on_handle t (\<lambda>h. AutoManaged h True)"

definition Pause :: "Task \<Rightarrow> task_effect list" where
  "Pause t = on_handle t (\<lambda>h. AutoManaged h False) @ on_handle t PauseHandle"

definition SetOptions :: "task_options \<Rightarrow> Task \<Rightarrow> task_effect list" where
  "SetOptions opts t =
    (case o_upload_limit opts of None \<Rightarrow> [] | Some l \<Rightarrow> on_handle t (\<lambda>h. SetUploadLimit h l)) @
    (case o_max_conections opts of None \<Rightarrow> [] | Some l \<Rightarrow> on_handle t (\<lambda>h. SetMaxConnections h l))"

text \<open>\<open>limits\<close> are the torrent's current upload and connection limits.\<close>

definition GetOptions :: "int \<times> int \<Rightarrow> task_options \<Rightarrow> task_options" where
  "GetOptions limits opts =
    opts\<lparr>o_upload_limit := map_option (\<lambda>_. fst limits) (o_upload_limit opts),
      o_max_conections := map_option (\<lambda>_. snd limits) (o_max_conections opts)\<rparr>"

subsection \<open>The task identifier\<close>

definition quote :: string where "quote = [CHR 0x27]"

definition sql_insert_task :: "Task \<Rightarrow> string" where
  "sql_insert_task t =
    ''begin transaction; insert into task(infohash, save_path, status, uid, gid, cmd, start_time) values('' @ quote @
    infohash t @ quote @ '', '' @ quote @ get_data_path t @ quote @ '', '' @ quote @
    status_name DOWNLOAD @ quote @ '', '' @ quote @ show_int (c_uid (cred t)) @ quote @ '', '' @ quote @
    show_int (c_gid (cred t)) @ quote @ '', '' @ quote @ cmd t @ quote @ '', datetime('' @ quote @ ''now'' @ quote @
    '', '' @ quote @ ''localtime'' @ quote @ ''))'' @ ''; select last_insert_rowid(); commit transaction''"

text \<open>
  The loop over the attempts: each outcome is whether the statement ran and the row id
  its call-back stored, if it was called. An attempt fails when the statement fails or
  the id is still negative.
\<close>

fun gen_id_loop :: "nat \<Rightarrow> (bool \<times> int option) list \<Rightarrow> string \<Rightarrow> Task \<Rightarrow> Task \<times> task_effect list" where
  "gen_id_loop 0 outs sql t = (t, [])"
| "gen_id_loop (Suc n) outs sql t =
    (let (ok, row) = (case outs of [] \<Rightarrow> (False, None) | r # _ \<Rightarrow> r);
         t = (case row of None \<Rightarrow> t | Some i \<Rightarrow> t\<lparr>task_id := i\<rparr>)
     in if \<not> ok \<or> task_id t < 0
        then let (t, es) = gen_id_loop n (drop 1 outs) sql t in (t, [SqlTask sql, ReconnectDb] @ es)
        else (t, [SqlTask sql]))"

definition GenTaskId :: "(bool \<times> int option) list \<Rightarrow> Task \<Rightarrow> bool \<times> Task \<times> task_effect list" where
  "GenTaskId outs t = (let (t, es) = gen_id_loop 3 outs (sql_insert_task t) t in (task_id t \<ge> 0, t, es))"

subsection \<open>Status in the database\<close>

definition sql_update_task :: "torrent_status \<Rightarrow> bool \<Rightarrow> Task \<Rightarrow> string" where
  "sql_update_task ts is_finish t =
    ''update task set infohash = '' @ quote @ c_str (infohash t) @ quote @ '', status = '' @ quote @
    status_name (GetStatusCode ts is_finish t) @ quote @ '', upload = '' @ show_int (ts_total_payload_upload ts) @
    '', download = '' @ show_int (ts_total_payload_download ts) @ '', progress = '' @ show_int (ts_progress_ppm ts) @
    '', error = '' @ quote @ (if ts_error ts = [] then error t else ts_error ts) @ quote @
    (if is_finish then '', end_time = datetime('' @ quote @ ''now'' @ quote @ '', '' @ quote @ ''localtime'' @ quote @ '')'' else []) @
    '' where id = '' @ show_int (task_id t)"

definition UpdateStatus :: "torrent_status \<Rightarrow> bool \<Rightarrow> bool \<Rightarrow> Task \<Rightarrow> task_effect list" where
  "UpdateStatus ts sql_ok is_finish t =
    (if \<not> has_flag t TASK_FLAG_NOT_NEW then []
     else SqlTask (sql_update_task ts is_finish t) # (if \<not> sql_ok then [ReconnectDb] else []))"

record task_status_message =
  s_task :: task_message
  s_status :: "status_t option"
  s_progress :: "int option"
  s_error :: "string option"
  s_total_upload :: "int option"
  s_upload_rate :: "int option"
  s_num_peers :: "int option"
  s_num_seeds :: "int option"

definition empty_task_message :: task_message where
  "empty_task_message = \<lparr> m_taskid = None, m_type = None, m_infohash = None, m_torrent_path = None,
     m_data = None, m_save_path = None, m_new_name = None, m_trackers = [], m_cmd = None, m_uid = None,
     m_gid = None, m_seeding_time = None \<rparr>"

definition empty_status_message :: task_status_message where
  "empty_status_message = \<lparr> s_task = empty_task_message, s_status = None, s_progress = None, s_error = None,
     s_total_upload = None, s_upload_rate = None, s_num_peers = None, s_num_seeds = None \<rparr>"

text \<open>\<open>atoi\<close>: white space, a sign, digits.\<close>

definition atoi :: "string \<Rightarrow> int" where
  "atoi s =
    (let s = dropWhile (\<lambda>c. c \<in> {CHR '' '', CHR 0x09, CHR 0x0A, CHR 0x0B, CHR 0x0C, CHR 0x0D}) s;
         v = int (read_nat (if s \<noteq> [] \<and> hd s \<in> {CHR ''-'', CHR ''+''} then tl s else s))
     in if s \<noteq> [] \<and> hd s = CHR ''-'' then - v else v)"

text \<open>The call-back of the select: the columns are id, infohash, save\_path, status, progress, upload, uid, gid, cmd, error.\<close>

definition get_status_cb :: "string list \<Rightarrow> task_status_message \<Rightarrow> task_status_message" where
  "get_status_cb argv m =
    m\<lparr>s_task := (s_task m)\<lparr>m_infohash := Some (argv ! 1),
        m_save_path := Some (parent_path (argv ! 2)), m_new_name := Some (file_name (argv ! 2)),
        m_uid := Some (atoi (argv ! 6)), m_gid := Some (atoi (argv ! 7)), m_cmd := Some (argv ! 8)\<rparr>,
      s_status := Some (case status_parse (argv ! 3) of None \<Rightarrow> UNKNOW | Some st \<Rightarrow> st),
      s_progress := Some (atoi (argv ! 4)), s_total_upload := Some (atoi (argv ! 5)), s_error := Some (argv ! 9)\<rparr>"

text \<open>
  \<open>rows\<close> are the outcomes of the three attempts to select the task: \<open>None\<close> a failure,
  otherwise the rows found.
\<close>

fun select_loop :: "nat \<Rightarrow> string list list option list \<Rightarrow> task_status_message \<Rightarrow> bool \<times> task_status_message" where
  "select_loop 0 rows m = (False, m)"
| "select_loop (Suc n) rows m =
    (case (case rows of [] \<Rightarrow> None | r # _ \<Rightarrow> r) of
       None \<Rightarrow> select_loop n (drop 1 rows) m
     | Some rs \<Rightarrow> (True, fold get_status_cb rs m))"

definition GetStatus :: "(nat \<Rightarrow> torrent_status) \<Rightarrow> torrent_status \<Rightarrow> string list list option list \<Rightarrow> Task \<Rightarrow> task_status_message" where
  "GetStatus status_of no_torrent rows t =
    (let m = empty_status_message\<lparr>s_task := empty_task_message\<lparr>m_taskid := Some (task_id t)\<rparr>\<rparr> in
     if has_flag t TASK_FLAG_NOT_NEW
     then let ts = (case torrent t of None \<Rightarrow> no_torrent | Some h \<Rightarrow> status_of h) in
       m\<lparr>s_task := (s_task m)\<lparr>m_cmd := Some (cmd t), m_uid := Some (c_uid (cred t)), m_gid := Some (c_gid (cred t)),
           m_infohash := Some (infohash t), m_save_path := Some (save_path t), m_new_name := Some (new_name t)\<rparr>,
         s_status := Some (GetStatusCode ts False t),
         s_error := Some (if ts_error ts = [] then error t else ts_error ts),
         s_progress := Some (ts_progress_ppm ts), s_num_peers := Some (ts_num_peers ts),
         s_num_seeds := Some (ts_num_seeds ts), s_upload_rate := Some (ts_upload_rate ts),
         s_total_upload := Some (ts_total_payload_upload ts)\<rparr>
     else let (ok, m) = select_loop 3 rows m in
       if \<not> ok then m\<lparr>s_status := Some UNKNOW, s_error := Some ''select from db error''\<rparr>
       else if m_infohash (s_task m) = None then m\<lparr>s_status := Some UNKNOW, s_error := Some ''task not found''\<rparr>
       else m)"

definition ToSeeding :: "torrent_status \<Rightarrow> bool \<Rightarrow> Task \<Rightarrow> task_effect list" where
  "ToSeeding ts sql_ok t =
    UpdateStatus ts sql_ok False t @
    (if error t \<noteq> [] then [StartSeedingTimer (task_id t) 0]
     else if seeding_time t = - 1 then []
     else [StartSeedingTimer (task_id t) (seeding_time t)])"

subsection \<open>The resume file\<close>

record resume_limits =
  l_upload :: int
  l_download :: int
  l_max_connections :: int

definition resume_entry :: "resume_limits \<Rightarrow> string \<Rightarrow> Task \<Rightarrow> entry" where
  "resume_entry lim metadata t = EDict
    ([(''cred'', EDict [(''pid'', EInt (c_pid (cred t))), (''uid'', EInt (c_uid (cred t))), (''gid'', EInt (c_gid (cred t)))]),
      (''id'', EInt (task_id t)), (''cmd'', EStr (cmd t)), (''seeding_time'', EInt (seeding_time t)),
      (''save_path'', EStr (save_path t)), (''new_name'', EStr (new_name t)),
      (''upload_limit'', EInt (l_upload lim)), (''download_limit'', EInt (l_download lim)),
      (''max_connections'', EInt (l_max_connections lim)), (''type'', EInt (type_value (type t))),
      (''info_hash'', EStr (infohash t))] @
     (if trackers t \<noteq> []
      then [(''trackers'', EList (map (\<lambda>(h, p). EDict [(''host'', EStr h), (''port'', EInt p)]) (trackers t)))] else []) @
     [(''metadata'', EStr metadata)])"

definition resume_path :: "string \<Rightarrow> Task \<Rightarrow> string" where
  "resume_path resume_dir t = resume_dir @ ''/'' @ show_int (task_id t) @ ''.'' @ ''resume''"

text \<open>\<open>metadata\<close> is \<open>None\<close> when the torrent's info hash is zero; \<open>opened\<close> whether the file opened.\<close>

definition GenerateResumeFile :: "string \<Rightarrow> resume_limits \<Rightarrow> string option \<Rightarrow> bool \<Rightarrow> Task \<Rightarrow> task_effect list" where
  "GenerateResumeFile resume_dir lim metadata opened t =
    (if \<not> has_flag t TASK_FLAG_NOT_NEW then []
     else case metadata of None \<Rightarrow> []
       | Some md \<Rightarrow> if opened then [WriteResume (resume_path resume_dir t) (resume_entry lim md t)] else [])"

definition DeleteResumeFile :: "string \<Rightarrow> Task \<Rightarrow> task_effect list" where
  "DeleteResumeFile resume_dir t =
    (if \<not> has_flag t TASK_FLAG_NOT_NEW then [] else [Unlink (resume_path resume_dir t)])"

text \<open>The destructor.\<close>

definition destroy_Task ::
  "torrent_status \<Rightarrow> bool \<Rightarrow> string \<Rightarrow> resume_limits \<Rightarrow> string option \<Rightarrow> bool \<Rightarrow> Task \<Rightarrow> task_effect list" where
  "destroy_Task ts sql_ok resume_dir lim metadata opened t =
    (if has_flag t TASK_FLAG_NOT_NEW
     then UpdateStatus ts sql_ok True t @
       (if has_flag t TASK_FLAG_PERSIST then GenerateResumeFile resume_dir lim metadata opened t
        else DeleteResumeFile resume_dir t) @ RemoveTorrent t
     else [])"

text \<open>
  Reading an entry: indexing a missing key yields an undefined entry, and reading a
  number, string or list from an entry of another type throws.
\<close>

definition e_get :: "entry option \<Rightarrow> string \<Rightarrow> entry option" where
  "e_get e k = (case e of Some (EDict d) \<Rightarrow> map_of d k | _ \<Rightarrow> None)"

definition e_integer :: "entry option \<Rightarrow> int option" where
  "e_integer e = (case e of Some (EInt i) \<Rightarrow> Some i | _ \<Rightarrow> None)"

definition e_string :: "entry option \<Rightarrow> string option" where
  "e_string e = (case e of Some (EStr s) \<Rightarrow> Some s | _ \<Rightarrow> None)"

definition e_list :: "entry option \<Rightarrow> entry list option" where
  "e_list e = (case e of Some (EList l) \<Rightarrow> Some l | _ \<Rightarrow> None)"

text \<open>Outcome of a creation: an exception, the null pointer with a reason, or the task.\<close>

datatype create_result = Throws | NullTask error_code_t | Created Task

fun read_trackers :: "entry list \<Rightarrow> (string \<times> int) list option" where
  "read_trackers [] = Some []"
| "read_trackers (e # es) =
    (case (e_string (e_get (Some e) ''host''), e_integer (e_get (Some e) ''port''), read_trackers es) of
       (Some h, Some p, Some r) \<Rightarrow> Some ((h, p) # r)
     | _ \<Rightarrow> None)"

definition base_params :: "string \<Rightarrow> string \<Rightarrow> (string \<times> int) list \<Rightarrow> TaskType \<Rightarrow> torrent_params" where
  "base_params ih path trs ty = \<lparr> p_infohash = ih, p_save_path = path, p_thrift_trackers = trs,
     p_paused = True, p_duplicate_is_error = True, p_auto_managed = False,
     p_real_seed = (ty = SEEDING_TASK), p_seed_mode = (ty = SEEDING_TASK \<or> ty = NOCHECK_TASK),
     p_upload_limit = None, p_max_connections = None \<rparr>"

text \<open>The fields read before anything else: \<open>id\<close>, credentials, command, times, paths, type.\<close>

definition read_fields :: "ucred \<Rightarrow> entry \<Rightarrow> Task option" where
  "read_fields u0 r =
    (let g = e_get (Some r); c = e_get (g ''cred'') in
     case (e_integer (g ''id''), e_integer (c ''pid''), e_integer (c ''uid''), e_integer (c ''gid'')) of
       (Some i, Some p, Some u, Some gi) \<Rightarrow>
         (case (e_string (g ''cmd''), e_integer (g ''seeding_time''), e_string (g ''new_name''),
                e_string (g ''save_path''), e_integer (g ''type'')) of
            (Some cm, Some st, Some nn, Some sp, Some ty) \<Rightarrow>
              Some ((new_Task u0 (- 1))\<lparr>task_id := i, cred := \<lparr> c_pid = p, c_uid = u, c_gid = gi \<rparr>, cmd := cm,
                seeding_time := st, new_name := nn, save_path := sp, type := type_of_value ty\<rparr>)
          | _ \<Rightarrow> None)
     | _ \<Rightarrow> None)"

text \<open>
  \<open>parse_meta ih name md\<close>: bdecoding and parsing the metadata succeeds;
  \<open>default_trackers\<close>: \<open>GetTrackersByInfohash\<close>; \<open>add\<close>: the handle \<open>add_torrent\<close>
  returns, if it does.
\<close>

definition CreateFromResumeFile ::
  "ucred \<Rightarrow> (string \<Rightarrow> string \<Rightarrow> string \<Rightarrow> bool) \<Rightarrow> (string \<Rightarrow> (string \<times> int) list) \<Rightarrow> (torrent_params \<Rightarrow> nat option) \<Rightarrow>
   entry option \<Rightarrow> create_result \<times> task_effect list" where
  "CreateFromResumeFile u0 parse_meta default_trackers add resume =
    (case resume of None \<Rightarrow> (NullTask NO_ERROR, [])
     | Some r \<Rightarrow>
       if (case r of EDict _ \<Rightarrow> False | _ \<Rightarrow> True) then (NullTask NO_ERROR, [])
       else case read_fields u0 r of None \<Rightarrow> (Throws, [])
       | Some t \<Rightarrow>
         (case e_get (Some r) ''info_hash'' of None \<Rightarrow> (NullTask NO_ERROR, [])
          | Some ih_e \<Rightarrow>
            (case e_string (Some ih_e) of None \<Rightarrow> (Throws, [])
             | Some ih \<Rightarrow>
               if length ih \<noteq> 40 \<or> HexstrToBytes ih = None then (NullTask NO_ERROR, [])
               else case e_get (Some r) ''metadata'' of None \<Rightarrow> (NullTask NO_ERROR, [])
               | Some m_e \<Rightarrow>
                 (case e_string (Some m_e) of None \<Rightarrow> (Throws, [])
                  | Some md \<Rightarrow>
                    if \<not> parse_meta ih (new_name t) md then (NullTask NO_ERROR, [])
                    else
                      let trs = (if e_get (Some r) ''trackers'' \<noteq> None
                                 then Option.bind (e_list (e_get (Some r) ''trackers'')) read_trackers else Some [])
                      in case trs of None \<Rightarrow> (Throws, [])
                      | Some tr \<Rightarrow>
                        let t = t\<lparr>infohash := ih, trackers := tr\<rparr>;
                            params = base_params ih (save_path t)
                              (if e_get (Some r) ''trackers'' \<noteq> None then tr else default_trackers ih) (type t)
                        in case add params of None \<Rightarrow> (NullTask ADD_TORRENT_ERROR, [AddTorrent params])
                        | Some h \<Rightarrow>
                          let t = t\<lparr>torrent := Some h, flags := flags t OR TASK_FLAG_NOT_NEW\<rparr> in
                          (case (e_integer (e_get (Some r) ''max_connections''), e_integer (e_get (Some r) ''upload_limit'')) of
                             (Some mc, Some ul) \<Rightarrow>
                               (Created t, [AddTorrent params, SetMaxConnections h mc, SetUploadLimit h ul] @ Resume t)
                           | (Some mc, None) \<Rightarrow> (Throws, [AddTorrent params, SetMaxConnections h mc])
                           | _ \<Rightarrow> (Throws, [AddTorrent params]))))))"

text \<open>\<open>ti_hash\<close> is the info hash of the torrent \<open>ti\<close>, which need not be the message's.\<close>

definition Create ::
  "ucred \<Rightarrow> (bool \<times> int option) list \<Rightarrow> (string \<Rightarrow> (string \<times> int) list) \<Rightarrow> (torrent_params \<Rightarrow> nat option) \<Rightarrow>
   (nat \<Rightarrow> resume_limits) \<Rightarrow> (nat \<Rightarrow> string option) \<Rightarrow> bool \<Rightarrow> string \<Rightarrow> string \<Rightarrow>
   task_message \<Rightarrow> task_options \<Rightarrow> create_result \<times> task_effect list" where
  "Create u0 outs default_trackers add limits_of metadata_of opened resume_dir ti_hash m opts =
    (let t = (new_Task u0 (- 1))\<lparr>infohash := str_field (m_infohash m),
           cred := \<lparr> c_pid = c_pid u0, c_uid = int_field (m_uid m), c_gid = int_field (m_gid m) \<rparr>,
           cmd := str_field (m_cmd m), save_path := str_field (m_save_path m),
           new_name := str_field (m_new_name m), seeding_time := int_field (m_seeding_time m),
           type := type_field (m_type m)\<rparr>;
         (ok, t, es) = GenTaskId outs t
     in if \<not> ok then (NullTask GENERATE_TASK_ID_FAILED, es)
        else
          let t = t\<lparr>trackers := m_trackers m\<rparr>;
              params = (base_params ti_hash (save_path t)
                (if m_trackers m \<noteq> [] then m_trackers m else default_trackers (infohash t)) (type t))
                \<lparr>p_upload_limit := o_upload_limit opts, p_max_connections := o_max_conections opts\<rparr>
          in case add params of None \<Rightarrow> (NullTask ADD_TORRENT_ERROR, es @ [AddTorrent params])
          | Some h \<Rightarrow>
            let t = t\<lparr>torrent := Some h, flags := flags t OR TASK_FLAG_NOT_NEW\<rparr> in
            (Created t, es @ [AddTorrent params] @ GenerateResumeFile resume_dir (limits_of h) (metadata_of h) opened t @ Resume t))"

subsection \<open>What the operations guarantee\<close>

lemma has_flag_bit:
  "has_flag t TASK_FLAG_NOT_NEW = bit (flags t) 0"
  "has_flag t TASK_FLAG_CANCELED = bit (flags t) 1"
  "has_flag t TASK_FLAG_PERSIST = bit (flags t) 2"
  by (simp_all add: has_flag_def TASK_FLAG_NOT_NEW_def TASK_FLAG_CANCELED_def TASK_FLAG_PERSIST_def
      bit_iff_and_push_bit_not_eq_0 push_bit_eq_mult)

lemma flag_bits [simp]:
  "bit TASK_FLAG_NOT_NEW 0" "\<not> bit TASK_FLAG_NOT_NEW 1" "\<not> bit TASK_FLAG_NOT_NEW 2"
  "\<not> bit TASK_FLAG_CANCELED 0" "bit TASK_FLAG_CANCELED 1" "\<not> bit TASK_FLAG_CANCELED 2"
  "\<not> bit TASK_FLAG_PERSIST 0" "\<not> bit TASK_FLAG_PERSIST 1" "bit TASK_FLAG_PERSIST 2"
  by code_simp+

lemma task_flags [simp]:
  "has_flag (t\<lparr>flags := f OR TASK_FLAG_NOT_NEW\<rparr>) TASK_FLAG_NOT_NEW"
  "has_flag (Cancel t) TASK_FLAG_NOT_NEW = has_flag t TASK_FLAG_NOT_NEW"
  "has_flag (Persist t) TASK_FLAG_NOT_NEW = has_flag t TASK_FLAG_NOT_NEW"
  "has_flag (Persist t) TASK_FLAG_CANCELED = has_flag t TASK_FLAG_CANCELED"
  "has_flag (Persist t) TASK_FLAG_PERSIST"
  "has_flag (Cancel t) TASK_FLAG_CANCELED"
  by (simp_all add: has_flag_bit Cancel_def Persist_def bit_or_iff flip: One_nat_def)

lemma gen_id_loop_rest:
  "gen_id_loop n outs sql t = (t', es) \<Longrightarrow> t' = t\<lparr>task_id := task_id t'\<rparr>"
proof (induction n outs sql t arbitrary: es rule: gen_id_loop.induct)
  case (2 n outs sql t)
  then show ?case
    by (auto simp: Let_def split: prod.splits list.splits option.splits if_splits)
qed simp

text \<open>
  The identifier is kept from an attempt that failed after its call-back ran, so three
  failures can still end in success.
\<close>

lemma GenTaskId_three_failures:
  "GenTaskId [(False, Some 5), (False, None), (False, None)] (new_Task u (- 1)) =
    (True, (new_Task u (- 1))\<lparr>task_id := 5\<rparr>,
     concat (replicate 3 [SqlTask (sql_insert_task (new_Task u (- 1))), ReconnectDb]))"
  by (simp add: GenTaskId_def numeral_3_eq_3 new_Task_def)

subsection \<open>Writing and reading the resume file\<close>

lemma read_trackers_map [simp]:
  "read_trackers (map (\<lambda>(h, p). EDict [(''host'', EStr h), (''port'', EInt p)]) ts) = Some ts"
  by (induction ts) (auto simp: e_get_def e_string_def e_integer_def)

lemma type_of_value_value: "t \<notin> {OTHER_TYPE 2, OTHER_TYPE 3} \<Longrightarrow> type_of_value (type_value t) = t"
  by (cases t) (auto simp: type_of_value_def)

lemma resume_entry_get:
  "e_get (Some (resume_entry lim md t)) ''id'' = Some (EInt (task_id t))"
  "e_get (e_get (Some (resume_entry lim md t)) ''cred'') ''pid'' = Some (EInt (c_pid (cred t)))"
  "e_get (e_get (Some (resume_entry lim md t)) ''cred'') ''uid'' = Some (EInt (c_uid (cred t)))"
  "e_get (e_get (Some (resume_entry lim md t)) ''cred'') ''gid'' = Some (EInt (c_gid (cred t)))"
  "e_get (Some (resume_entry lim md t)) ''cmd'' = Some (EStr (cmd t))"
  "e_get (Some (resume_entry lim md t)) ''seeding_time'' = Some (EInt (seeding_time t))"
  "e_get (Some (resume_entry lim md t)) ''new_name'' = Some (EStr (new_name t))"
  "e_get (Some (resume_entry lim md t)) ''save_path'' = Some (EStr (save_path t))"
  "e_get (Some (resume_entry lim md t)) ''type'' = Some (EInt (type_value (type t)))"
  "e_get (Some (resume_entry lim md t)) ''info_hash'' = Some (EStr (infohash t))"
  "e_get (Some (resume_entry lim md t)) ''metadata'' = Some (EStr md)"
  "e_get (Some (resume_entry lim md t)) ''max_connections'' = Some (EInt (l_max_connections lim))"
  "e_get (Some (resume_entry lim md t)) ''upload_limit'' = Some (EInt (l_upload lim))"
  "e_get (Some (resume_entry lim md t)) ''trackers'' =
    (if trackers t = [] then None
     else Some (EList (map (\<lambda>(h, p). EDict [(''host'', EStr h), (''port'', EInt p)]) (trackers t))))"
  by (simp_all add: resume_entry_def e_get_def)

lemma read_fields_resume:
  assumes "type t \<notin> {OTHER_TYPE 2, OTHER_TYPE 3}"
  shows "read_fields u (resume_entry lim md t) =
    Some (t\<lparr>flags := 0, infohash := [], trackers := [], torrent := None, error := []\<rparr>)"
  using type_of_value_value [OF assms]
  by (simp add: read_fields_def resume_entry_get e_integer_def e_string_def Let_def new_Task_def)

definition resumable :: "Task \<Rightarrow> bool" where
  "resumable t \<longleftrightarrow> type t \<in> {SEEDING_TASK, NOCHECK_TASK} \<and> length (infohash t) = 40 \<and> HexstrToBytes (infohash t) \<noteq> None"

definition resume_params :: "(string \<Rightarrow> (string \<times> int) list) \<Rightarrow> Task \<Rightarrow> torrent_params" where
  "resume_params default_trackers t = base_params (infohash t) (save_path t)
     (if trackers t \<noteq> [] then trackers t else default_trackers (infohash t)) (type t)"

definition resumed :: "nat \<Rightarrow> Task \<Rightarrow> Task" where
  "resumed h t = t\<lparr>flags := TASK_FLAG_NOT_NEW, torrent := Some h, error := []\<rparr>"

lemma CreateFromResumeFile_resume_entry:
  assumes "resumable t" "parse_meta (infohash t) (new_name t) md"
    and "add (resume_params dt t) = Some h"
  shows "CreateFromResumeFile u parse_meta dt add (Some (resume_entry lim md t)) =
    (Created (resumed h t),
     [AddTorrent (resume_params dt t), SetMaxConnections h (l_max_connections lim), SetUploadLimit h (l_upload lim)] @
       Resume (resumed h t))"
proof -
  have r: "read_fields u (resume_entry lim md t) =
      Some (t\<lparr>flags := 0, infohash := [], trackers := [], torrent := None, error := []\<rparr>)"
    using assms(1) by (intro read_fields_resume) (auto simp: resumable_def)
  have d: "(case resume_entry lim md t of EDict _ \<Rightarrow> False | _ \<Rightarrow> True) = False"
    by (simp add: resume_entry_def)
  show ?thesis
  proof (cases "trackers t = []")
    case True
    then have t: "t\<lparr>error := [], trackers := [], torrent := Some h, flags := TASK_FLAG_NOT_NEW\<rparr> = resumed h t"
      by (cases t) (simp add: resumed_def)
    show ?thesis
      using assms True t unfolding CreateFromResumeFile_def
      by (simp add: r d resume_entry_get e_string_def e_integer_def resumable_def resume_params_def Let_def)
  next
    case False
    have t: "t\<lparr>error := [], torrent := Some h, flags := TASK_FLAG_NOT_NEW\<rparr> = resumed h t"
      by (cases t) (simp add: resumed_def)
    show ?thesis
      using assms False t unfolding CreateFromResumeFile_def
      by (simp add: r d resume_entry_get e_string_def e_integer_def e_list_def resumable_def resume_params_def Let_def)
  qed
qed

subsection \<open>The database connection\<close>

record TaskDB =
  reconnecting :: bool
  task_db :: bool

datatype reconnect_result = Waits | Returns bool TaskDB

definition sql_create_task :: string where
  "sql_create_task =
    ''CREATE TABLE IF NOT EXISTS task ('' @ ''id INTEGER PRIMARY KEY AUTOINCREMENT'' @
    '', infohash CHAR(40) DEFAULT '' @ quote @ quote @ '', save_path VARCHAR(1024) DEFAULT '' @ quote @ quote @
    '', cmd VARCHAR(4096) DEFAULT '' @ quote @ quote @ '', status VARCHAR(20) DEFAULT '' @ quote @ quote @
    '', uid INT(10) DEFAULT -1'' @ '', gid INT(10) DEFAULT -1'' @ '', start_time TIMESTAMP DEFAULT '' @ quote @ quote @
    '', end_time TIMESTAMP DEFAULT '' @ quote @ quote @ '', upload INT(20) DEFAULT 0'' @
    '', download INT(20) DEFAULT 0'' @ '', progress INT(5) DEFAULT 0'' @ '', error varchar(1024) DEFAULT '' @ quote @ quote @ '')''"

definition sql_create_config :: string where
  "sql_create_config =
    ''CREATE TABLE IF NOT EXISTS agent_config ('' @ ''bind_port INT(10) DEFAULT 422'' @
    '', upload_limit INT(10) DEFAULT 1000'' @ '', connection_limit INT(10) DEFAULT 50000'' @ '')''"

text \<open>\<open>exec\<close> is whether \<open>sqlite3_exec\<close> returns \<open>SQLITE_OK\<close>.\<close>

definition InitTable :: "(string \<Rightarrow> bool) \<Rightarrow> string list \<times> bool" where
  "InitTable exec = ([sql_create_config, sql_create_task], exec sql_create_task)"

definition Reconnect :: "bool \<Rightarrow> (string \<Rightarrow> bool) \<Rightarrow> TaskDB \<Rightarrow> reconnect_result" where
  "Reconnect opens exec db =
    (if reconnecting db then Waits
     else let db = db\<lparr>reconnecting := True\<rparr> in
       if \<not> opens then Returns False db
       else let db = db\<lparr>task_db := True\<rparr>; db = db\<lparr>reconnecting := False\<rparr> in
         Returns (snd (InitTable exec)) db)"

definition sql_delete_old :: "int \<Rightarrow> string" where
  "sql_delete_old days =
    ''DELETE FROM task WHERE end_time != '' @ quote @ quote @ '' and end_time < datetime('' @ quote @ ''now'' @ quote @
    '', '' @ quote @ ''localtime'' @ quote @ '', '' @ quote @ ''-'' @ show_int days @ '' day'' @ quote @ '')''"

text \<open>The statement run and the hours to the next call; nothing on an error code.\<close>

definition DeleteDataTimerCallback :: "bool \<Rightarrow> int \<Rightarrow> (string \<times> int) option" where
  "DeleteDataTimerCallback ec days = (if ec then None else Some (sql_delete_old days, 24))"

text \<open>Once an open has failed, every later reconnection waits for a flag nobody clears.\<close>

lemma Reconnect_stuck:
  "Reconnect False exec db = Returns r db' \<Longrightarrow> Reconnect opens exec' db' = Waits"
  by (auto simp: Reconnect_def Let_def split: if_splits)

lemma Reconnect_success:
  "\<not> reconnecting db \<Longrightarrow> \<exists>r. Reconnect True exec db = Returns r \<lparr> reconnecting = False, task_db = True \<rparr>"
  by (simp add: Reconnect_def Let_def)

end
