(* ===== verification/TaskManager.thy ===== *)
theory TaskManager
  imports AgentTask
begin

text \<open>
  The agent's task manager (\<open>gko-src/src/TaskManager.cpp\<close>). Task objects live in a
  heap: \<open>tasks_map\<close> holds the owning references, the other three maps the weak ones
  (\<open>lock()\<close> is a heap lookup). One handler runs at a time and no other thread holds a
  reference, so an object erased from \<open>tasks_map\<close> is destroyed where the handler drops
  its own reference: \<open>release\<close>. libtorrent, the database and the file system are the
  record \<open>agent_env\<close>; requests come in decoded, with the result of \<open>ParseFromArray\<close>.
\<close>

type_synonym address = nat

record metadata_t =
  md_infohash :: string
  metadata :: string

record agent_options =
  a_bind_port :: "int option"
  a_upload_limit :: "int option"
  a_max_conections :: "int option"

datatype response =
    ResBase int string
  | ResTask int
  | ResBatchCtrl "(int \<times> int \<times> string) list"
  | ResBatchList "task_status_message list"
  | ResTaskGetopt task_options
  | ResAgentGetopt agent_options

datatype tm_effect = TaskEffect task_effect | Reply response | SetSession int int | SqlConfig string

record TaskManager =
  heap :: "(address, Task) assoc"
  next_address :: address
  tasks_map :: "(int, address) assoc"
  torrent_map :: "(nat option, address) assoc"
  infohash_map :: "(string, address) assoc"
  data_path_map :: "(string, address) assoc"
  metas :: "metadata_t list"
  current_metas_total_size :: int

definition new_TaskManager :: TaskManager where
  "new_TaskManager = \<lparr> heap = [], next_address = 0, tasks_map = [], torrent_map = [], infohash_map = [],
     data_path_map = [], metas = [], current_metas_total_size = 0 \<rparr>"

text \<open>What the environment answers during one handler.\<close>

record agent_env =
  status_of :: "nat \<Rightarrow> torrent_status"
  no_status :: torrent_status
  update_ok :: bool
  resume_dir :: string
  limits_of :: "nat \<Rightarrow> resume_limits"
  metadata_of :: "nat \<Rightarrow> string option"
  opens_file :: bool
  self_uid :: int
  uninit_cred :: ucred
  default_trackers :: "string \<Rightarrow> (string \<times> int) list"
  add_torrent :: "torrent_params \<Rightarrow> nat option"
  add_error :: "int \<times> string"
  id_outcomes :: "(bool \<times> int option) list"
  parse_metadata :: "string \<Rightarrow> string \<Rightarrow> string \<Rightarrow> bool"
  metadata_error :: "int \<times> string"
  file_size :: "string \<Rightarrow> int"
  parse_torrent :: "bool \<Rightarrow> string \<Rightarrow> string \<Rightarrow> (int \<times> string) + (string \<times> string)"
  torrent_name :: "string \<Rightarrow> string \<Rightarrow> string \<Rightarrow> string"
  max_total_meta_size :: int
  max_total_meta_num :: int
  session_limits :: "int \<times> int"
  listen_port :: int
  config_outcomes :: "bool list"
  task_rows :: "int \<Rightarrow> string list list option list"

text \<open>\<open>boost::system::error_code\<close>: \<open>None\<close> is success.\<close>

type_synonym error_code = "(int \<times> string) option"

definition assign :: "error_code_t \<Rightarrow> error_code" where
  "assign e = Some (ec_value e, ec_message (ec_value e))"

definition WriteBaseMessage :: "error_code \<Rightarrow> tm_effect" where
  "WriteBaseMessage ec = Reply (case ec of None \<Rightarrow> ResBase 0 ''Success'' | Some (v, m) \<Rightarrow> ResBase v m)"

subsection \<open>The four maps\<close>

definition add_to_map :: "address \<Rightarrow> Task \<Rightarrow> TaskManager \<Rightarrow> TaskManager" where
  "add_to_map a t s = s\<lparr>
     tasks_map := AList.update (task_id t) a (tasks_map s),
     infohash_map := AList.update (infohash t) a (infohash_map s),
     data_path_map := AList.update (get_data_path t) a (data_path_map s),
     torrent_map := AList.update (torrent t) a (torrent_map s)\<rparr>"

definition erase_from_map :: "Task \<Rightarrow> TaskManager \<Rightarrow> TaskManager" where
  "erase_from_map t s = s\<lparr>
     torrent_map := AList.delete (torrent t) (torrent_map s),
     infohash_map := AList.delete (infohash t) (infohash_map s),
     data_path_map := AList.delete (get_data_path t) (data_path_map s),
     tasks_map := AList.delete (task_id t) (tasks_map s)\<rparr>"

definition set_object :: "address \<Rightarrow> Task \<Rightarrow> TaskManager \<Rightarrow> TaskManager" where
  "set_object a t s = s\<lparr>heap := AList.update a t (heap s)\<rparr>"

definition alloc :: "Task \<Rightarrow> TaskManager \<Rightarrow> address \<times> TaskManager" where
  "alloc t s = (next_address s, s\<lparr>heap := AList.update (next_address s) t (heap s), next_address := Suc (next_address s)\<rparr>)"

definition destroy :: "agent_env \<Rightarrow> Task \<Rightarrow> tm_effect list" where
  "destroy e t = map TaskEffect
     (case torrent t of
        None \<Rightarrow> destroy_Task (no_status e) (update_ok e) (resume_dir e) (limits_of e 0) None (opens_file e) t
      | Some h \<Rightarrow> destroy_Task (status_of e h) (update_ok e) (resume_dir e) (limits_of e h) (metadata_of e h) (opens_file e) t)"

text \<open>The last reference of a handler to an object goes away.\<close>

definition release :: "agent_env \<Rightarrow> address \<Rightarrow> TaskManager \<Rightarrow> TaskManager \<times> tm_effect list" where
  "release e a s =
    (if a \<in> snd ` set (tasks_map s) then (s, [])
     else case map_of (heap s) a of None \<Rightarrow> (s, [])
       | Some t \<Rightarrow> (s\<lparr>heap := AList.delete a (heap s)\<rparr>, destroy e t))"

subsection \<open>Metadata sent ahead of a task\<close>

fun take_meta :: "string \<Rightarrow> metadata_t list \<Rightarrow> (metadata_t \<times> metadata_t list) option" where
  "take_meta ih [] = None"
| "take_meta ih (m # ms) =
    (if md_infohash m = ih then Some (m, ms) else map_option (\<lambda>(x, r). (x, m # r)) (take_meta ih ms))"

definition GetMetaByInfohash :: "string \<Rightarrow> TaskManager \<Rightarrow> metadata_t option \<times> TaskManager" where
  "GetMetaByInfohash ih s =
    (case take_meta ih (metas s) of
       None \<Rightarrow> (None, s)
     | Some (m, r) \<Rightarrow> (Some m, s\<lparr>current_metas_total_size := current_metas_total_size s - int (length (metadata m)), metas := r\<rparr>))"

fun drop_metas :: "int \<Rightarrow> int \<Rightarrow> int \<Rightarrow> metadata_t list \<Rightarrow> int \<Rightarrow> metadata_t list \<times> int" where
  "drop_metas len max_size max_num [] tot = ([], tot)"
| "drop_metas len max_size max_num (m # ms) tot =
    (if len + tot > max_size \<or> int (length (m # ms)) + 1 > max_num
     then drop_metas len max_size max_num ms (tot - int (length (metadata m)))
     else (m # ms, tot))"

definition AddMetadata :: "agent_env \<Rightarrow> string \<Rightarrow> string \<Rightarrow> TaskManager \<Rightarrow> TaskManager" where
  "AddMetadata e ih data s =
    (let len = int (length data); max_size = max_total_meta_size e * 1024 * 1024 in
     if len < 1 \<or> len > max_size then s
     else let (ms, tot) = drop_metas len max_size (max_total_meta_num e) (metas s) (current_metas_total_size s) in
       s\<lparr>metas := ms @ [\<lparr> md_infohash = ih, metadata = data \<rparr>], current_metas_total_size := tot + len\<rparr>)"

subsection \<open>Adding a task\<close>

text \<open>
  The first part of \<open>AddTask\<close>: which torrent is meant. The result is the error or the
  message with its info hash set (only the branch of a torrent file sets it from the
  torrent), the torrent's own info hash and its name. What the environment returns
  accounts for all \<open>ec\<close> holds after the call.
\<close>

definition find_torrent :: "agent_env \<Rightarrow> task_message \<Rightarrow> TaskManager \<Rightarrow> ((int \<times> string) + (task_message \<times> string \<times> string)) \<times> TaskManager" where
  "find_torrent e m s =
    (case m_torrent_path m of
       Some path \<Rightarrow>
         if file_size e path \<le> 0 then (Inl (the (assign TORRENT_FILE_ERROR)), s)
         else (case parse_torrent e True path (str_field (m_new_name m)) of
                 Inl ec \<Rightarrow> (Inl ec, s)
               | Inr (ih, name) \<Rightarrow> (Inr (m\<lparr>m_infohash := Some ih\<rparr>, ih, name), s))
     | None \<Rightarrow>
       (case m_data m of
          Some data \<Rightarrow>
            (case parse_torrent e False data (str_field (m_new_name m)) of
               Inl ec \<Rightarrow> (Inl ec, s)
             | Inr (ih, name) \<Rightarrow> (Inr (m, ih, name), s))
        | None \<Rightarrow>
          (case m_infohash m of
             Some ih \<Rightarrow>
               if length ih \<noteq> 40 \<or> HexstrToBytes ih = None then (Inl (the (assign INFOHASH_NOT_CORRECT)), s)
               else (case GetMetaByInfohash ih s of
                       (None, s) \<Rightarrow> (Inl (the (assign NO_METADATA)), s)
                     | (Some md, s) \<Rightarrow>
                         if \<not> parse_metadata e ih (str_field (m_new_name m)) (metadata md) then (Inl (metadata_error e), s)
                         else (Inr (m, ih, torrent_name e ih (str_field (m_new_name m)) (metadata md)), s))
           | None \<Rightarrow> (Inl (the (assign MSG_ARGS_ERROR)), s))))"

text \<open>
  The conflict check: by info hash first and by data path only when the info hash is
  new. The task in conflict makes way for a seeding task, and a \<open>NOCHECK\<close> task makes
  way for any; otherwise the request fails.
\<close>

definition find_dup :: "string \<Rightarrow> string \<Rightarrow> TaskManager \<Rightarrow> (address \<times> Task) option" where
  "find_dup ih path s =
    (let lock = (\<lambda>a. map_option (Pair a) (map_of (heap s) a)) in
     case map_of (infohash_map s) ih of
       Some a \<Rightarrow> lock a
     | None \<Rightarrow> (case map_of (data_path_map s) path of Some a \<Rightarrow> lock a | None \<Rightarrow> None))"

definition resolve_dup :: "agent_env \<Rightarrow> string \<Rightarrow> string \<Rightarrow> TaskType \<Rightarrow> TaskManager \<Rightarrow> bool \<times> TaskManager \<times> tm_effect list" where
  "resolve_dup e ih path ty s =
    (case find_dup ih path s of
       None \<Rightarrow> (True, s, [])
     | Some (a, t) \<Rightarrow>
         if type t = NOCHECK_TASK \<or> ty = SEEDING_TASK
         then let s = erase_from_map t s;
                  s = set_object a (Cancel t) s;
                  (s, es) = release e a s
              in (True, s, map TaskEffect (RemoveTorrent t) @ es)
         else (False, s, []))"

definition AddTask :: "agent_env \<Rightarrow> ucred \<Rightarrow> task_message \<Rightarrow> task_options \<Rightarrow> TaskManager \<Rightarrow> TaskManager \<times> tm_effect list \<times> error_code" where
  "AddTask e c m opts s =
    (let m = m\<lparr>m_uid := Some (c_uid c), m_gid := Some (c_gid c)\<rparr> in
     case find_torrent e m s of
       (Inl ec, s) \<Rightarrow> (s, [], Some ec)
     | (Inr (m, ti_hash, name), s) \<Rightarrow>
         let m = (if str_field (m_new_name m) = [] then m\<lparr>m_new_name := Some name\<rparr> else m);
             path = str_field (m_save_path m) @ ''/'' @ str_field (m_new_name m);
             (ok, s, es) = resolve_dup e (str_field (m_infohash m)) path (type_field (m_type m)) s
         in if \<not> ok then (s, es, assign DUP_TASK_ERROR)
            else
              let (r, es') = Create (uninit_cred e) (id_outcomes e) (default_trackers e) (add_torrent e) (limits_of e)
                    (metadata_of e) (opens_file e) (resume_dir e) ti_hash m opts
              in (case r of
                    Created t \<Rightarrow>
                      let (a, s) = alloc t s in
                      (add_to_map a t s, es @ map TaskEffect es' @ [Reply (ResTask (task_id t))], None)
                  | NullTask ADD_TORRENT_ERROR \<Rightarrow> (s, es @ map TaskEffect es', Some (add_error e))
                  | NullTask er \<Rightarrow> (s, es @ map TaskEffect es', assign er)
                  | Throws \<Rightarrow> (s, es @ map TaskEffect es', None)))"

subsection \<open>Controlling tasks\<close>

datatype ctrl_t = CANCEL_CTRL | PAUSE_CTRL | RESUME_CTRL | LIST_CTRL

record batch_ctrl =
  ctrl_type :: ctrl_t
  ctrl_all :: bool
  taskids :: "int list"

text \<open>One task; the entry it adds to the response is a list of at most one element.\<close>

definition CtrlTask :: "agent_env \<Rightarrow> int \<Rightarrow> ucred \<Rightarrow> ctrl_t \<Rightarrow> bool \<Rightarrow> TaskManager \<Rightarrow>
  TaskManager \<times> tm_effect list \<times> (int \<times> int \<times> string) list" where
  "CtrlTask e taskid c ty skip s =
    (case map_of (tasks_map s) taskid of
       None \<Rightarrow> (s, [], [(taskid, ec_value TASK_NOT_FOUND, ''task not found'')])
     | Some a \<Rightarrow>
       (case map_of (heap s) a of
          None \<Rightarrow> (s, [], [])
        | Some t \<Rightarrow>
            if \<not> CheckCred (self_uid e) c t
            then (s, [], if \<not> skip then [(taskid, ec_value CHECK_CRED_FAILED, ''check cred fail'')] else [])
            else
              let (s, es) = (case ty of
                     CANCEL_CTRL \<Rightarrow> release e a (set_object a (Cancel t) (erase_from_map t s))
                   | PAUSE_CTRL \<Rightarrow> (s, map TaskEffect (Pause t))
                   | RESUME_CTRL \<Rightarrow> (s, map TaskEffect (Resume t))
                   | LIST_CTRL \<Rightarrow> (s, []))
              in (s, es, [(taskid, ec_value NO_ERROR, ''No error'')])))"

fun ctrl_loop :: "agent_env \<Rightarrow> ucred \<Rightarrow> ctrl_t \<Rightarrow> bool \<Rightarrow> int list \<Rightarrow> TaskManager \<Rightarrow>
  TaskManager \<times> tm_effect list \<times> (int \<times> int \<times> string) list" where
  "ctrl_loop e c ty skip [] s = (s, [], [])"
| "ctrl_loop e c ty skip (i # is) s =
    (let (s, es, rs) = CtrlTask e i c ty skip s; (s, es', rs') = ctrl_loop e c ty skip is s
     in (s, es @ es', rs @ rs'))"

text \<open>\<open>std::map\<close> iterates in key order; the iterator steps on before the entry may go.\<close>

definition BatchCtrlTasks :: "agent_env \<Rightarrow> ucred \<Rightarrow> batch_ctrl \<Rightarrow> TaskManager \<Rightarrow> TaskManager \<times> tm_effect list" where
  "BatchCtrlTasks e c m s =
    (let (s, es, rs) = (if ctrl_all m then ctrl_loop e c (ctrl_type m) True (sort (map fst (tasks_map s))) s
                        else ctrl_loop e c (ctrl_type m) False (taskids m) s)
     in (s, es @ [Reply (ResBatchCtrl rs)]))"

definition ListTask :: "agent_env \<Rightarrow> int \<Rightarrow> TaskManager \<Rightarrow> task_status_message" where
  "ListTask e taskid s =
    GetStatus (status_of e) (no_status e) (task_rows e taskid)
      (case Option.bind (map_of (tasks_map s) taskid) (map_of (heap s)) of
         None \<Rightarrow> new_Task (uninit_cred e) taskid | Some t \<Rightarrow> t)"

definition ListTasks :: "agent_env \<Rightarrow> batch_ctrl \<Rightarrow> TaskManager \<Rightarrow> tm_effect list" where
  "ListTasks e m s =
    [Reply (ResBatchList (map (\<lambda>i. ListTask e i s) (if ctrl_all m then sort (map fst (tasks_map s)) else taskids m)))]"

definition find_task :: "task_options \<Rightarrow> TaskManager \<Rightarrow> Task option" where
  "find_task opts s = Option.bind (map_of (tasks_map s) (int_field (o_taskid opts))) (map_of (heap s))"

text \<open>The last argument is the error code as the caller passes it, by reference.\<close>

definition TaskSetopt :: "agent_env \<Rightarrow> ucred \<Rightarrow> task_options \<Rightarrow> TaskManager \<Rightarrow> error_code \<Rightarrow> tm_effect list \<times> error_code" where
  "TaskSetopt e c opts s ec =
    (case find_task opts s of
       None \<Rightarrow> ([], assign TASK_NOT_FOUND)
     | Some t \<Rightarrow>
         if \<not> CheckCred (self_uid e) c t then ([], assign CHECK_CRED_FAILED)
         else (map TaskEffect (SetOptions opts t) @ [WriteBaseMessage ec], ec))"

definition TaskGetopt :: "agent_env \<Rightarrow> task_options \<Rightarrow> TaskManager \<Rightarrow> error_code \<Rightarrow> tm_effect list \<times> error_code" where
  "TaskGetopt e opts s ec =
    (case find_task opts s of
       None \<Rightarrow> ([], assign TASK_NOT_FOUND)
     | Some t \<Rightarrow>
         ([Reply (ResTaskGetopt (GetOptions
             (case torrent t of None \<Rightarrow> (0, 0) | Some h \<Rightarrow> (l_upload (limits_of e h), l_max_connections (limits_of e h))) opts))], ec))"

text \<open>The update of the configuration table runs in all three rounds: a success does not leave the loop.\<close>

fun config_loop :: "nat \<Rightarrow> bool list \<Rightarrow> string \<Rightarrow> tm_effect list" where
  "config_loop 0 outs sql = []"
| "config_loop (Suc n) outs sql =
    SqlConfig sql # (if (case outs of [] \<Rightarrow> False | b # _ \<Rightarrow> b) then [] else [TaskEffect ReconnectDb]) @
    config_loop n (drop 1 outs) sql"

definition sql_update_config :: "int \<Rightarrow> int \<Rightarrow> string" where
  "sql_update_config conns upload =
    ''update agent_config set connection_limit = '' @ show_int conns @ '', upload_limit = '' @
    show_int (upload sdiv 1024 sdiv 1024)"

definition AgentSetopt :: "agent_env \<Rightarrow> ucred \<Rightarrow> agent_options \<Rightarrow> error_code \<Rightarrow> tm_effect list \<times> error_code" where
  "AgentSetopt e c opts ec =
    (if c_uid c \<noteq> 0 \<and> c_uid c \<noteq> self_uid e then ([], assign CHECK_CRED_FAILED)
     else
       let conns = (case a_max_conections opts of None \<Rightarrow> fst (session_limits e) | Some n \<Rightarrow> n);
           upload = (case a_upload_limit opts of None \<Rightarrow> snd (session_limits e) | Some n \<Rightarrow> n)
       in ([SetSession conns upload] @ config_loop 3 (config_outcomes e) (sql_update_config conns upload) @
           [WriteBaseMessage ec], ec))"

definition AgentGetopt :: "agent_env \<Rightarrow> agent_options \<Rightarrow> tm_effect list" where
  "AgentGetopt e opts =
    [Reply (ResAgentGetopt (opts\<lparr>a_bind_port := Some (listen_port e),
       a_max_conections := map_option (\<lambda>_. fst (session_limits e)) (a_max_conections opts),
       a_upload_limit := map_option (\<lambda>_. snd (session_limits e)) (a_upload_limit opts)\<rparr>))]"

subsection \<open>Requests\<close>

text \<open>A request with what \<open>ParseFromArray\<close> returned and left in the message.\<close>

datatype request =
    REQ_BATCH_CTRL bool batch_ctrl
  | REQ_ADD_TASK bool task_message task_options
  | REQ_ADD_METADATA bool string string
  | REQ_TASK_SETOPT bool task_options
  | REQ_TASK_GETOPT bool task_options
  | REQ_AGENT_SETOPT bool agent_options
  | REQ_AGENT_GETOPT bool agent_options
  | REQ_OTHER int

fun parsed :: "request \<Rightarrow> bool" where
  "parsed (REQ_BATCH_CTRL b _) = b" | "parsed (REQ_ADD_TASK b _ _) = b" | "parsed (REQ_ADD_METADATA b _ _) = b"
| "parsed (REQ_TASK_SETOPT b _) = b" | "parsed (REQ_TASK_GETOPT b _) = b" | "parsed (REQ_AGENT_SETOPT b _) = b"
| "parsed (REQ_AGENT_GETOPT b _) = b" | "parsed (REQ_OTHER _) = True"

text \<open>The macro's \<open>break\<close> leaves only its own \<open>do\<close> block: the handler runs all the same.\<close>

definition PARSE_MSG :: "bool \<Rightarrow> error_code" where
  "PARSE_MSG ok = (if \<not> ok then assign PROTOBUF_PARSE_ERROR else None)"

fun dispatch :: "agent_env \<Rightarrow> ucred \<Rightarrow> request \<Rightarrow> TaskManager \<Rightarrow> TaskManager \<times> tm_effect list \<times> error_code" where
  "dispatch e c (REQ_BATCH_CTRL ok m) s =
    (if ctrl_type m = LIST_CTRL then (s, ListTasks e m s, PARSE_MSG ok)
     else let (s, es) = BatchCtrlTasks e c m s in (s, es, PARSE_MSG ok))"
| "dispatch e c (REQ_ADD_TASK ok m opts) s =
    AddTask e c m opts s"
| "dispatch e c (REQ_ADD_METADATA ok ih data) s =
    (AddMetadata e ih data s, [WriteBaseMessage (PARSE_MSG ok)], PARSE_MSG ok)"
| "dispatch e c (REQ_TASK_SETOPT ok opts) s =
    (s, TaskSetopt e c opts s (PARSE_MSG ok))"
| "dispatch e c (REQ_TASK_GETOPT ok opts) s =
    (s, TaskGetopt e opts s (PARSE_MSG ok))"
| "dispatch e c (REQ_AGENT_SETOPT ok opts) s =
    (s, AgentSetopt e c opts (PARSE_MSG ok))"
| "dispatch e c (REQ_AGENT_GETOPT ok opts) s = (s, AgentGetopt e opts, PARSE_MSG ok)"
| "dispatch e c (REQ_OTHER ty) s = (s, [], assign MSG_ARGS_ERROR)"

definition ProcessMessage :: "agent_env \<Rightarrow> ucred \<Rightarrow> request \<Rightarrow> TaskManager \<Rightarrow> TaskManager \<times> tm_effect list" where
  "ProcessMessage e c r s =
    (let (s, es, ec) = dispatch e c r s in (s, if ec \<noteq> None then es @ [WriteBaseMessage ec] else es))"

subsection \<open>libtorrent's alerts\<close>

text \<open>The timer's argument is an \<open>int\<close>: a 64-bit task id is truncated to 32 bits.\<close>

definition SeedingTimerCallback :: "agent_env \<Rightarrow> bool \<Rightarrow> int \<Rightarrow> TaskManager \<Rightarrow> TaskManager \<times> tm_effect list" where
  "SeedingTimerCallback e ec taskid64 s =
    (if ec then (s, [])
     else let taskid = sint (word_of_int taskid64 :: u32) in
       case map_of (tasks_map s) taskid of
         None \<Rightarrow> (s, [])
       | Some a \<Rightarrow> (case map_of (heap s) a of None \<Rightarrow> (s, [])
           | Some t \<Rightarrow> release e a (erase_from_map t s)))"

definition task_by_torrent :: "nat option \<Rightarrow> TaskManager \<Rightarrow> (address \<times> Task) option" where
  "task_by_torrent h s =
    (if h = None then None
     else case map_of (torrent_map s) h of None \<Rightarrow> None
       | Some a \<Rightarrow> map_option (Pair a) (map_of (heap s) a))"

definition OnTorrentFinished :: "agent_env \<Rightarrow> nat option \<Rightarrow> TaskManager \<Rightarrow> tm_effect list" where
  "OnTorrentFinished e h s =
    (case task_by_torrent h s of None \<Rightarrow> []
     | Some (a, t) \<Rightarrow> map TaskEffect (ToSeeding (case torrent t of None \<Rightarrow> no_status e | Some h \<Rightarrow> status_of e h) (update_ok e) t))"

definition RemoveTaskByError :: "agent_env \<Rightarrow> address \<Rightarrow> Task \<Rightarrow> string \<Rightarrow> TaskManager \<Rightarrow> TaskManager \<times> tm_effect list" where
  "RemoveTaskByError e a t er s = release e a (erase_from_map t (set_object a (set_error er t) s))"

definition OnTorrentError :: "agent_env \<Rightarrow> nat option \<Rightarrow> string \<Rightarrow> TaskManager \<Rightarrow> TaskManager \<times> tm_effect list" where
  "OnTorrentError e h er s =
    (case task_by_torrent h s of None \<Rightarrow> (s, []) | Some (a, t) \<Rightarrow> RemoveTaskByError e a t er s)"

subsection \<open>Shutting down and starting again\<close>

fun persist_loop :: "agent_env \<Rightarrow> int list \<Rightarrow> TaskManager \<Rightarrow> TaskManager \<times> tm_effect list" where
  "persist_loop e [] s = (s, [])"
| "persist_loop e (i # is) s =
    (case Option.bind (map_of (tasks_map s) i) (\<lambda>a. map_option (Pair a) (map_of (heap s) a)) of
       None \<Rightarrow> persist_loop e is s
     | Some (a, t) \<Rightarrow>
         let (s, es) = release e a (set_object a (Persist t) (erase_from_map t s)); (s, es') = persist_loop e is s
         in (s, es @ es'))"

definition PersistTasks :: "agent_env \<Rightarrow> TaskManager \<Rightarrow> TaskManager \<times> tm_effect list" where
  "PersistTasks e s = persist_loop e (sort (map fst (tasks_map s))) s"

text \<open>
  The regular files of the resume directory with their bdecoded content, \<open>None\<close> one
  that does not open. A file that gives no task is unlinked; an exception ends the loop.
\<close>

definition resume_file :: "agent_env \<Rightarrow> string \<Rightarrow> entry option \<Rightarrow> TaskManager \<Rightarrow> bool \<times> TaskManager \<times> tm_effect list" where
  "resume_file e file content s =
    (case CreateFromResumeFile (uninit_cred e) (parse_metadata e) (default_trackers e) (add_torrent e) content of
       (Throws, es) \<Rightarrow> (False, s, map TaskEffect es)
     | (NullTask _, es) \<Rightarrow> (True, s, map TaskEffect (es @ [Unlink file]))
     | (Created t, es) \<Rightarrow>
         let old = map_of (tasks_map s) (task_id t);
             (a, s) = alloc t s;
             s = add_to_map a t s;
             (s, es1) = (case old of None \<Rightarrow> (s, []) | Some b \<Rightarrow> release e b s)
         in (True, s, map TaskEffect es @ es1))"

fun AddResumeTask :: "agent_env \<Rightarrow> (string \<times> entry option) list \<Rightarrow> TaskManager \<Rightarrow> TaskManager \<times> tm_effect list" where
  "AddResumeTask e [] s = (s, [])"
| "AddResumeTask e ((file, content) # fs) s =
    (let (go, s, es) = resume_file e file content s in
     if \<not> go then (s, es) else let (s, es') = AddResumeTask e fs s in (s, es @ es'))"

definition OnListenFailed :: "agent_env \<Rightarrow> bool \<Rightarrow> bool \<Rightarrow> int \<Rightarrow> TaskManager \<Rightarrow> TaskManager \<times> tm_effect list" where
  "OnListenFailed e tcp v4 port s = (if tcp \<and> v4 \<and> port = listen_port e then PersistTasks e s else (s, []))"

end
