(* ===== verification/TaskManagerInv.thy ===== *)
theory TaskManagerInv
  imports TaskManager
begin

text \<open>
  The invariant of the task manager: the maps by identifier, info hash and torrent are
  exact indexes of the live task objects, the data-path map a partial one; and the steps
  that keep it.
\<close>

subsection \<open>Indexes of a heap\<close>

definition indexes :: "('o \<Rightarrow> 'k) \<Rightarrow> ('k \<Rightarrow> address option) \<Rightarrow> (address \<Rightarrow> 'o option) \<Rightarrow> bool" where
  "indexes key m H \<longleftrightarrow> (\<forall>k a. m k = Some a \<longleftrightarrow> (\<exists>t. H a = Some t \<and> key t = k))"

definition sub_index :: "('o \<Rightarrow> 'k) \<Rightarrow> ('k \<Rightarrow> address option) \<Rightarrow> (address \<Rightarrow> 'o option) \<Rightarrow> bool" where
  "sub_index key m H \<longleftrightarrow> (\<forall>k a. m k = Some a \<longrightarrow> (\<exists>t. H a = Some t \<and> key t = k))"

lemma indexes_add:
  "indexes key m H \<Longrightarrow> H a = None \<Longrightarrow> m (key t) = None \<Longrightarrow> indexes key (m(key t \<mapsto> a)) (H(a \<mapsto> t))"
  unfolding indexes_def by (auto split: if_splits) (metis option.distinct(1) option.inject)+

lemma indexes_del:
  "indexes key m H \<Longrightarrow> H a = Some t \<Longrightarrow> indexes key (m(key t := None)) (H(a := None))"
  unfolding indexes_def by (auto split: if_splits) (metis option.distinct(1) option.inject)+

lemma indexes_fresh: "indexes key m H \<Longrightarrow> (\<And>a t. H a = Some t \<Longrightarrow> key t \<noteq> k) \<Longrightarrow> m k = None"
  unfolding indexes_def by (metis not_None_eq)

lemma indexesD: "indexes key m H \<Longrightarrow> m k = Some a \<Longrightarrow> \<exists>t. H a = Some t \<and> key t = k"
  unfolding indexes_def by blast

lemma indexesI': "indexes key m H \<Longrightarrow> H a = Some t \<Longrightarrow> m (key t) = Some a"
  unfolding indexes_def by blast

lemma sub_index_add:
  "sub_index key m H \<Longrightarrow> H a = None \<Longrightarrow> sub_index key (m(key t \<mapsto> a)) (H(a \<mapsto> t))"
  unfolding sub_index_def by (auto split: if_splits) (metis option.distinct(1) option.inject)+

lemma sub_index_del:
  "sub_index key m H \<Longrightarrow> H a = Some t \<Longrightarrow> sub_index key (m(key t := None)) (H(a := None))"
  unfolding sub_index_def by (auto split: if_splits) (metis option.distinct(1) option.inject)+

subsection \<open>The invariant\<close>

definition live_task :: "Task \<Rightarrow> bool" where
  "live_task t \<longleftrightarrow> has_flag t TASK_FLAG_NOT_NEW \<and> \<not> has_flag t TASK_FLAG_CANCELED \<and> torrent t \<noteq> None"

definition maps_distinct :: "TaskManager \<Rightarrow> bool" where
  "maps_distinct s \<longleftrightarrow> distinct (map fst (heap s)) \<and> distinct (map fst (tasks_map s)) \<and>
     distinct (map fst (torrent_map s)) \<and> distinct (map fst (infohash_map s)) \<and> distinct (map fst (data_path_map s))"

definition tm_inv :: "TaskManager \<Rightarrow> bool" where
  "tm_inv s \<longleftrightarrow> maps_distinct s \<and>
     (\<forall>a. has_key (heap s) a \<longrightarrow> a < next_address s) \<and>
     indexes task_id (map_of (tasks_map s)) (map_of (heap s)) \<and>
     indexes infohash (map_of (infohash_map s)) (map_of (heap s)) \<and>
     indexes torrent (map_of (torrent_map s)) (map_of (heap s)) \<and>
     sub_index get_data_path (map_of (data_path_map s)) (map_of (heap s)) \<and>
     (\<forall>a t. map_of (heap s) a = Some t \<longrightarrow> live_task t)"

lemma tm_inv_init: "tm_inv new_TaskManager"
  by (simp add: tm_inv_def maps_distinct_def indexes_def sub_index_def new_TaskManager_def)

lemma tm_inv_metas [simp]:
  "tm_inv (s\<lparr>metas := ms\<rparr>) = tm_inv s"
  "tm_inv (s\<lparr>current_metas_total_size := n\<rparr>) = tm_inv s"
  by (simp_all add: tm_inv_def maps_distinct_def)

lemma tm_invD:
  assumes "tm_inv s"
  shows "indexes task_id (map_of (tasks_map s)) (map_of (heap s))"
    and "indexes infohash (map_of (infohash_map s)) (map_of (heap s))"
    and "indexes torrent (map_of (torrent_map s)) (map_of (heap s))"
    and "sub_index get_data_path (map_of (data_path_map s)) (map_of (heap s))"
    and "map_of (heap s) a = Some t \<Longrightarrow> live_task t"
    and "maps_distinct s"
  using assms unfolding tm_inv_def by blast+

subsection \<open>A task comes and goes\<close>

definition insert_task :: "Task \<Rightarrow> TaskManager \<Rightarrow> TaskManager" where
  "insert_task t s = (let (a, s) = alloc t s in add_to_map a t s)"

definition remove_task :: "address \<Rightarrow> Task \<Rightarrow> TaskManager \<Rightarrow> TaskManager" where
  "remove_task a t s = (erase_from_map t s)\<lparr>heap := AList.delete a (heap s)\<rparr>"

lemma insert_task_inv:
  assumes inv: "tm_inv s" and live: "live_task t"
    and new: "\<not> has_key (tasks_map s) (task_id t)" "\<not> has_key (infohash_map s) (infohash t)"
      "\<And>a u. map_of (heap s) a = Some u \<Longrightarrow> torrent u \<noteq> torrent t"
  shows "tm_inv (insert_task t s)"
proof -
  let ?a = "next_address s"
  have h: "map_of (heap s) ?a = None"
    using inv unfolding tm_inv_def by (metis less_irrefl)
  have tr: "map_of (torrent_map s) (torrent t) = None"
    using indexes_fresh [OF tm_invD(3) [OF inv]] new(3) by blast
  have d: "maps_distinct (insert_task t s)"
    using tm_invD(6) [OF inv] by (simp add: maps_distinct_def insert_task_def alloc_def add_to_map_def Let_def)
  show ?thesis
    unfolding tm_inv_def
  proof (intro conjI)
    show "maps_distinct (insert_task t s)" by (rule d)
    show "\<forall>a. has_key (heap (insert_task t s)) a \<longrightarrow> a < next_address (insert_task t s)"
      using inv by (auto simp: tm_inv_def insert_task_def alloc_def add_to_map_def simp del: map_of_eq_Some_iff intro: less_SucI)
    show "\<forall>a u. map_of (heap (insert_task t s)) a = Some u \<longrightarrow> live_task u"
      using tm_invD(5) [OF inv] live by (simp add: insert_task_def alloc_def add_to_map_def)
  qed (use h tr new tm_invD [OF inv] in \<open>simp_all add: insert_task_def alloc_def add_to_map_def indexes_add sub_index_add\<close>)
qed

lemma remove_task_inv:
  assumes inv: "tm_inv s" and a: "map_of (heap s) a = Some t"
  shows "tm_inv (remove_task a t s)"
  unfolding tm_inv_def
proof (intro conjI)
  show "maps_distinct (remove_task a t s)"
    using tm_invD(6) [OF inv] by (simp add: maps_distinct_def remove_task_def erase_from_map_def)
  show "\<forall>b. has_key (heap (remove_task a t s)) b \<longrightarrow> b < next_address (remove_task a t s)"
    using inv by (simp add: tm_inv_def remove_task_def erase_from_map_def)
  show "\<forall>b u. map_of (heap (remove_task a t s)) b = Some u \<longrightarrow> live_task u"
    using tm_invD(5) [OF inv] by (simp add: remove_task_def erase_from_map_def)
qed (use a tm_invD [OF inv] in \<open>simp_all add: remove_task_def erase_from_map_def indexes_del sub_index_del\<close>)

lemma release_removed:
  assumes inv: "tm_inv s" and a: "map_of (heap s) a = Some t"
  shows "release e a (set_object a u (erase_from_map t s)) = (remove_task a t s, destroy e u)"
    and "release e a (erase_from_map t s) = (remove_task a t s, destroy e t)"
    and "release e a (erase_from_map t (set_object a u s)) = (remove_task a t s, destroy e u)"
proof -
  have d: "distinct (map fst (AList.delete (task_id t) (tasks_map s)))"
    using tm_invD(6) [OF inv] by (simp add: maps_distinct_def)
  have "a \<notin> snd ` set (AList.delete (task_id t) (tasks_map s))"
  proof
    assume "a \<in> snd ` set (AList.delete (task_id t) (tasks_map s))"
    then obtain k where "(k, a) \<in> set (AList.delete (task_id t) (tasks_map s))" by auto
    then have "map_of (AList.delete (task_id t) (tasks_map s)) k = Some a"
      using d by (rule map_of_is_SomeI [rotated])
    then have "k \<noteq> task_id t" "map_of (tasks_map s) k = Some a"
      by (auto simp del: map_of_eq_Some_iff split: if_splits)
    then show False using indexesD [OF tm_invD(1) [OF inv]] a by fastforce
  qed
  then show "release e a (set_object a u (erase_from_map t s)) = (remove_task a t s, destroy e u)"
    and "release e a (erase_from_map t s) = (remove_task a t s, destroy e t)"
    and "release e a (erase_from_map t (set_object a u s)) = (remove_task a t s, destroy e u)"
    using a by (simp_all add: release_def erase_from_map_def set_object_def remove_task_def AList.delete_update_same)
qed

subsection \<open>Creating a task\<close>

lemma gen_id_loop_id:
  "gen_id_loop n outs sql t = (t', es) \<Longrightarrow> task_id t' = task_id t \<or> (\<exists>b. (b, Some (task_id t')) \<in> set outs)"
proof (induction n outs sql t arbitrary: es rule: gen_id_loop.induct)
  case (2 n outs sql t)
  obtain ok row where r: "(case outs of [] \<Rightarrow> (False, None) | r # _ \<Rightarrow> r) = (ok, row)" by fastforce
  define u where "u = (case row of None \<Rightarrow> t | Some i \<Rightarrow> t\<lparr>task_id := i\<rparr>)"
  have u: "task_id u = task_id t \<or> (\<exists>b. (b, Some (task_id u)) \<in> set outs)"
    using r by (cases outs) (auto simp: u_def split: option.splits)
  show ?case
  proof (cases "\<not> ok \<or> task_id u < 0")
    case True
    then obtain es' where "gen_id_loop n (drop 1 outs) sql u = (t', es')"
      using "2.prems" by (auto simp: r u_def [symmetric] Let_def split: prod.splits)
    from "2.IH" [OF refl r [symmetric] u_def True this] u show ?thesis
      by (auto dest: in_set_dropD)
  next
    case False
    then have "t' = u" using "2.prems" by (auto simp: r u_def [symmetric] Let_def)
    then show ?thesis using u by simp
  qed
qed simp

lemma Create_created:
  assumes "Create u outs dt add lim md op dir ti m opts = (Created t, es)"
  shows "infohash t = str_field (m_infohash m)" and "live_task t"
    and "get_data_path t = str_field (m_save_path m) @ ''/'' @ str_field (m_new_name m)"
    and "c_uid (cred t) = int_field (m_uid m)" and "type t = type_field (m_type m)"
    and "\<exists>b. (b, Some (task_id t)) \<in> set outs" and "\<exists>p. add p = torrent t"
proof -
  define t0 where "t0 = (new_Task u (- 1))\<lparr>infohash := str_field (m_infohash m),
           cred := \<lparr> c_pid = c_pid u, c_uid = int_field (m_uid m), c_gid = int_field (m_gid m) \<rparr>,
           cmd := str_field (m_cmd m), save_path := str_field (m_save_path m),
           new_name := str_field (m_new_name m), seeding_time := int_field (m_seeding_time m),
           type := type_field (m_type m)\<rparr>"
  obtain t1 es1 where g: "gen_id_loop 3 outs (sql_insert_task t0) t0 = (t1, es1)" by fastforce
  have gt: "GenTaskId outs t0 = (task_id t1 \<ge> 0, t1, es1)" by (simp add: GenTaskId_def g)
  obtain h trs where t: "task_id t1 \<ge> 0"
      "t = t1\<lparr>trackers := trs, torrent := Some h, flags := flags t1 OR TASK_FLAG_NOT_NEW\<rparr>" "\<exists>p. add p = Some h"
    using assms unfolding Create_def t0_def [symmetric] gt Let_def prod.case
    by (auto split: if_splits option.splits)
  have t1: "t1 = t0\<lparr>task_id := task_id t1\<rparr>" by (rule gen_id_loop_rest [OF g])
  have f: "infohash t1 = infohash t0" "save_path t1 = save_path t0" "new_name t1 = new_name t0"
      "cred t1 = cred t0" "type t1 = type t0" "flags t1 = 0"
    by (subst t1, simp add: t0_def new_Task_def)+
  show "infohash t = str_field (m_infohash m)"
    and "get_data_path t = str_field (m_save_path m) @ ''/'' @ str_field (m_new_name m)"
    and "c_uid (cred t) = int_field (m_uid m)" and "type t = type_field (m_type m)"
    by (simp_all add: t(2) f get_data_path_def t0_def)
  show "live_task t" by (simp add: t(2) f live_task_def has_flag_bit flip: One_nat_def)
  show "\<exists>p. add p = torrent t" using t by simp
  show "\<exists>b. (b, Some (task_id t)) \<in> set outs"
    using gen_id_loop_id [OF g] t(1,2) by (auto simp: t0_def new_Task_def)
qed

lemma Create_not_throws: "fst (Create u outs dt add lim md op dir ti m opts) \<noteq> Throws"
  by (simp add: Create_def Let_def split: prod.splits option.splits)

subsection \<open>The handlers keep the invariant\<close>

text \<open>
  What the code relies on: \<open>add_torrent\<close> returns a handle no live task has, and the
  database a row identifier no live task has.
\<close>

definition env_fresh :: "agent_env \<Rightarrow> TaskManager \<Rightarrow> bool" where
  "env_fresh e s \<longleftrightarrow>
     (\<forall>p h a t. add_torrent e p = Some h \<longrightarrow> map_of (heap s) a = Some t \<longrightarrow> torrent t \<noteq> Some h) \<and>
     (\<forall>b i. (b, Some i) \<in> set (id_outcomes e) \<longrightarrow> \<not> has_key (tasks_map s) i)"

text \<open>Only the metadata list changes.\<close>

definition same_tasks :: "TaskManager \<Rightarrow> TaskManager \<Rightarrow> bool" where
  "same_tasks s s' \<longleftrightarrow> heap s' = heap s \<and> next_address s' = next_address s \<and> tasks_map s' = tasks_map s \<and>
     torrent_map s' = torrent_map s \<and> infohash_map s' = infohash_map s \<and> data_path_map s' = data_path_map s"

lemma same_tasks_maps:
  assumes "same_tasks s s'"
  shows "tm_inv s' = tm_inv s" "env_fresh e s' = env_fresh e s" "heap s' = heap s" "tasks_map s' = tasks_map s"
    "infohash_map s' = infohash_map s" "data_path_map s' = data_path_map s"
  using assms by (simp_all add: same_tasks_def env_fresh_def tm_inv_def maps_distinct_def)

lemma same_tasks_refl [simp]: "same_tasks s s"
  by (simp add: same_tasks_def)

lemma GetMeta_same: "GetMetaByInfohash ih s = (md, s') \<Longrightarrow> same_tasks s s'"
  by (auto simp: GetMetaByInfohash_def same_tasks_def split: option.splits)

lemma find_torrent_same: "find_torrent e m s = (r, s') \<Longrightarrow> same_tasks s s'"
  using GetMeta_same
  by (fastforce simp: find_torrent_def split: option.splits if_splits sum.splits prod.splits)

lemma AddMetadata_same: "same_tasks s (AddMetadata e ih data s)"
  by (auto simp: AddMetadata_def Let_def same_tasks_def split: prod.splits)

lemma find_dup_heap: "find_dup ih path s = Some (a, t) \<Longrightarrow> map_of (heap s) a = Some t"
  by (auto simp: find_dup_def Let_def simp del: map_of_eq_Some_iff split: option.splits)

lemma remove_task_maps [simp]:
  "map_of (heap (remove_task a t s)) = (map_of (heap s))(a := None)"
  "map_of (tasks_map (remove_task a t s)) = (map_of (tasks_map s))(task_id t := None)"
  "map_of (infohash_map (remove_task a t s)) = (map_of (infohash_map s))(infohash t := None)"
  "map_of (torrent_map (remove_task a t s)) = (map_of (torrent_map s))(torrent t := None)"
  by (simp_all add: remove_task_def erase_from_map_def)

lemma remove_task_fresh: "env_fresh e s \<Longrightarrow> env_fresh e (remove_task a t s)"
  by (auto simp: env_fresh_def simp del: map_of_eq_Some_iff)

lemma resolve_dup_effect:
  assumes inv: "tm_inv s" and r: "resolve_dup e ih path ty s = (ok, s', es)"
  shows "tm_inv s'" and "env_fresh e s \<Longrightarrow> env_fresh e s'" and "ok \<Longrightarrow> \<not> has_key (infohash_map s') ih"
proof -
  consider (none) "find_dup ih path s = None" "ok" "s' = s"
    | (refused) "\<not> ok" "s' = s"
    | (removed) a t where "find_dup ih path s = Some (a, t)" "s' = remove_task a t s"
    using r release_removed(1) [OF inv find_dup_heap]
    by (auto simp: resolve_dup_def Let_def split: option.splits if_splits)
  then have "tm_inv s' \<and> (env_fresh e s \<longrightarrow> env_fresh e s') \<and> (ok \<longrightarrow> map_of (infohash_map s') ih = None)"
  proof cases
    case none
    then show ?thesis
      using inv indexesD [OF tm_invD(2) [OF inv], of ih]
      by (fastforce simp: find_dup_def Let_def simp del: map_of_eq_Some_iff split: option.splits)
  next
    case refused
    then show ?thesis using inv by simp
  next
    case (removed a t)
    have h: "map_of (heap s) a = Some t" by (rule find_dup_heap [OF removed(1)])
    have "infohash t = ih \<or> map_of (infohash_map s) ih = None"
      using removed(1) indexesD [OF tm_invD(2) [OF inv], of ih]
      by (fastforce simp: find_dup_def Let_def simp del: map_of_eq_Some_iff split: option.splits)
    then show ?thesis
      using remove_task_inv [OF inv h] remove_task_fresh [of e s a t] removed(2) by auto
  qed
  then show "tm_inv s'" and "env_fresh e s \<Longrightarrow> env_fresh e s'" and "ok \<Longrightarrow> \<not> has_key (infohash_map s') ih"
    by simp_all
qed

text \<open>The course of an addition: no torrent, or the conflict check and the creation.\<close>

lemma AddTask_cases:
  assumes r: "AddTask e c m opts s = (s', es, ec)"
  obtains (failed) ec' where "same_tasks s s'" "es = []" "ec = Some ec'"
  | (found) m2 ti path s1 ok s2 es2 cr es3 where "same_tasks s s1"
      "resolve_dup e (str_field (m_infohash m2)) path (type_field (m_type m2)) s1 = (ok, s2, es2)"
      "Create (uninit_cred e) (id_outcomes e) (default_trackers e) (add_torrent e) (limits_of e)
        (metadata_of e) (opens_file e) (resume_dir e) ti m2 opts = (cr, es3)"
      "(s', es, ec) = (if \<not> ok then (s2, es2, assign DUP_TASK_ERROR) else
        (case cr of Created t \<Rightarrow> (insert_task t s2, es2 @ map TaskEffect es3 @ [Reply (ResTask (task_id t))], None)
         | NullTask ADD_TORRENT_ERROR \<Rightarrow> (s2, es2 @ map TaskEffect es3, Some (add_error e))
         | NullTask er \<Rightarrow> (s2, es2 @ map TaskEffect es3, assign er)
         | Throws \<Rightarrow> (s2, es2 @ map TaskEffect es3, None)))"
proof -
  let ?m = "m\<lparr>m_uid := Some (c_uid c), m_gid := Some (c_gid c)\<rparr>"
  obtain f s1 where f: "find_torrent e ?m s = (f, s1)" by fastforce
  note same = find_torrent_same [OF f]
  show ?thesis
  proof (cases f)
    case (Inl ec')
    then show ?thesis using r f same by (intro failed) (auto simp: AddTask_def)
  next
    case (Inr p)
    obtain m1 ti name where p: "f = Inr (m1, ti, name)" using Inr by (cases p) auto
    define m2 where "m2 = (if str_field (m_new_name m1) = [] then m1\<lparr>m_new_name := Some name\<rparr> else m1)"
    define path where "path = str_field (m_save_path m2) @ ''/'' @ str_field (m_new_name m2)"
    obtain ok s2 es2 where d: "resolve_dup e (str_field (m_infohash m2)) path (type_field (m_type m2)) s1 = (ok, s2, es2)"
      by (metis prod_cases3)
    obtain cr es3 where cr: "Create (uninit_cred e) (id_outcomes e) (default_trackers e) (add_torrent e) (limits_of e)
        (metadata_of e) (opens_file e) (resume_dir e) ti m2 opts = (cr, es3)" by fastforce
    show ?thesis
    proof (rule found [OF same d cr])
      show "(s', es, ec) = (if \<not> ok then (s2, es2, assign DUP_TASK_ERROR) else
        (case cr of Created t \<Rightarrow> (insert_task t s2, es2 @ map TaskEffect es3 @ [Reply (ResTask (task_id t))], None)
         | NullTask ADD_TORRENT_ERROR \<Rightarrow> (s2, es2 @ map TaskEffect es3, Some (add_error e))
         | NullTask er \<Rightarrow> (s2, es2 @ map TaskEffect es3, assign er)
         | Throws \<Rightarrow> (s2, es2 @ map TaskEffect es3, None)))"
        unfolding r [symmetric]
        unfolding AddTask_def Let_def f p prod.case sum.case m2_def [symmetric]
        unfolding path_def [symmetric] d prod.case cr
        by (auto simp: insert_task_def Let_def split: create_result.splits prod.splits)
    qed
  qed
qed

lemma AddTask_inv:
  assumes inv: "tm_inv s" and fresh: "env_fresh e s" and r: "AddTask e c m opts s = (s', es, ec)"
  shows "tm_inv s'"
  using r
proof (cases rule: AddTask_cases)
  case (failed ec')
  then show ?thesis using inv same_tasks_maps(1) by simp
next
  case (found m2 ti path s1 ok s2 es2 cr es3)
  note eff = resolve_dup_effect [OF _ found(2), unfolded same_tasks_maps [OF found(1)]]
  show ?thesis
  proof (cases "ok \<and> (\<exists>t. cr = Created t)")
    case False
    then show ?thesis using found(4) eff(1) inv
      by (auto split: if_splits create_result.splits error_code_t.splits)
  next
    case True
    then obtain t where t: "cr = Created t" "s' = insert_task t s2" using found(4) by auto
    note c = Create_created [OF found(3) [unfolded t(1)]]
    have fr: "env_fresh e s2" using eff(2) inv fresh by blast
    obtain p h where p: "add_torrent e p = Some h" "torrent t = Some h"
      using c(2,7) unfolding live_task_def by (metis not_None_eq)
    show ?thesis
      unfolding t(2)
    proof (rule insert_task_inv)
      show "tm_inv s2" using eff(1) inv by simp
      show "live_task t" by (rule c(2))
      show "\<not> has_key (tasks_map s2) (task_id t)" using c(6) fr unfolding env_fresh_def by blast
      show "\<not> has_key (infohash_map s2) (infohash t)" using eff(3) inv True c(1) by simp
      show "torrent u \<noteq> torrent t" if "map_of (heap s2) a = Some u" for a u
        using fr p that unfolding env_fresh_def by metis
    qed
  qed
qed

lemma CtrlTask_state:
  assumes inv: "tm_inv s" and r: "CtrlTask e i c ty skip s = (s', es, rs)"
  shows "s' = s \<or> (\<exists>a t. map_of (tasks_map s) i = Some a \<and> map_of (heap s) a = Some t \<and>
    CheckCred (self_uid e) c t \<and> ty = CANCEL_CTRL \<and> s' = remove_task a t s)"
  using r release_removed(1) [OF inv]
  by (auto simp: CtrlTask_def Let_def simp del: map_of_eq_Some_iff split: option.splits if_splits ctrl_t.splits prod.splits)

lemma CtrlTask_inv:
  assumes "tm_inv s" "CtrlTask e i c ty skip s = (s', es, rs)"
  shows "tm_inv s'"
  using CtrlTask_state [OF assms]
proof (elim disjE exE conjE)
  show "tm_inv s'" if "s' = s" using assms(1) that by simp
  show "tm_inv s'" if "map_of (heap s) a = Some t" "s' = remove_task a t s" for a t
    unfolding that(2) by (rule remove_task_inv [OF assms(1) that(1)])
qed

lemma ctrl_loop_inv: "tm_inv s \<Longrightarrow> ctrl_loop e c ty skip is s = (s', es, rs) \<Longrightarrow> tm_inv s'"
proof (induction e c ty skip "is" s arbitrary: s' es rs rule: ctrl_loop.induct)
  case (2 e c ty skip i "is" s)
  obtain s1 es1 rs1 where 1: "CtrlTask e i c ty skip s = (s1, es1, rs1)" by (metis prod_cases3)
  obtain s2 es2 rs2 where 2: "ctrl_loop e c ty skip is s1 = (s2, es2, rs2)" by (metis prod_cases3)
  have "s' = s2" using "2.prems"(2) by (simp add: 1 2)
  then show ?case
    using "2.IH" [OF 1 [symmetric] refl refl] CtrlTask_inv [OF "2.prems"(1) 1] 2 by blast
qed simp

lemma BatchCtrl_inv: "tm_inv s \<Longrightarrow> BatchCtrlTasks e c m s = (s', es) \<Longrightarrow> tm_inv s'"
  by (auto simp: BatchCtrlTasks_def Let_def split: prod.splits if_splits dest: ctrl_loop_inv)

lemma dispatch_inv:
  "tm_inv s \<Longrightarrow> env_fresh e s \<Longrightarrow> dispatch e c r s = (s', es, ec) \<Longrightarrow> tm_inv s'"
  using same_tasks_maps(1) [OF AddMetadata_same]
  by (cases r) (auto split: if_splits prod.splits dest: BatchCtrl_inv AddTask_inv)

lemma ProcessMessage_inv:
  "tm_inv s \<Longrightarrow> env_fresh e s \<Longrightarrow> ProcessMessage e c r s = (s', es) \<Longrightarrow> tm_inv s'"
  by (auto simp: ProcessMessage_def Let_def split: prod.splits dest: dispatch_inv)

lemma SeedingTimerCallback_inv: "tm_inv s \<Longrightarrow> tm_inv (fst (SeedingTimerCallback e ec i s))"
  using release_removed(2) remove_task_inv
  by (auto simp: SeedingTimerCallback_def Let_def simp del: map_of_eq_Some_iff split: option.splits)

lemma task_by_torrent_heap: "task_by_torrent h s = Some (a, t) \<Longrightarrow> map_of (heap s) a = Some t"
  by (auto simp: task_by_torrent_def simp del: map_of_eq_Some_iff split: if_splits option.splits)

lemma OnTorrentError_inv: "tm_inv s \<Longrightarrow> tm_inv (fst (OnTorrentError e h er s))"
  using release_removed(3) [OF _ task_by_torrent_heap] remove_task_inv [OF _ task_by_torrent_heap]
  by (auto simp: OnTorrentError_def RemoveTaskByError_def split: option.splits)

lemma persist_loop_inv: "tm_inv s \<Longrightarrow> tm_inv (fst (persist_loop e is s))"
proof (induction e "is" s rule: persist_loop.induct)
  case (2 e i "is" s)
  show ?case
  proof (cases "Option.bind (map_of (tasks_map s) i) (\<lambda>a. map_option (Pair a) (map_of (heap s) a))")
    case None
    then show ?thesis using 2 by simp
  next
    case (Some p)
    then obtain a t where p: "p = (a, t)" "map_of (heap s) a = Some t"
      by (auto simp: bind_eq_Some_conv simp del: map_of_eq_Some_iff)
    then show ?thesis
      using "2.IH"(2) [OF Some p(1) [symmetric] release_removed(1) [OF "2.prems" p(2), symmetric] refl]
        remove_task_inv [OF "2.prems" p(2)] Some release_removed(1) [OF "2.prems" p(2)]
      by (simp add: Let_def case_prod_beta)
  qed
qed simp

lemma CreateFromResume_created:
  assumes "CreateFromResumeFile u pm dt add r = (Created t, es)"
  shows "live_task t" and "\<exists>p h. add p = Some h \<and> torrent t = Some h \<and> p_infohash p = infohash t"
proof -
  have rf: "read_fields u e = Some t0 \<Longrightarrow> flags t0 = 0" for e t0
    by (auto simp: read_fields_def Let_def new_Task_def split: option.splits prod.splits)
  obtain t0 h ih tr trs e where t: "read_fields u e = Some t0" "add (base_params ih (save_path t0) trs (type t0)) = Some h"
      "t = t0\<lparr>infohash := ih, trackers := tr, torrent := Some h, flags := flags t0 OR TASK_FLAG_NOT_NEW\<rparr>"
    using assms unfolding CreateFromResumeFile_def Let_def
    by (auto split: option.splits if_splits entry.splits)
  show "live_task t"
    using rf [OF t(1)] by (simp add: t(3) live_task_def has_flag_bit flip: One_nat_def)
  show "\<exists>p h. add p = Some h \<and> torrent t = Some h \<and> p_infohash p = infohash t"
    using t(2) by (intro exI [of _ "base_params ih (save_path t0) trs (type t0)"]) (simp add: t(3) base_params_def)
qed

end
