(* ===== verification/TaskManagerProps.thy ===== *)
theory TaskManagerProps
  imports TaskManagerInv
begin

text \<open>Properties of the agent's task manager.\<close>

subsection \<open>Reachable states\<close>

text \<open>
  A step is a handler run to its end. Resuming a file relies on libtorrent refusing a
  torrent that is already there and on the file's task id being its own.
\<close>

inductive tm_step :: "TaskManager \<Rightarrow> TaskManager \<Rightarrow> bool" where
  Request: "env_fresh e s \<Longrightarrow> ProcessMessage e c r s = (s', es) \<Longrightarrow> tm_step s s'"
| SeedingTimer: "SeedingTimerCallback e ec i s = (s', es) \<Longrightarrow> tm_step s s'"
| TorrentError: "OnTorrentError e h er s = (s', es) \<Longrightarrow> tm_step s s'"
| Stop: "PersistTasks e s = (s', es) \<Longrightarrow> tm_step s s'"
| Resume: "env_fresh e s \<Longrightarrow>
    (\<And>p. add_torrent e p \<noteq> None \<Longrightarrow> \<not> has_key (infohash_map s) (p_infohash p)) \<Longrightarrow>
    (\<And>t es. CreateFromResumeFile (uninit_cred e) (parse_metadata e) (default_trackers e) (add_torrent e) content =
       (Created t, es) \<Longrightarrow> \<not> has_key (tasks_map s) (task_id t)) \<Longrightarrow>
    resume_file e file content s = (b, s', es) \<Longrightarrow> tm_step s s'"

definition tm_init :: "TaskManager \<Rightarrow> bool" where
  "tm_init s \<longleftrightarrow> s = new_TaskManager"

lemma resume_file_inv:
  assumes inv: "tm_inv s" and fresh: "env_fresh e s"
    and dup: "\<And>p. add_torrent e p \<noteq> None \<Longrightarrow> \<not> has_key (infohash_map s) (p_infohash p)"
    and new: "\<And>t es. CreateFromResumeFile (uninit_cred e) (parse_metadata e) (default_trackers e) (add_torrent e) content =
       (Created t, es) \<Longrightarrow> \<not> has_key (tasks_map s) (task_id t)"
    and r: "resume_file e file content s = (b, s', es)"
  shows "tm_inv s'"
proof (cases "CreateFromResumeFile (uninit_cred e) (parse_metadata e) (default_trackers e) (add_torrent e) content")
  case (Pair cr es')
  show ?thesis
  proof (cases "\<exists>t. cr = Created t")
    case False
    then show ?thesis using r inv Pair by (auto simp: resume_file_def split: create_result.splits)
  next
    case True
    then obtain t where t: "cr = Created t" ..
    note c = Pair [unfolded t]
    have id: "map_of (tasks_map s) (task_id t) = None" using new [OF c] by simp
    then have s': "s' = insert_task t s"
      using r c by (auto simp: resume_file_def insert_task_def Let_def split: prod.splits)
    obtain p h where p: "add_torrent e p = Some h" "torrent t = Some h" "p_infohash p = infohash t"
      using CreateFromResume_created(2) [OF c] by blast
    show ?thesis
      unfolding s'
    proof (rule insert_task_inv [OF inv CreateFromResume_created(1) [OF c]])
      show "\<not> has_key (tasks_map s) (task_id t)" using id by simp
      show "\<not> has_key (infohash_map s) (infohash t)" using dup [of p] p by simp
      show "torrent u \<noteq> torrent t" if "map_of (heap s) a = Some u" for a u
        using fresh p(1,2) that unfolding env_fresh_def by metis
    qed
  qed
qed

lemma tm_inv_step: "tm_inv s \<Longrightarrow> tm_step s t \<Longrightarrow> tm_inv t"
  by (erule tm_step.cases)
    (metis ProcessMessage_inv SeedingTimerCallback_inv OnTorrentError_inv persist_loop_inv PersistTasks_def
      resume_file_inv fst_conv)+

interpretation task_manager: invariant_system tm_init tm_step tm_inv
  by unfold_locales (auto simp: tm_init_def tm_inv_init intro: tm_inv_step)


text \<open>A concrete environment: torrent data is its own info hash, handles count its length, the next row id is \<open>k\<close>.\<close>

definition demo_env :: "int \<Rightarrow> agent_env" where
  "demo_env k = \<lparr>
     status_of = (\<lambda>_. \<lparr> ts_error = [], ts_paused = False, ts_is_finished = True, ts_state = seeding_state,
       ts_progress_ppm = 0, ts_num_peers = 0, ts_num_seeds = 0, ts_upload_rate = 0, ts_total_payload_upload = 0,
       ts_total_payload_download = 0 \<rparr>),
     no_status = \<lparr> ts_error = [], ts_paused = False, ts_is_finished = False, ts_state = downloading,
       ts_progress_ppm = 0, ts_num_peers = 0, ts_num_seeds = 0, ts_upload_rate = 0, ts_total_payload_upload = 0,
       ts_total_payload_download = 0 \<rparr>,
     update_ok = True, resume_dir = ''r'', limits_of = (\<lambda>_. \<lparr> l_upload = 1, l_download = 2, l_max_connections = 3 \<rparr>),
     metadata_of = (\<lambda>_. Some ''m''), opens_file = True, self_uid = 7, uninit_cred = \<lparr> c_pid = 0, c_uid = 0, c_gid = 0 \<rparr>,
     default_trackers = (\<lambda>_. []), add_torrent = (\<lambda>p. Some (length (p_infohash p))), add_error = (1, ''dup''),
     id_outcomes = [(True, Some k)], parse_metadata = (\<lambda>_ _ _. True), metadata_error = (1, ''bad''),
     file_size = (\<lambda>_. 1), parse_torrent = (\<lambda>_ d _. Inr (d, ''name'')), torrent_name = (\<lambda>_ _ _. ''name''),
     max_total_meta_size = 1, max_total_meta_num = 2, session_limits = (0, 0), listen_port = 422,
     config_outcomes = [True, True, True], task_rows = (\<lambda>_. []) \<rparr>"

definition user :: "int \<Rightarrow> ucred" where
  "user u = \<lparr> c_pid = 1, c_uid = u, c_gid = u \<rparr>"

definition add_request :: "TaskType \<Rightarrow> string \<Rightarrow> string \<Rightarrow> request" where
  "add_request ty ih path = REQ_ADD_TASK True
     (empty_task_message\<lparr>m_type := Some ty, m_infohash := Some ih, m_data := Some ih, m_save_path := Some path\<rparr>)
     \<lparr> o_taskid = None, o_upload_limit = None, o_download_limit = None, o_max_conections = None \<rparr>"

definition one_task :: TaskManager where
  "one_task = fst (ProcessMessage (demo_env 5) (user 100) (add_request NOCHECK_TASK (replicate 40 CHR ''a'') ''p'') new_TaskManager)"

lemma env_fresh_new: "env_fresh e new_TaskManager"
  by (simp add: env_fresh_def new_TaskManager_def)

lemma one_task_reach: "reach tm_init tm_step one_task"
  unfolding one_task_def
  by (rule reach_step [OF reach_init [where s = new_TaskManager]])
    (auto simp: tm_init_def intro!: tm_step.Request [OF env_fresh_new] prod.collapse [symmetric])


text \<open>
  The data path is not protected the same way: the info hash already known decides the
  conflict alone, so a task can take the path of a third one; when that one goes, the
  path looks free while it is in use.
\<close>

definition shared_path :: TaskManager where
  "shared_path =
    (let s = fst (ProcessMessage (demo_env 5) (user 100) (add_request NOCHECK_TASK ''aa'' ''p'') new_TaskManager);
         s = fst (ProcessMessage (demo_env 6) (user 100) (add_request NOCHECK_TASK ''bbb'' ''q'') s);
         s = fst (ProcessMessage (demo_env 7) (user 100) (add_request NOCHECK_TASK ''aa'' ''q'') s)
     in fst (SeedingTimerCallback (demo_env 0) False 6 s))"

lemma data_path_unprotected:
  "map get_data_path (map snd (heap shared_path)) = [''q/name''] \<and> map_of (data_path_map shared_path) ''q/name'' = None"
  by code_simp

text \<open>A seeding task evicts another user's task: \<open>AddTask\<close> checks no credentials.\<close>

lemma add_evicts_other_user:
  "map snd (heap one_task) = [t] \<Longrightarrow> c_uid (cred t) = 100 \<and>
   map (\<lambda>(a, t). c_uid (cred t))
     (heap (fst (ProcessMessage (demo_env 6) (user 200) (add_request SEEDING_TASK (replicate 40 CHR ''a'') ''z'') one_task))) = [200]"
proof -
  assume t: "map snd (heap one_task) = [t]"
  have "map (\<lambda>t. c_uid (cred t)) (map snd (heap one_task)) = [100]" by code_simp
  moreover have "map (\<lambda>(a, t). c_uid (cred t))
     (heap (fst (ProcessMessage (demo_env 6) (user 200) (add_request SEEDING_TASK (replicate 40 CHR ''a'') ''z'') one_task))) = [200]"
    by code_simp
  ultimately show ?thesis using t by simp
qed

subsection \<open>Other users' tasks\<close>

fun handle_of :: "task_effect \<Rightarrow> nat option" where
  "handle_of (RemoveTorrentHandle h) = Some h"
| "handle_of (ResumeHandle h) = Some h"
| "handle_of (PauseHandle h) = Some h"
| "handle_of (AutoManaged h b) = Some h"
| "handle_of (SetUploadLimit h l) = Some h"
| "handle_of (SetMaxConnections h l) = Some h"
| "handle_of _ = None"

fun is_add_task :: "request \<Rightarrow> bool" where
  "is_add_task (REQ_ADD_TASK _ _ _) = True"
| "is_add_task _ = False"

text \<open>The torrents an tm_effect list acts on.\<close>

definition acts_on :: "tm_effect list \<Rightarrow> nat option set" where
  "acts_on es = {handle_of x |x. TaskEffect x \<in> set es} - {None}"

lemma acts_on_simps [simp]:
  "acts_on [] = {}" "acts_on (es @ es') = acts_on es \<union> acts_on es'" "acts_on (Reply r # es) = acts_on es"
  "acts_on (SetSession m n # es) = acts_on es"
  by (auto simp: acts_on_def)

lemma acts_on_map: "acts_on (map TaskEffect xs) = handle_of ` set xs - {None}"
  by (auto simp: acts_on_def)

lemma destroy_acts_on: "acts_on (destroy e t) \<subseteq> {torrent t}"
  by (auto simp: destroy_def acts_on_map destroy_Task_def UpdateStatus_def GenerateResumeFile_def
      DeleteResumeFile_def RemoveTorrent_def on_handle_def split: option.splits if_splits)

lemma task_ops_act_on:
  "acts_on (map TaskEffect (Pause t)) \<subseteq> {torrent t}" "acts_on (map TaskEffect (AgentTask.Resume t)) \<subseteq> {torrent t}"
  "acts_on (map TaskEffect (SetOptions opts t)) \<subseteq> {torrent t}"
  by (auto simp: acts_on_map Pause_def Resume_def SetOptions_def on_handle_def split: option.splits)

lemma CtrlTask_acts_on:
  assumes inv: "tm_inv s" and r: "CtrlTask e i c ty skip s = (s', es, rs)"
  shows "acts_on es = {} \<or> (\<exists>a t. map_of (tasks_map s) i = Some a \<and> map_of (heap s) a = Some t \<and>
    CheckCred (self_uid e) c t \<and> acts_on es \<subseteq> {torrent t})"
  using r release_removed(1) [OF inv] destroy_acts_on [of e "Cancel t" for t] task_ops_act_on(1,2)
  by (fastforce simp: CtrlTask_def Let_def Cancel_def simp del: map_of_eq_Some_iff
      split: option.splits if_splits ctrl_t.splits prod.splits)

text \<open>Owned by someone else: the client is neither root, nor the agent's user, nor the owner.\<close>

definition foreign :: "agent_env \<Rightarrow> ucred \<Rightarrow> Task \<Rightarrow> bool" where
  "foreign e c t \<longleftrightarrow> c_uid c \<noteq> 0 \<and> c_uid c \<noteq> self_uid e \<and> c_uid c \<noteq> c_uid (cred t)"

lemma foreign_CheckCred: "live_task t \<Longrightarrow> foreign e c t \<Longrightarrow> \<not> CheckCred (self_uid e) c t"
  by (simp add: live_task_def foreign_def CheckCred_def)

definition holds_task :: "TaskManager \<Rightarrow> int \<Rightarrow> address \<Rightarrow> Task \<Rightarrow> bool" where
  "holds_task s i a t \<longleftrightarrow> map_of (tasks_map s) i = Some a \<and> map_of (heap s) a = Some t"

lemma same_torrent_same_task:
  assumes "tm_inv s" "map_of (heap s) a = Some t" "map_of (heap s) b = Some u" "torrent t = torrent u"
  shows "a = b"
  using indexesI' [OF tm_invD(3) [OF assms(1)] assms(2)] indexesI' [OF tm_invD(3) [OF assms(1)] assms(3)] assms(4)
  by simp

lemma CtrlTask_foreign:
  assumes inv: "tm_inv s" and r: "CtrlTask e j c ty skip s = (s', es, rs)"
    and h: "holds_task s i a t" and f: "foreign e c t"
  shows "holds_task s' i a t" and "torrent t \<notin> acts_on es"
proof -
  have ht: "map_of (tasks_map s) i = Some a" "map_of (heap s) a = Some t" using h by (simp_all add: holds_task_def)
  have nc: "\<not> CheckCred (self_uid e) c t"
    by (rule foreign_CheckCred [OF tm_invD(5) [OF inv ht(2)] f])
  have id: "task_id t = i" using indexesD [OF tm_invD(1) [OF inv] ht(1)] ht(2) by simp
  show "holds_task s' i a t"
    using CtrlTask_state [OF inv r]
  proof (elim disjE exE conjE)
    show ?thesis if "s' = s" using that h by simp
    fix b u
    assume u: "map_of (tasks_map s) j = Some b" "map_of (heap s) b = Some u" "CheckCred (self_uid e) c u" "s' = remove_task b u s"
    have "a \<noteq> b" using u(2,3) ht(2) nc by auto
    moreover have "task_id u = j" using indexesD [OF tm_invD(1) [OF inv] u(1)] u(2) by simp
    ultimately show ?thesis using ht u(1,4) by (auto simp: holds_task_def simp del: map_of_eq_Some_iff)
  qed
  show "torrent t \<notin> acts_on es"
    using CtrlTask_acts_on [OF inv r]
  proof (elim disjE exE conjE)
    show ?thesis if "acts_on es = {}" using that by simp
    fix b u
    assume u: "map_of (heap s) b = Some u" "CheckCred (self_uid e) c u" "acts_on es \<subseteq> {torrent u}"
    show ?thesis
    proof
      assume "torrent t \<in> acts_on es"
      then have "a = b" using u same_torrent_same_task [OF inv ht(2) u(1)] by blast
      then show False using u(1,2) ht(2) nc by simp
    qed
  qed
qed

lemma ctrl_loop_foreign:
  "tm_inv s \<Longrightarrow> ctrl_loop e c ty skip is s = (s', es, rs) \<Longrightarrow> holds_task s i a t \<Longrightarrow> foreign e c t \<Longrightarrow>
    holds_task s' i a t \<and> torrent t \<notin> acts_on es"
proof (induction e c ty skip "is" s arbitrary: s' es rs rule: ctrl_loop.induct)
  case (2 e c ty skip j "is" s)
  obtain s1 es1 rs1 where 1: "CtrlTask e j c ty skip s = (s1, es1, rs1)" by (metis prod_cases3)
  obtain s2 es2 rs2 where 2: "ctrl_loop e c ty skip is s1 = (s2, es2, rs2)" by (metis prod_cases3)
  have e: "s' = s2" "es = es1 @ es2" using "2.prems"(2) by (simp_all add: 1 2)
  have f: "holds_task s1 i a t" "torrent t \<notin> acts_on es1"
    using CtrlTask_foreign [OF "2.prems"(1) 1 "2.prems"(3,4)] by simp_all
  have "holds_task s2 i a t \<and> torrent t \<notin> acts_on es2"
    by (rule "2.IH" [OF 1 [symmetric] refl refl CtrlTask_inv [OF "2.prems"(1) 1] 2 f(1) "2.prems"(4)])
  then show ?case using e f(2) by simp
qed simp

lemma base_reply_acts_on [simp]: "acts_on [WriteBaseMessage ec] = {}" "acts_on (es @ [WriteBaseMessage ec]) = acts_on es"
  by (simp_all add: WriteBaseMessage_def)

lemma config_loop_acts_on [simp]: "acts_on (config_loop n outs sql) = {}"
  by (induction n outs sql rule: config_loop.induct) (auto simp: acts_on_def)

text \<open>C9: A client that is neither root, nor the agent's own user, nor a task's owner
  cannot touch that task by any request but an addition: cancelling, pausing, resuming (by
  identifier or all at once), setting options, sending metadata or any query leaves the
  task in the table as the same object with the same state, and no call to libtorrent acts
  on its torrent.\<close>

theorem owner_safety:
  assumes "reach tm_init tm_step s" and "\<not> is_add_task r"
    and "map_of (tasks_map s) i = Some a" "map_of (heap s) a = Some t"
    and "c_uid c \<noteq> 0" "c_uid c \<noteq> self_uid e" "c_uid c \<noteq> c_uid (cred t)"
    and "ProcessMessage e c r s = (s', es)"
  shows "map_of (tasks_map s') i = Some a \<and> map_of (heap s') a = Some t \<and>
    torrent t \<notin> {handle_of x |x. TaskEffect x \<in> set es}"
proof -
  have inv: "tm_inv s" by (rule task_manager.reach_inv [OF assms(1)])
  have h: "holds_task s i a t" and f: "foreign e c t" using assms by (simp_all add: holds_task_def foreign_def)
  have tn: "torrent t \<noteq> None" using tm_invD(5) [OF inv assms(4)] by (simp add: live_task_def)
  obtain s1 es1 ec where d: "dispatch e c r s = (s1, es1, ec)" by (metis prod_cases3)
  have e: "s' = s1" "acts_on es = acts_on es1"
    using assms(8) d by (auto simp: ProcessMessage_def Let_def split: if_splits)
  have "holds_task s1 i a t \<and> torrent t \<notin> acts_on es1"
  proof (cases r)
    case (REQ_BATCH_CTRL ok m)
    then show ?thesis
      using d h ctrl_loop_foreign [OF inv _ h f]
      by (auto simp: BatchCtrlTasks_def ListTasks_def split: if_splits prod.splits)
  next
    case (REQ_ADD_METADATA ok ih data)
    then show ?thesis
      using d h same_tasks_maps(3,4) [OF AddMetadata_same [of s e ih data]] by (auto simp: holds_task_def)
  next
    case (REQ_TASK_SETOPT ok opts)
    show ?thesis
    proof (cases "find_task opts s")
      case None
      then show ?thesis using d h REQ_TASK_SETOPT by (auto simp: TaskSetopt_def)
    next
      case (Some u)
      then obtain b where b: "map_of (heap s) b = Some u"
        by (auto simp: find_task_def bind_eq_Some_conv simp del: map_of_eq_Some_iff)
      have "torrent t \<noteq> torrent u" if "CheckCred (self_uid e) c u"
        using same_torrent_same_task [OF inv assms(4) b] b assms(4) that
          foreign_CheckCred [OF tm_invD(5) [OF inv assms(4)] f] by auto
      then show ?thesis
        using d h REQ_TASK_SETOPT Some task_ops_act_on(3) [of opts u] by (auto simp: TaskSetopt_def split: if_splits)
    qed
  qed (use d h assms(2) in \<open>auto simp: TaskGetopt_def AgentSetopt_def AgentGetopt_def Let_def
      split: option.splits if_splits\<close>)
  then show ?thesis using e tn by (auto simp: holds_task_def acts_on_def)
qed

lemma owner_safety_witness:
  "map_of (tasks_map (fst (ProcessMessage (demo_env 0) (user 200)
      (REQ_BATCH_CTRL True \<lparr> ctrl_type = CANCEL_CTRL, ctrl_all = False, taskids = [5] \<rparr>) one_task))) 5 = Some 0"
proof -
  have 1: "map_of (tasks_map one_task) 5 = Some 0" by code_simp
  obtain t where t: "map_of (heap one_task) 0 = Some t" "c_uid (cred t) = 100"
  proof -
    have "map_option (\<lambda>t. c_uid (cred t)) (map_of (heap one_task) 0) = Some 100" by code_simp
    then show ?thesis using that by (auto simp del: map_of_eq_Some_iff)
  qed
  let ?r = "REQ_BATCH_CTRL True \<lparr> ctrl_type = CANCEL_CTRL, ctrl_all = False, taskids = [5] \<rparr>"
  have "\<not> is_add_task ?r" "c_uid (user 200) \<noteq> 0" "c_uid (user 200) \<noteq> self_uid (demo_env 0)"
      "c_uid (user 200) \<noteq> c_uid (cred t)"
    using t by (simp_all add: user_def demo_env_def)
  from owner_safety [OF one_task_reach this(1) 1 t(1) this(2-4) surjective_pairing]
  show ?thesis by (rule conjunct1)
qed

subsection \<open>Replies\<close>

definition replies :: "tm_effect list \<Rightarrow> response list" where
  "replies es = concat (map (\<lambda>x. case x of Reply r \<Rightarrow> [r] | _ \<Rightarrow> []) es)"

lemma replies_simps [simp]:
  "replies [] = []" "replies (es @ es') = replies es @ replies es'" "replies (map TaskEffect xs) = []"
  "replies (Reply r # es) = r # replies es" "replies (TaskEffect x # es) = replies es"
  "replies (SetSession m n # es) = replies es" "replies (SqlConfig q # es) = replies es"
  by (induction es) (auto simp: replies_def)

lemma replies_none [simp]:
  "replies (destroy e t) = []" "replies (config_loop n outs sql) = []"
  "length (replies [WriteBaseMessage ec]) = 1"
  by (simp add: destroy_def, induction n outs sql rule: config_loop.induct) (auto simp: WriteBaseMessage_def)

lemma release_replies: "release e a s = (s', es) \<Longrightarrow> replies es = []"
  by (auto simp: release_def split: if_splits option.splits)

lemma CtrlTask_replies: "CtrlTask e i c ty skip s = (s', es, rs) \<Longrightarrow> replies es = []"
  by (auto simp: CtrlTask_def Let_def split: option.splits if_splits ctrl_t.splits prod.splits dest: release_replies)

lemma ctrl_loop_replies: "ctrl_loop e c ty skip is s = (s', es, rs) \<Longrightarrow> replies es = []"
proof (induction e c ty skip "is" s arbitrary: s' es rs rule: ctrl_loop.induct)
  case (2 e c ty skip j "is" s)
  obtain s1 es1 rs1 where 1: "CtrlTask e j c ty skip s = (s1, es1, rs1)" by (metis prod_cases3)
  obtain s2 es2 rs2 where 2: "ctrl_loop e c ty skip is s1 = (s2, es2, rs2)" by (metis prod_cases3)
  show ?case
    using "2.prems" CtrlTask_replies [OF 1] "2.IH" [OF 1 [symmetric] refl refl 2] by (auto simp: 1 2)
qed simp

lemma resolve_dup_replies: "resolve_dup e ih path ty s = (ok, s', es) \<Longrightarrow> replies es = []"
  by (auto simp: resolve_dup_def Let_def split: option.splits if_splits prod.splits dest: release_replies)

lemma AddTask_replies:
  assumes "AddTask e c m opts s = (s', es, ec)"
  shows "length (replies es) = (if ec = None then 1 else 0)"
  using assms
proof (cases rule: AddTask_cases)
  case failed
  then show ?thesis by simp
next
  case (found m2 ti path s1 ok s2 es2 cr es3)
  have "replies es2 = []" by (rule resolve_dup_replies [OF found(2)])
  moreover have "cr \<noteq> Throws" using Create_not_throws found(3) by (metis fst_conv)
  ultimately show ?thesis
    using found(4) by (auto simp: assign_def split: if_splits create_result.splits error_code_t.splits)
qed

lemma ProcessMessage_replies:
  "length (replies (snd (ProcessMessage e c r s))) = (if parsed r \<or> is_add_task r then 1 else
     if (case r of REQ_TASK_SETOPT _ opts \<Rightarrow> snd (TaskSetopt e c opts s None) \<noteq> None
         | REQ_TASK_GETOPT _ opts \<Rightarrow> snd (TaskGetopt e opts s None) \<noteq> None
         | REQ_AGENT_SETOPT _ opts \<Rightarrow> snd (AgentSetopt e c opts None) \<noteq> None | _ \<Rightarrow> False) then 1 else 2)"
proof (cases r)
  case (REQ_ADD_TASK ok m opts)
  obtain s1 es ec where "AddTask e c m opts s = (s1, es, ec)" by (metis prod_cases3)
  with AddTask_replies [OF this] show ?thesis
    by (simp add: REQ_ADD_TASK ProcessMessage_def)
next
  case (REQ_BATCH_CTRL ok m)
  then show ?thesis
    by (auto simp: ProcessMessage_def BatchCtrlTasks_def ListTasks_def PARSE_MSG_def assign_def ctrl_loop_replies
        split: prod.splits if_splits)
qed (auto simp: ProcessMessage_def TaskSetopt_def TaskGetopt_def AgentSetopt_def AgentGetopt_def PARSE_MSG_def assign_def
      WriteBaseMessage_def Let_def split: option.splits)


subsection \<open>The metadata store\<close>

datatype meta_op = MAdd string string | MTake string

fun meta_after :: "agent_env \<Rightarrow> meta_op list \<Rightarrow> TaskManager" where
  "meta_after e [] = new_TaskManager"
| "meta_after e (MAdd ih data # ops) = AddMetadata e ih data (meta_after e ops)"
| "meta_after e (MTake ih # ops) = snd (GetMetaByInfohash ih (meta_after e ops))"

definition total_size :: "metadata_t list \<Rightarrow> int" where
  "total_size ms = (\<Sum>m\<leftarrow>ms. int (length (metadata m)))"

lemma total_size_simps [simp]:
  "total_size [] = 0" "total_size (m # ms) = int (length (metadata m)) + total_size ms"
  "total_size (ms @ ns) = total_size ms + total_size ns"
  by (simp_all add: total_size_def)

lemma total_size_nonneg [simp]: "0 \<le> total_size ms"
  by (induction ms) simp_all

lemma drop_metas_effect:
  "drop_metas len max_size max_num ms (total_size ms) = (ms', n) \<Longrightarrow>
    n = total_size ms' \<and> (\<exists>k \<le> length ms. ms' = drop k ms) \<and>
    (ms' \<noteq> [] \<longrightarrow> len + total_size ms' \<le> max_size \<and> int (length ms') + 1 \<le> max_num)"
proof (induction ms)
  case (Cons m ms)
  show ?case
  proof (cases "len + total_size (m # ms) > max_size \<or> int (length (m # ms)) + 1 > max_num")
    case True
    then have "drop_metas len max_size max_num ms (total_size ms) = (ms', n)"
      using Cons.prems by simp
    from Cons.IH [OF this] show ?thesis
      by (auto intro: exI [of _ "Suc k" for k])
  next
    case False
    then show ?thesis using Cons.prems by (auto intro: exI [of _ 0])
  qed
qed simp

definition metas_ok :: "agent_env \<Rightarrow> TaskManager \<Rightarrow> bool" where
  "metas_ok e s \<longleftrightarrow> current_metas_total_size s = total_size (metas s) \<and>
     (metas s \<noteq> [] \<longrightarrow> total_size (metas s) \<le> max_total_meta_size e * 1048576) \<and>
     int (length (metas s)) \<le> max 1 (max_total_meta_num e)"

lemma AddMetadata_effect:
  assumes ok: "metas_ok e s"
    and len: "1 \<le> int (length data)" "int (length data) \<le> max_total_meta_size e * 1048576"
  shows "metas_ok e (AddMetadata e ih data s) \<and>
    (\<exists>k. metas (AddMetadata e ih data s) = drop k (metas s) @ [\<lparr> md_infohash = ih, metadata = data \<rparr>])"
proof -
  obtain ms n where d: "drop_metas (int (length data)) (max_total_meta_size e * 1024 * 1024) (max_total_meta_num e)
      (metas s) (total_size (metas s)) = (ms, n)" by fastforce
  have t: "current_metas_total_size s = total_size (metas s)" using ok by (simp add: metas_ok_def)
  note eff = drop_metas_effect [OF d]
  have "AddMetadata e ih data s =
      s\<lparr>metas := ms @ [\<lparr> md_infohash = ih, metadata = data \<rparr>], current_metas_total_size := n + int (length data)\<rparr>"
  proof -
    have "\<not> (int (length data) < 1 \<or> int (length data) > max_total_meta_size e * 1024 * 1024)" using len by linarith
    then show ?thesis unfolding AddMetadata_def Let_def t d prod.case by (simp only: if_False)
  qed
  then show ?thesis
    using eff len by (cases "ms = []") (auto simp: metas_ok_def)
qed

lemma AddMetadata_refused:
  "\<not> (1 \<le> int (length data) \<and> int (length data) \<le> max_total_meta_size e * 1048576) \<Longrightarrow> AddMetadata e ih data s = s"
proof -
  assume "\<not> (1 \<le> int (length data) \<and> int (length data) \<le> max_total_meta_size e * 1048576)"
  then have "int (length data) < 1 \<or> int (length data) > max_total_meta_size e * 1024 * 1024" by linarith
  then show ?thesis unfolding AddMetadata_def Let_def by (simp only: if_True)
qed

lemma AddMetadata_ok: "metas_ok e s \<Longrightarrow> metas_ok e (AddMetadata e ih data s)"
  using AddMetadata_effect AddMetadata_refused by metis

lemma take_meta_some:
  "take_meta ih ms = Some (m, r) \<Longrightarrow> md_infohash m = ih \<and> total_size ms = int (length (metadata m)) + total_size r \<and> length ms = Suc (length r)"
  by (induction ms arbitrary: r) (auto split: if_splits)

lemma GetMeta_ok:
  assumes "metas_ok e s"
  shows "metas_ok e (snd (GetMetaByInfohash ih s))"
proof (cases "take_meta ih (metas s)")
  case (Some p)
  then obtain m r where "p = (m, r)" by fastforce
  then show ?thesis
    using take_meta_some [of ih "metas s" m r] Some assms
    by (auto simp: GetMetaByInfohash_def metas_ok_def)
qed (use assms in \<open>simp add: GetMetaByInfohash_def\<close>)

lemma take_meta_last: "\<exists>m r. take_meta ih (ms @ [\<lparr> md_infohash = ih, metadata = d \<rparr>]) = Some (m, r) \<and> md_infohash m = ih"
  by (induction ms) auto


end
