(* ===== verification/TaskManagerRestart.thy ===== *)
theory TaskManagerRestart
  imports TaskManagerProps "HOL-Library.Multiset"
begin

text \<open>
  Stopping the agent writes every task to a resume file; starting it reads the files
  back, in whatever order the directory lists them.
\<close>

definition task_of :: "TaskManager \<Rightarrow> int \<Rightarrow> Task option" where
  "task_of s i = Option.bind (map_of (tasks_map s) i) (map_of (heap s))"

fun written :: "tm_effect list \<Rightarrow> (string \<times> entry) list" where
  "written [] = []"
| "written (TaskEffect (WriteResume p en) # es) = (p, en) # written es"
| "written (_ # es) = written es"

lemma written_append [simp]: "written (es @ es') = written es @ written es'"
  by (induction es rule: written.induct) simp_all

definition resume_image :: "agent_env \<Rightarrow> Task \<Rightarrow> string \<times> entry" where
  "resume_image e t = (resume_path (resume_dir e) t,
     resume_entry (limits_of e (the (torrent t))) (the (metadata_of e (the (torrent t)))) t)"

lemma resume_entry_Persist [simp]:
  "resume_entry lim md (Persist t) = resume_entry lim md t" "resume_path dir (Persist t) = resume_path dir t"
  by (simp_all add: resume_entry_def resume_path_def Persist_def)

lemma destroy_written:
  assumes "live_task t" "opens_file e" "torrent t = Some h" "metadata_of e h = Some md"
  shows "written (destroy e (Persist t)) = [resume_image e t]"
  using assms
  by (auto simp: destroy_def destroy_Task_def live_task_def UpdateStatus_def GenerateResumeFile_def RemoveTorrent_def
      on_handle_def resume_image_def Persist_def [of t, THEN arg_cong [of _ _ torrent]])

lemma tasks_have_objects:
  assumes "tm_inv s"
  shows "has_key (tasks_map s) i \<longleftrightarrow> task_of s i \<noteq> None"
proof (cases "map_of (tasks_map s) i")
  case (Some a)
  then show ?thesis using indexesD [OF tm_invD(1) [OF assms] Some] by (auto simp: task_of_def simp del: map_of_eq_Some_iff)
qed (simp add: task_of_def)

lemma task_of_remove:
  assumes inv: "tm_inv s" and a: "map_of (tasks_map s) i = Some a" "map_of (heap s) a = Some t"
  shows "task_of (remove_task a t s) j = (if j = i then None else task_of s j)"
proof -
  have id: "task_id t = i" using indexesD [OF tm_invD(1) [OF inv] a(1)] a(2) by simp
  have "b \<noteq> a" if "map_of (tasks_map s) j = Some b" "j \<noteq> i" for b
    using indexesD [OF tm_invD(1) [OF inv] that(1)] a(2) id that(2) by auto
  then show ?thesis
    using id by (cases "map_of (tasks_map s) j") (auto simp: task_of_def simp del: map_of_eq_Some_iff)
qed

lemma persist_loop_written:
  assumes "tm_inv s" "distinct is" "\<And>i. i \<in> set is \<Longrightarrow> task_of s i \<noteq> None" "opens_file e"
    and "\<And>a t. map_of (heap s) a = Some t \<Longrightarrow> metadata_of e (the (torrent t)) \<noteq> None"
    and "persist_loop e is s = (s', es)"
  shows "written es = map (\<lambda>i. resume_image e (the (task_of s i))) is \<and>
    (\<forall>j. task_of s' j = (if j \<in> set is then None else task_of s j))"
  using assms
proof (induction "is" arbitrary: s s' es)
  case (Cons i "is")
  obtain t where t: "task_of s i = Some t" using Cons.prems(3) [of i] by auto
  then obtain a where a: "map_of (tasks_map s) i = Some a" "map_of (heap s) a = Some t"
    by (auto simp: task_of_def bind_eq_Some_conv simp del: map_of_eq_Some_iff)
  note inv = Cons.prems(1)
  have live: "live_task t" by (rule tm_invD(5) [OF inv a(2)])
  then obtain h where h: "torrent t = Some h" by (auto simp: live_task_def)
  obtain md where md: "metadata_of e h = Some md" using Cons.prems(5) [OF a(2)] h by auto
  obtain s2 es2 where 2: "persist_loop e is (remove_task a t s) = (s2, es2)" by fastforce
  have r: "s' = s2" "es = destroy e (Persist t) @ es2"
    using Cons.prems(6) a release_removed(1) [OF inv a(2)] 2 by (auto simp del: map_of_eq_Some_iff)
  have rem: "task_of (remove_task a t s) j = (if j = i then None else task_of s j)" for j
    by (rule task_of_remove [OF inv a])
  have "written es2 = map (\<lambda>i. resume_image e (the (task_of (remove_task a t s) i))) is \<and>
    (\<forall>j. task_of s2 j = (if j \<in> set is then None else task_of (remove_task a t s) j))"
  proof (rule Cons.IH [OF remove_task_inv [OF inv a(2)] _ _ Cons.prems(4) _ 2])
    show "distinct is" using Cons.prems(2) by simp
    show "task_of (remove_task a t s) j \<noteq> None" if "j \<in> set is" for j
      using that Cons.prems(2) Cons.prems(3) [of j] by (auto simp: rem)
    show "metadata_of e (the (torrent u)) \<noteq> None" if "map_of (heap (remove_task a t s)) b = Some u" for b u
      using that Cons.prems(5) [of b u] by (auto simp del: map_of_eq_Some_iff split: if_splits)
  qed
  moreover have "map (\<lambda>i. resume_image e (the (task_of (remove_task a t s) i))) is =
      map (\<lambda>i. resume_image e (the (task_of s i))) is"
    using Cons.prems(2) by (auto simp: rem)
  ultimately show ?case
    using destroy_written [OF live Cons.prems(4) h md] t r by (simp add: rem)
qed simp

subsection \<open>Reading the files back\<close>

lemma ex_map_mset:
  "mset ys = image_mset f (mset xs) \<Longrightarrow> \<exists>xs'. mset xs' = mset xs \<and> map f xs' = ys"
proof (induction ys arbitrary: xs)
  case (Cons y ys)
  then have "y \<in># image_mset f (mset xs)" by (metis list.set_intros(1) set_mset_mset)
  then obtain x where x: "x \<in> set xs" "f x = y" by auto
  then have "mset ys = image_mset f (mset (remove1 x xs))"
    using Cons.prems by (metis (no_types, lifting) add_mset_remove_trivial image_mset_add_mset insert_DiffM mset.simps(2) mset_remove1 set_mset_mset)
  then obtain zs where "mset zs = mset (remove1 x xs)" "map f zs = ys" using Cons.IH by blast
  then show ?case using x by (intro exI [of _ "x # zs"]) simp
qed simp

definition addresses_ok :: "TaskManager \<Rightarrow> bool" where
  "addresses_ok s \<longleftrightarrow> (\<forall>i a. map_of (tasks_map s) i = Some a \<longrightarrow> a < next_address s)"

lemma task_of_insert:
  "addresses_ok s \<Longrightarrow> task_of (insert_task t s) i = (if i = task_id t then Some t else task_of s i)"
  by (cases "map_of (tasks_map s) i")
    (auto simp: task_of_def insert_task_def alloc_def add_to_map_def addresses_ok_def Let_def simp del: map_of_eq_Some_iff)

lemma addresses_ok_insert: "addresses_ok s \<Longrightarrow> addresses_ok (insert_task t s)"
  by (auto simp: insert_task_def alloc_def add_to_map_def addresses_ok_def Let_def simp del: map_of_eq_Some_iff intro: less_SucI)

definition resumed_by :: "agent_env \<Rightarrow> Task \<Rightarrow> Task" where
  "resumed_by e t = resumed (the (add_torrent e (resume_params (default_trackers e) t))) t"

lemma AddResumeTask_all:
  assumes "addresses_ok s" "distinct (map task_id ts)" "\<And>t. t \<in> set ts \<Longrightarrow> \<not> has_key (tasks_map s) (task_id t)"
    and "\<And>t. t \<in> set ts \<Longrightarrow> resumable t \<and> parse_metadata e (infohash t) (new_name t) (md t) \<and>
      add_torrent e (resume_params (default_trackers e) t) \<noteq> None"
    and "AddResumeTask e (map (\<lambda>t. (file t, Some (resume_entry (lim t) (md t) t))) ts) s = (s', es)"
  shows "task_of s' i = (case find (\<lambda>t. task_id t = i) ts of Some t \<Rightarrow> Some (resumed_by e t) | None \<Rightarrow> task_of s i)"
  using assms
proof (induction ts arbitrary: s es)
  case (Cons t ts)
  obtain h where h: "add_torrent e (resume_params (default_trackers e) t) = Some h" using Cons.prems(4) [of t] by auto
  have new: "map_of (tasks_map s) (task_id t) = None" using Cons.prems(3) [of t] by simp
  have id: "task_id (resumed h u) = task_id u" for h u by (simp add: resumed_def)
  have "parse_metadata e (infohash t) (new_name t) (md t)" "resumable t" using Cons.prems(4) [of t] by simp_all
  then have "\<exists>es1. resume_file e (file t) (Some (resume_entry (lim t) (md t) t)) s = (True, insert_task (resumed h t) s, es1)"
    using h new by (simp add: resume_file_def CreateFromResumeFile_resume_entry insert_task_def id Let_def split: prod.splits)
  then obtain es1 where r: "resume_file e (file t) (Some (resume_entry (lim t) (md t) t)) s = (True, insert_task (resumed h t) s, es1)" ..
  obtain es2 where 2: "AddResumeTask e (map (\<lambda>t. (file t, Some (resume_entry (lim t) (md t) t))) ts) (insert_task (resumed h t) s) = (s', es2)"
    using Cons.prems(5) by (auto simp: r split: prod.splits)
  have k: "map_of (tasks_map (insert_task (resumed h t) s)) j = None" if "map_of (tasks_map s) j = None" "j \<noteq> task_id t" for j
    using that by (simp add: insert_task_def alloc_def add_to_map_def id)
  have "task_of s' i = (case find (\<lambda>t. task_id t = i) ts of Some t \<Rightarrow> Some (resumed_by e t)
      | None \<Rightarrow> task_of (insert_task (resumed h t) s) i)"
  proof (rule Cons.IH [OF addresses_ok_insert [OF Cons.prems(1)] _ _ _ 2])
    show "distinct (map task_id ts)" using Cons.prems(2) by simp
    show "\<not> has_key (tasks_map (insert_task (resumed h t) s)) (task_id u)" if "u \<in> set ts" for u
    proof -
      have "task_id u \<in> task_id ` set ts" "task_id t \<notin> task_id ` set ts" using Cons.prems(2) that by simp_all
      then have "task_id u \<noteq> task_id t" by metis
      then show ?thesis using k [of "task_id u"] Cons.prems(3) [of u] that by simp
    qed
  qed (use Cons.prems(4) in auto)
  moreover have "find (\<lambda>t. task_id t = i) ts = None" if "i = task_id t"
  proof -
    have "task_id t \<notin> task_id ` set ts" using Cons.prems(2) by simp
    then show ?thesis unfolding find_None_iff that by (metis imageI)
  qed
  ultimately show ?case
    using h by (auto simp: task_of_insert [OF Cons.prems(1)] id resumed_by_def split: option.split)
qed simp



end
