(* ===== verification/HashRing.thy ===== *)
theory HashRing
  imports Crc32 "HOL-Library.Char_ord" "HOL-Library.List_Lexorder"
begin

text \<open>
  The consistent-hash ring of trackers (\<open>gko-src/include/bbts/ConsistentHashRing.hpp\<close>).
  \<open>std::map\<close> keyed by the hash is a list in key order; an iterator into it is a position.
\<close>

subsection \<open>The ordered map\<close>

type_synonym node_map = "(u32 \<times> string) list"

fun ring_put :: "u32 \<Rightarrow> string \<Rightarrow> node_map \<Rightarrow> node_map" where
  "ring_put h n [] = [(h, n)]"
| "ring_put h n ((k, v) # r) =
    (if h < k then (h, n) # (k, v) # r else if h = k then (k, n) # r else (k, v) # ring_put h n r)"

definition ring_del :: "u32 \<Rightarrow> node_map \<Rightarrow> node_map" where
  "ring_del h r = filter (\<lambda>(k, v). k \<noteq> h) r"

definition ring_ok :: "node_map \<Rightarrow> bool" where
  "ring_ok r \<longleftrightarrow> sorted_wrt (<) (map fst r)"

lemma ring_ok_distinct: "ring_ok r \<Longrightarrow> distinct (map fst r)"
  by (simp add: ring_ok_def strict_sorted_iff)

lemma ring_put_keys: "set (map fst (ring_put h n r)) = insert h (set (map fst r))"
  by (induction h n r rule: ring_put.induct) auto

lemma ring_put_ok: "ring_ok r \<Longrightarrow> ring_ok (ring_put h n r)"
proof (induction h n r rule: ring_put.induct)
  case (2 h n k v r)
  show ?case
  proof (cases "h < k \<or> h = k")
    case True
    then show ?thesis using "2.prems" by (auto simp: ring_ok_def)
  next
    case False
    then have "ring_ok (ring_put h n r)" "k < h" using 2 by (auto simp: ring_ok_def)
    moreover have "\<forall>x \<in> set (map fst (ring_put h n r)). k < x"
      unfolding ring_put_keys using "2.prems" \<open>k < h\<close> by (auto simp: ring_ok_def)
    ultimately show ?thesis using False by (simp add: ring_ok_def)
  qed
qed (simp add: ring_ok_def)

lemma map_of_ring_put: "ring_ok r \<Longrightarrow> map_of (ring_put h n r) = (map_of r)(h \<mapsto> n)"
proof (induction h n r rule: ring_put.induct)
  case (2 h n k v r)
  then show ?case by (auto simp: ring_ok_def fun_eq_iff)
qed auto

lemma map_of_ring_del: "map_of (ring_del h r) = (map_of r)(h := None)"
  unfolding ring_del_def by (induction r) auto

lemma ring_del_ok: "ring_ok r \<Longrightarrow> ring_ok (ring_del h r)"
  unfolding ring_ok_def ring_del_def by (induction r) auto

interpretation ring: keyed_store map_of ring_put ring_del ring_ok
  by unfold_locales (simp_all add: map_of_ring_put map_of_ring_del ring_put_ok ring_del_ok)

subsection \<open>The ring\<close>

record ConsistentHashRing =
  hring :: node_map
  replicas :: "(string, int) assoc"

definition Clear :: "ConsistentHashRing \<Rightarrow> ConsistentHashRing" where
  "Clear s = s\<lparr>hring := [], replicas := []\<rparr>"

definition ring_empty :: "ConsistentHashRing \<Rightarrow> bool" where
  "ring_empty s \<longleftrightarrow> hring s = []"

definition vnode :: "string \<Rightarrow> nat \<Rightarrow> string" where
  "vnode node r = show_nat r @ node @ show_nat r"

definition vnode_hashes :: "string \<Rightarrow> int \<Rightarrow> u32 list" where
  "vnode_hashes node n = map (\<lambda>r. hash_crc32 (vnode node r)) [0 ..< nat n]"

text \<open>\<open>None\<close> is the failing assertion.\<close>

definition AddNode :: "string \<Rightarrow> int \<Rightarrow> ConsistentHashRing \<Rightarrow> ConsistentHashRing option" where
  "AddNode node n s =
    (if \<not> 0 < n then None
     else Some (s\<lparr>replicas := AList.update node n (replicas s),
                  hring := foldl (\<lambda>r h. ring_put h node r) (hring s) (vnode_hashes node n)\<rparr>))"

definition RemoveNode :: "string \<Rightarrow> ConsistentHashRing \<Rightarrow> ConsistentHashRing" where
  "RemoveNode node s =
    (case map_of (replicas s) node of
       None \<Rightarrow> s
     | Some n \<Rightarrow> s\<lparr>replicas := AList.delete node (replicas s),
                   hring := foldl (\<lambda>r h. ring_del h r) (hring s) (vnode_hashes node n)\<rparr>)"

text \<open>\<open>lower_bound\<close>, wrapping around at the end.\<close>

definition ring_position :: "u32 \<Rightarrow> node_map \<Rightarrow> nat" where
  "ring_position hash r =
    (let i = length (takeWhile (\<lambda>(k, v). k < hash) r) in if i = length r then 0 else i)"

definition GetNode :: "string \<Rightarrow> ConsistentHashRing \<Rightarrow> string" where
  "GetNode data s =
    (if hring s = [] then [] else snd (hring s ! ring_position (hash_crc32 data) (hring s)))"

definition next_position :: "node_map \<Rightarrow> nat \<Rightarrow> nat" where
  "next_position r i = (let j = Suc i in if j = length r then 0 else j)"

partial_function (option) two_loop :: "node_map \<Rightarrow> nat \<Rightarrow> nat \<Rightarrow> string list \<Rightarrow> string list option" where
  "two_loop r it j selected =
    (if j = it then Some selected
     else if snd (r ! j) \<noteq> snd (r ! it) then Some (selected @ [snd (r ! j)])
     else two_loop r it (next_position r j) selected)"

definition GetTwoNodes :: "string \<Rightarrow> ConsistentHashRing \<Rightarrow> string list option" where
  "GetTwoNodes data s =
    (if hring s = [] then Some []
     else let it = ring_position (hash_crc32 data) (hring s)
          in two_loop (hring s) it (next_position (hring s) it) [snd (hring s ! it)])"

definition GetAllNodes :: "string \<Rightarrow> ConsistentHashRing \<Rightarrow> string list option" where
  "GetAllNodes data s = map_option (\<lambda>sel. sel @ sort (map fst (replicas s))) (GetTwoNodes data s)"

subsection \<open>The walk round the ring returns\<close>

text \<open>The positions from \<open>j\<close> on, round the end, up to but not including \<open>it\<close>.\<close>

definition walk :: "nat \<Rightarrow> nat \<Rightarrow> nat \<Rightarrow> nat list" where
  "walk n it j = (if j \<le> it then [j ..< it] else [j ..< n] @ [0 ..< it])"

lemma two_loop_walk:
  assumes "it < length r" "j < length r"
  shows "two_loop r it j sel =
    Some (sel @ (case find (\<lambda>i. snd (r ! i) \<noteq> snd (r ! it)) (walk (length r) it j) of None \<Rightarrow> [] | Some i \<Rightarrow> [snd (r ! i)]))"
  using assms(2)
proof (induction "length (walk (length r) it j)" arbitrary: j)
  case 0
  then have "j = it" using assms(1) by (auto simp: walk_def split: if_splits)
  then show ?case by (subst two_loop.simps) (simp add: walk_def)
next
  case (Suc m)
  then have ne: "j \<noteq> it" by (auto simp: walk_def)
  have step: "walk (length r) it j = j # walk (length r) it (next_position r j)"
    using ne assms(1) Suc.prems
    by (auto simp: walk_def next_position_def Let_def upt_conv_Cons)
  have b: "next_position r j < length r" using Suc.prems by (auto simp: next_position_def Let_def)
  show ?case
  proof (cases "snd (r ! j) = snd (r ! it)")
    case True
    have "two_loop r it (next_position r j) sel = Some (sel @ (case find (\<lambda>i. snd (r ! i) \<noteq> snd (r ! it))
        (walk (length r) it (next_position r j)) of None \<Rightarrow> [] | Some i \<Rightarrow> [snd (r ! i)]))"
      using Suc.hyps(2) step by (intro Suc.hyps(1) b) simp
    then show ?thesis using ne True by (subst two_loop.simps) (simp add: step)
  next
    case False
    then show ?thesis using ne by (subst two_loop.simps) (simp add: step)
  qed
qed

lemma map_nth_ranges:
  "i \<le> length r \<Longrightarrow> map (\<lambda>k. r ! k) [0 ..< i] = take i r" "map (\<lambda>k. r ! k) [i ..< length r] = drop i r"
  by (auto intro: nth_equalityI)

lemma walk_next:
  "it < length r \<Longrightarrow> map (\<lambda>i. r ! i) (walk (length r) it (next_position r it)) = drop (Suc it) r @ take it r"
  by (cases "Suc it = length r") (simp_all add: walk_def next_position_def map_nth_ranges)

lemma find_map_nth: "find P (map f xs) = map_option f (find (\<lambda>x. P (f x)) xs)"
  by (induction xs) auto

lemma ring_position_less: "r \<noteq> [] \<Longrightarrow> ring_position h r < length r"
  using length_takeWhile_le [of "\<lambda>(k, v). k < h" r] by (auto simp: ring_position_def Let_def)

lemma GetTwoNodes_walk:
  assumes "hring s \<noteq> []"
  shows "GetTwoNodes data s =
    (let it = ring_position (hash_crc32 data) (hring s) in
     Some (GetNode data s # (case find (\<lambda>p. snd p \<noteq> GetNode data s) (drop (Suc it) (hring s) @ take it (hring s)) of
       None \<Rightarrow> [] | Some p \<Rightarrow> [snd p])))"
proof -
  let ?r = "hring s" and ?it = "ring_position (hash_crc32 data) (hring s)"
  have it: "?it < length ?r" by (rule ring_position_less [OF assms])
  then have "next_position ?r ?it < length ?r" by (auto simp: next_position_def Let_def)
  note w = two_loop_walk [OF it this, of "[GetNode data s]"]
  have "find (\<lambda>p. snd p \<noteq> GetNode data s) (map (\<lambda>i. ?r ! i) (walk (length ?r) ?it (next_position ?r ?it))) =
      map_option (\<lambda>i. ?r ! i) (find (\<lambda>i. snd (?r ! i) \<noteq> snd (?r ! ?it)) (walk (length ?r) ?it (next_position ?r ?it)))"
    using assms by (simp add: find_map_nth GetNode_def)
  then show ?thesis
    using w assms unfolding walk_next [OF it]
    by (auto simp: GetTwoNodes_def GetNode_def Let_def split: option.splits)
qed

subsection \<open>Clockwise distance\<close>

lemma clockwise_le:
  fixes h k k0 :: u32
  assumes "h \<le> k0 \<and> (k0 \<le> k \<or> k < h) \<or> k0 \<le> k \<and> k < h"
  shows "k0 - h \<le> k - h"
  using assms unfolding word_le_nat_alt word_less_nat_alt unat_sub_if'
  using unsigned_less [of k0, where 'a = nat] unsigned_less [of k, where 'a = nat] unsigned_less [of h, where 'a = nat]
  by auto

lemma owner_nearest:
  assumes ok: "ring_ok r" and ne: "r \<noteq> []" and p: "p \<in> set r"
  shows "fst (r ! ring_position h r) - h \<le> fst p - h"
proof -
  let ?i = "length (takeWhile (\<lambda>(k, v). k < h) r)"
  obtain j where j: "j < length r" "p = r ! j" using p by (metis in_set_conv_nth)
  have mono: "fst (r ! i) < fst (r ! j)" if "i < j" "j < length r" for i j
    using ok that by (simp add: ring_ok_def sorted_wrt_iff_nth_less)
  have low: "fst (r ! i) < h" if "i < ?i" for i
    using that nth_mem [OF that] by (metis (mono_tags, lifting) case_prod_beta set_takeWhileD takeWhile_nth)
  show ?thesis
  proof (cases "?i = length r")
    case True
    then have "fst (r ! 0) \<le> fst p" using mono [of 0 j] j by (cases "j = 0") auto
    moreover have "fst p < h" using low [of j] j True by simp
    ultimately show ?thesis using True by (simp add: ring_position_def clockwise_le)
  next
    case False
    then have i: "?i < length r" using length_takeWhile_le [of "\<lambda>(k, v). k < h" r] by simp
    have "h \<le> fst (r ! ?i)" using nth_length_takeWhile [OF i] by (simp add: case_prod_beta)
    moreover have "fst (r ! ?i) \<le> fst p \<or> fst p < h"
      using low [of j] mono [of ?i j] j by (cases "j = ?i") (auto simp: not_less nat_neq_iff)
    ultimately show ?thesis using False by (simp add: ring_position_def clockwise_le Let_def)
  qed
qed

text \<open>The ring's owner of a point, described by the map alone.\<close>

definition owns :: "(u32 \<Rightarrow> string option) \<Rightarrow> u32 \<Rightarrow> string \<Rightarrow> bool" where
  "owns m h n \<longleftrightarrow> (\<exists>k. m k = Some n \<and> (\<forall>k' n'. m k' = Some n' \<longrightarrow> k - h \<le> k' - h))"

lemma GetNode_owns:
  assumes "ring_ok (hring s)" "hring s \<noteq> []"
  shows "owns (map_of (hring s)) (hash_crc32 data) (GetNode data s)"
proof -
  let ?p = "hring s ! ring_position (hash_crc32 data) (hring s)"
  have p: "?p \<in> set (hring s)" using ring_position_less [OF assms(2)] by simp
  then have "map_of (hring s) (fst ?p) = Some (GetNode data s)"
    using ring_ok_distinct [OF assms(1)] assms(2) by (simp add: GetNode_def)
  then show ?thesis
    using owner_nearest [OF assms] unfolding owns_def by (metis fst_conv map_of_SomeD)
qed

lemma owns_unique: "owns m h n \<Longrightarrow> owns m h n' \<Longrightarrow> n = n'"
  unfolding owns_def by (metis diff_add_cancel option.inject order_antisym)

lemma owns_eq:
  assumes "owns m h n" "owns m' h n'"
    and "\<And>k x. m' k = Some x \<Longrightarrow> x \<noteq> a \<Longrightarrow> m k = Some x" "\<And>k x. m k = Some x \<Longrightarrow> m' k = Some x \<or> m' k = Some a"
  shows "n' = n \<or> n' = a"
proof (rule ccontr)
  assume c: "\<not> (n' = n \<or> n' = a)"
  obtain k k' where k: "m k = Some n" "\<forall>l x. m l = Some x \<longrightarrow> k - h \<le> l - h"
      "m' k' = Some n'" "\<forall>l x. m' l = Some x \<longrightarrow> k' - h \<le> l - h"
    using assms(1,2) unfolding owns_def by blast
  have "m k' = Some n'" using assms(3) [OF k(3)] c by blast
  then have "k - h \<le> k' - h" using k(2) by blast
  moreover have "k' - h \<le> k - h" using assms(4) [OF k(1)] k(4) by blast
  ultimately have "k = k'" by (metis diff_add_cancel order_antisym)
  then show False using k(1) \<open>m k' = Some n'\<close> c by simp
qed

subsection \<open>Lookups that return\<close>

lemma find_take_filter: "(case find P xs of None \<Rightarrow> [] | Some p \<Rightarrow> [f p]) = map f (take 1 (filter P xs))"
  by (induction xs) auto

lemma nodes_split:
  "i < length r \<Longrightarrow> snd ` set r = insert (snd (r ! i)) (snd ` set (drop (Suc i) r @ take i r))"
  by (subst (1) id_take_nth_drop [of i r]) auto

lemma other_node_absent:
  assumes "S = insert x (set ns)"
  shows "take 1 (filter (\<lambda>n. n \<noteq> x) ns) = [] \<longleftrightarrow> S = {x}"
  using assms by (cases "filter (\<lambda>n. n \<noteq> x) ns = []") (auto simp: filter_empty_conv)

text \<open>The loop of \<open>GetTwoNodes\<close> ends on every ring. It returns nothing for an empty ring, otherwise
  the key's node followed by the first other node met clockwise from it, which is missing exactly when one node
  holds every point of the ring; \<open>GetAllNodes\<close> appends all nodes in name order.\<close>

theorem GetTwoNodes_returns:
  "let r = hring s; it = ring_position (hash_crc32 data) r; n = GetNode data s;
       second = take 1 (filter (\<lambda>x. x \<noteq> n) (map snd (drop (Suc it) r @ take it r)));
       sel = (if r = [] then [] else n # second)
   in GetTwoNodes data s = Some sel \<and> GetAllNodes data s = Some (sel @ sort (map fst (replicas s))) \<and>
      (r = [] \<or> (second = [] \<longleftrightarrow> snd ` set r = {n}))"
proof (cases "hring s = []")
  case True
  then show ?thesis by (simp add: GetTwoNodes_def GetAllNodes_def Let_def)
next
  case False
  have n: "GetNode data s = snd (hring s ! ring_position (hash_crc32 data) (hring s))"
    using False by (simp add: GetNode_def)
  note sp = nodes_split [OF ring_position_less [OF False], of "hash_crc32 data"]
  have e: "filter (\<lambda>x. x \<noteq> GetNode data s) (map snd xs) = map snd (filter (\<lambda>p. snd p \<noteq> GetNode data s) xs)" for xs
    by (simp add: filter_map comp_def)
  show ?thesis
    using False other_node_absent [OF sp [folded n, folded set_map]]
    unfolding GetTwoNodes_walk [OF False] GetAllNodes_def Let_def e find_take_filter take_map by simp
qed

subsection \<open>Nodes that come and go\<close>

lemma foldl_ring_put:
  "ring_ok r \<Longrightarrow> ring_ok (foldl (\<lambda>r h. ring_put h n r) r hs) \<and>
    map_of (foldl (\<lambda>r h. ring_put h n r) r hs) = (\<lambda>k. if k \<in> set hs then Some n else map_of r k)"
  by (induction hs arbitrary: r) (auto simp: ring_put_ok map_of_ring_put fun_eq_iff)

lemma foldl_ring_del:
  "ring_ok r \<Longrightarrow> ring_ok (foldl (\<lambda>r h. ring_del h r) r hs) \<and>
    map_of (foldl (\<lambda>r h. ring_del h r) r hs) = (\<lambda>k. if k \<in> set hs then None else map_of r k)"
  by (induction hs arbitrary: r) (auto simp: ring_del_ok map_of_ring_del fun_eq_iff)

lemma ring_eqI: "ring_ok r \<Longrightarrow> ring_ok r' \<Longrightarrow> map_of r = map_of r' \<Longrightarrow> r = r'"
proof -
  assume a: "ring_ok r" "ring_ok r'" "map_of r = map_of r'"
  then have "set r = set r'" by (metis map_of_inject_set ring_ok_distinct)
  then show ?thesis using a(1,2) unfolding ring_ok_def strict_sorted_iff
    by (intro map_sorted_distinct_set_unique [of fst]) (simp_all add: distinct_map)
qed

lemma GetNode_after_AddNode:
  assumes ok: "ring_ok (hring s)" and add: "AddNode node n s = Some s'"
  shows "GetNode data s' \<in> {GetNode data s, node}"
proof -
  let ?m = "map_of (hring s)" and ?hs = "vnode_hashes node n"
  have m': "ring_ok (hring s')" "map_of (hring s') = (\<lambda>k. if k \<in> set ?hs then Some node else ?m k)"
    using add foldl_ring_put [OF ok] by (auto simp: AddNode_def split: if_splits)
  have "?hs \<noteq> []" using add by (auto simp: AddNode_def vnode_hashes_def split: if_splits)
  then have ne: "hring s' \<noteq> []" using m'(2) by (metis map_of.simps(1) hd_in_set option.distinct(1))
  note o' = GetNode_owns [OF m'(1) ne, of data]
  show ?thesis
  proof (cases "hring s = []")
    case True
    then show ?thesis using o' unfolding owns_def m'(2) by (auto split: if_splits)
  next
    case False
    have "GetNode data s' = GetNode data s \<or> GetNode data s' = node"
      by (rule owns_eq [OF GetNode_owns [OF ok False] o']) (auto simp: m'(2) split: if_splits)
    then show ?thesis by simp
  qed
qed

lemma RemoveNode_undoes_AddNode:
  assumes ok: "ring_ok (hring s)" and add: "AddNode node n s = Some s'"
    and fresh: "node \<notin> fst ` set (replicas s)" "\<forall>h \<in> set (vnode_hashes node n). map_of (hring s) h = None"
  shows "RemoveNode node s' = s"
proof -
  let ?hs = "vnode_hashes node n" and ?r' = "foldl (\<lambda>r h. ring_put h node r) (hring s) (vnode_hashes node n)"
  have s': "replicas s' = AList.update node n (replicas s)" "hring s' = ?r'" "s'\<lparr>replicas := R, hring := H\<rparr> = s\<lparr>replicas := R, hring := H\<rparr>" for R H
    using add by (auto simp: AddNode_def split: if_splits)
  have "foldl (\<lambda>r h. ring_del h r) ?r' ?hs = hring s"
    using foldl_ring_put [OF ok, of node ?hs] foldl_ring_del [of ?r' ?hs] fresh(2)
    by (intro ring_eqI ok) (auto simp: fun_eq_iff)
  moreover have "AList.delete node (AList.update node n (replicas s)) = replicas s"
    using fresh(1) by (simp add: AList.delete_update_same AList.delete_idem image_iff)
  ultimately show ?thesis by (simp add: RemoveNode_def s' AList.update_conv)
qed

text \<open>C39: consistent hashing. Adding a node changes the node of a key only to the new node, and when the node is
  new and none of its points collides with a point of the ring, removing it again gives back exactly the ring
  before, so removing moves only the keys the removed node had.\<close>

theorem ring_consistent_hashing:
  assumes "ring_ok (hring s)" "AddNode node n s = Some s'"
  shows "ring_ok (hring s') \<and> (\<forall>data. GetNode data s' \<in> {GetNode data s, node}) \<and>
    (node \<notin> fst ` set (replicas s) \<and> (\<forall>h \<in> set (vnode_hashes node n). map_of (hring s) h = None) \<longrightarrow>
      RemoveNode node s' = s)"
proof (intro conjI allI impI)
  show "ring_ok (hring s')"
    using assms foldl_ring_put [OF assms(1)] by (auto simp: AddNode_def split: if_splits)
  show "GetNode data s' \<in> {GetNode data s, node}" for data by (rule GetNode_after_AddNode [OF assms])
  assume "node \<notin> fst ` set (replicas s) \<and> (\<forall>h \<in> set (vnode_hashes node n). map_of (hring s) h = None)"
  then show "RemoveNode node s' = s" using RemoveNode_undoes_AddNode [OF assms] by blast
qed

definition ring_a :: ConsistentHashRing where
  "ring_a = the (AddNode ''a 80'' 2 \<lparr>hring = [], replicas = []\<rparr>)"

lemma ring_a_steps:
  "ring_ok (hring ring_a) \<and> \<not> Option.is_none (AddNode ''b 80'' 2 ring_a) \<and> ''b 80'' \<notin> fst ` set (replicas ring_a) \<and>
   list_all (\<lambda>h. map_of (hring ring_a) h = None) (vnode_hashes ''b 80'' 2)"
  by code_simp

lemma ring_consistent_hashing_witness:
  "GetNode ''key'' (the (AddNode ''b 80'' 2 ring_a)) \<in> {GetNode ''key'' ring_a, ''b 80''} \<and>
   RemoveNode ''b 80'' (the (AddNode ''b 80'' 2 ring_a)) = ring_a"
proof -
  have "AddNode ''b 80'' 2 ring_a = Some (the (AddNode ''b 80'' 2 ring_a))"
    using ring_a_steps by (cases "AddNode ''b 80'' 2 ring_a") auto
  from ring_consistent_hashing [OF _ this] show ?thesis
    using ring_a_steps by (simp add: list_all_iff)
qed

end
