(* ===== verification/ThriftTracker.thy ===== *)
theory ThriftTracker
  imports HashRing AnnounceHandler AgentUtil
begin

text \<open>
  The agent's view of the trackers, \<open>gko-src/src/ThriftTracker.cpp\<close>: the two rings and the choice of
  the area, the tracker list of an info hash, the request an announce sends and the failover between trackers.
  The file read by \<open>LoadPBConf\<close> comes in parsed (\<open>None\<close> when it cannot be opened or parsed), and a
  call over the wire is a parameter: it says whether it returned without a \<open>TException\<close>, what the response
  object holds then, and the new state of the outside.
\<close>

subsection \<open>The configuration and the rings\<close>

record Tracker =
  tracker_host :: string
  tracker_port :: int

record TrackerArea =
  machine_rooms :: "string list"
  trackers_of :: "Tracker list"

record TrackerConf =
  areas :: "TrackerArea list"
  default_area :: TrackerArea

record ThriftTracker =
  trackers_hashring :: "ConsistentHashRing list"
  current_trackers_hashring_index :: nat
  tt_ip :: string
  tt_peerid :: string
  idc :: string
  tt_have_seed :: bool

definition empty_ring :: ConsistentHashRing where
  "empty_ring = \<lparr>hring = [], replicas = []\<rparr>"

definition ThriftTracker_new :: ThriftTracker where
  "ThriftTracker_new = \<lparr>trackers_hashring = [empty_ring, empty_ring], current_trackers_hashring_index = 0,
     tt_ip = [], tt_peerid = [], idc = [], tt_have_seed = False\<rparr>"

definition SetAttribute :: "string \<Rightarrow> string \<Rightarrow> ThriftTracker \<Rightarrow> ThriftTracker" where
  "SetAttribute peerid ip t = t\<lparr>tt_ip := ip, tt_peerid := peerid\<rparr>"

definition other_index :: "ThriftTracker \<Rightarrow> nat" where
  "other_index t = (if current_trackers_hashring_index t = 0 then 1 else 0)"

definition current_ring :: "ThriftTracker \<Rightarrow> ConsistentHashRing" where
  "current_ring t = trackers_hashring t ! current_trackers_hashring_index t"

text \<open>\<open>snprintf\<close> into 256 bytes.\<close>

definition tracker_node :: "Tracker \<Rightarrow> string" where
  "tracker_node t = take 255 (c_str (tracker_host t) @ '' '' @ show_int (tracker_port t))"

text \<open>The default count of 100 passes the assertion of \<open>AddNode\<close>.\<close>

definition LoadArea :: "TrackerArea \<Rightarrow> ConsistentHashRing \<Rightarrow> ConsistentHashRing" where
  "LoadArea area ring = foldl (\<lambda>r t. the (AddNode (tracker_node t) 100 r)) ring (trackers_of area)"

text \<open>What the host name leaves in \<open>idc_\<close>: a failed lookup keeps the old value, except for a virtual
  machine's name without a dash.\<close>

definition load_idc :: "string \<Rightarrow> string \<Rightarrow> string" where
  "load_idc hostname old =
    (case get_local_machine_room hostname of
       Some room \<Rightarrow> room
     | None \<Rightarrow>
         let name = (case rfind_text ''.baidu.com'' hostname of None \<Rightarrow> hostname | Some i \<Rightarrow> take i hostname)
         in case rfind_text ''.'' name of None \<Rightarrow> old | Some i \<Rightarrow> [])"

definition choose_area :: "string \<Rightarrow> TrackerConf \<Rightarrow> TrackerArea" where
  "choose_area room conf =
    (case List.find (\<lambda>a. list_ex (\<lambda>m. room = m) (machine_rooms a)) (areas conf) of
       Some area \<Rightarrow> area | None \<Rightarrow> default_area conf)"

definition LoadThriftTrackers :: "string \<Rightarrow> TrackerConf option \<Rightarrow> ThriftTracker \<Rightarrow> bool \<times> ThriftTracker" where
  "LoadThriftTrackers hostname conf t =
    (let i = other_index t;
         t = t\<lparr>trackers_hashring := (trackers_hashring t)[i := Clear (trackers_hashring t ! i)]\<rparr>;
         t = t\<lparr>idc := load_idc hostname (idc t)\<rparr>;
         room = trim_machine_room_digit (idc t)
     in case conf of
          None \<Rightarrow> (False, t)
        | Some conf \<Rightarrow>
            let ring = LoadArea (choose_area room conf) (trackers_hashring t ! i);
                t = t\<lparr>trackers_hashring := (trackers_hashring t)[i := ring]\<rparr>
            in if ring_empty ring then (False, t)
               else (True, t\<lparr>current_trackers_hashring_index := i\<rparr>))"

subsection \<open>The trackers of an info hash\<close>

definition stream_space :: "char \<Rightarrow> bool" where
  "stream_space c \<longleftrightarrow> c \<in> {CHR '' '', CHR 0x09, CHR 0x0A, CHR 0x0B, CHR 0x0C, CHR 0x0D}"

text \<open>\<open>strm >> ip\<close>: the word, and the rest of the stream.\<close>

definition read_word :: "string \<Rightarrow> string \<times> string" where
  "read_word s = (let s = dropWhile stream_space s in (takeWhile (\<lambda>c. \<not> stream_space c) s, dropWhile (\<lambda>c. \<not> stream_space c) s))"

text \<open>
  \<open>strm >> port\<close> into a \<open>uint16_t\<close>: a sign negates modulo \<open>2 ^ 16\<close>, a value
  that does not fit gives the largest one. \<open>None\<close>: no digits, and the code leaves the port indeterminate.
\<close>

definition read_port :: "string \<Rightarrow> int option" where
  "read_port s =
    (let s = dropWhile stream_space s;
         neg = (s \<noteq> [] \<and> hd s = CHR ''-'');
         s = (if s \<noteq> [] \<and> (hd s = CHR ''-'' \<or> hd s = CHR ''+'') then tl s else s)
     in if takeWhile is_digit s = [] then None
        else let v = read_nat s
             in Some (if v > 65535 then 65535 else if neg then (- int v) mod 65536 else int v))"

definition read_node :: "string \<Rightarrow> string \<times> int option" where
  "read_node node = (let (ip, rest) = read_word node in (ip, if ip = [] then None else read_port rest))"

definition GetTrackersByInfohash ::
  "string \<Rightarrow> ThriftTracker \<Rightarrow> (string \<times> int option) list \<Rightarrow> (string \<times> int option) list option" where
  "GetTrackersByInfohash infohash t trackers =
    map_option (\<lambda>nodes. trackers @ map read_node nodes) (GetAllNodes infohash (current_ring t))"

subsection \<open>Announcing\<close>

record ex_announce_peer =
  ex_ip :: string
  ex_peerid :: string
  ex_port :: u16

datatype ex_status = EX_DOWNLOAD | EX_METADATA | EX_SEEDING | EX_PAUSED | EX_STOPPED

record ex_announce_request =
  ex_infohash :: string
  ex_peer :: ex_announce_peer
  ex_uploaded :: u64
  ex_downloaded :: u64
  ex_left :: u64
  ex_is_seed :: bool
  ex_num_want :: u32
  ex_state :: ex_status
  ex_trackers :: "(string \<times> int) list"

record ex_announce_response =
  er_ret :: int
  er_failure_reason :: string
  er_min_interval :: int
  er_have_seed :: bool
  er_peers :: "ex_announce_peer list"

fun announce_status :: "ex_status \<Rightarrow> Status" where
  "announce_status EX_DOWNLOAD = DOWNLOAD"
| "announce_status EX_METADATA = METADATA"
| "announce_status EX_SEEDING = SEEDING"
| "announce_status EX_PAUSED = STOPPED"
| "announce_status EX_STOPPED = STOPPED"

text \<open>The request handed to \<open>OnAnnounce\<close>; \<open>__set_x\<close> also sets the flag of the field.\<close>

definition ThriftTrackerAnnounce :: "ex_announce_request \<Rightarrow> ThriftTracker \<Rightarrow> AnnounceRequest" where
  "ThriftTrackerAnnounce req t =
    \<lparr>rq_infohash = ex_infohash req,
     rq_peer = \<lparr>ap_peerid = ex_peerid (ex_peer req), ap_ip = ex_ip (ex_peer req),
       ap_port = ucast (ex_port (ex_peer req)), ap_idc = idc t, ap_isset_ip = True, ap_isset_idc = True\<rparr>,
     rq_stat = \<lparr>st_uploaded = ex_uploaded req, st_downloaded = ex_downloaded req, st_left = ex_left req,
       st_status = announce_status (ex_state req)\<rparr>,
     rq_is_seed = ex_is_seed req, rq_num_want = ex_num_want req,
     rq_isset_infohash = True, rq_isset_peer = True, rq_isset_stat = True, rq_isset_is_seed = True,
     rq_isset_num_want = True\<rparr>"

text \<open>
  One response object serves all attempts. The loop ends with the first call that returns.
\<close>

fun announce_loop ::
  "(string \<times> int \<Rightarrow> AnnounceRequest \<Rightarrow> AnnounceResponse \<Rightarrow> 's \<Rightarrow> bool \<times> AnnounceResponse \<times> 's) \<Rightarrow>
   AnnounceRequest \<Rightarrow> (string \<times> int) list \<Rightarrow> AnnounceResponse \<Rightarrow> 's \<Rightarrow> bool \<times> AnnounceResponse \<times> 's" where
  "announce_loop call request [] response s = (False, response, s)"
| "announce_loop call request (it # ts) response s =
    (let (success, response, s) = call it request response s in
     if success then (True, response, s) else announce_loop call request ts response s)"

definition ex_peer_of :: "ResponsePeer \<Rightarrow> ex_announce_peer" where
  "ex_peer_of p = \<lparr>ex_ip = rp_ip p, ex_peerid = rp_peerid p, ex_port = ucast (rp_port p)\<rparr>"

text \<open>\<open>res\<close> starts as a new object, whose fields the failure branch does not all set.\<close>

definition OnAnnounce ::
  "(string \<times> int \<Rightarrow> AnnounceRequest \<Rightarrow> AnnounceResponse \<Rightarrow> 's \<Rightarrow> bool \<times> AnnounceResponse \<times> 's) \<Rightarrow>
   (string \<times> int) list \<Rightarrow> AnnounceRequest \<Rightarrow> ex_announce_response \<Rightarrow> ThriftTracker \<Rightarrow> 's \<Rightarrow>
   ex_announce_response \<times> ThriftTracker \<times> 's" where
  "OnAnnounce call trackers request res t s =
    (let (announce_success, response, s) = announce_loop call request trackers AnnounceResponse_new s
     in if \<not> announce_success
        then (res\<lparr>er_ret := 10000, er_failure_reason := ''announce to tracker failed''\<rparr>, t, s)
        else (res\<lparr>er_ret := an_ret response, er_failure_reason := an_failure_reason response,
                  er_have_seed := an_have_seed response, er_min_interval := an_min_interval response,
                  er_peers := map ex_peer_of (an_peers response)\<rparr>,
              t\<lparr>tt_have_seed := an_have_seed response\<rparr>, s))"

subsection \<open>Loading\<close>

definition ring_nodes :: "ConsistentHashRing \<Rightarrow> string set" where
  "ring_nodes r = fst ` set (replicas r)"

definition ring_wf :: "ConsistentHashRing \<Rightarrow> bool" where
  "ring_wf r \<longleftrightarrow> ring_ok (hring r) \<and> snd ` set (hring r) \<subseteq> ring_nodes r"

lemma set_ring_put: "set (ring_put h n r) \<subseteq> insert (h, n) (set r)" "ring_put h n r \<noteq> []"
  by (induction h n r rule: ring_put.induct) auto

lemma set_ring_put_all: "set (foldl (\<lambda>r h. ring_put h n r) r hs) \<subseteq> set r \<union> (\<lambda>h. (h, n)) ` set hs"
  by (induction hs arbitrary: r) (use set_ring_put(1) in fastforce)+

lemma ring_put_all_nonempty: "hs \<noteq> [] \<Longrightarrow> foldl (\<lambda>r h. ring_put h n r) r hs \<noteq> []"
  by (induction hs rule: rev_induct) (simp_all add: set_ring_put(2))

lemma AddNode_wf:
  assumes "0 < n" "ring_wf r"
  shows "ring_wf (the (AddNode node n r))" "hring (the (AddNode node n r)) \<noteq> []"
    and "ring_nodes (the (AddNode node n r)) = insert node (ring_nodes r)"
proof -
  have k: "fst ` set (AList.update node n m) = insert node (fst ` set m)" for m :: "(string, int) assoc"
    using dom_update [of node n m] by (simp add: dom_map_of_conv_image_fst)
  then show nodes: "ring_nodes (the (AddNode node n r)) = insert node (ring_nodes r)"
    using assms(1) by (simp add: AddNode_def ring_nodes_def)
  show "hring (the (AddNode node n r)) \<noteq> []"
    using assms(1) by (simp add: AddNode_def ring_put_all_nonempty vnode_hashes_def)
  show "ring_wf (the (AddNode node n r))"
    using assms image_mono [OF set_ring_put_all, of snd node "hring r" "vnode_hashes node n"]
      foldl_ring_put [of "hring r" node]
    unfolding ring_wf_def nodes by (auto simp: AddNode_def image_Un image_image)
qed

lemma LoadArea_wf:
  assumes "ring_wf r"
  shows "ring_wf (LoadArea area r) \<and> (hring (LoadArea area r) = [] \<longleftrightarrow> hring r = [] \<and> trackers_of area = []) \<and>
    ring_nodes (LoadArea area r) = ring_nodes r \<union> tracker_node ` set (trackers_of area)"
proof -
  have "ring_wf (foldl f r ts) \<and> (hring (foldl f r ts) = [] \<longleftrightarrow> hring r = [] \<and> ts = []) \<and>
      ring_nodes (foldl f r ts) = ring_nodes r \<union> tracker_node ` set ts"
    if "f = (\<lambda>r t. the (AddNode (tracker_node t) 100 r))" "ring_wf r" for f ts r
    using that(2) by (induction ts arbitrary: r) (auto simp: that(1) AddNode_wf)
  then show ?thesis using assms by (simp add: LoadArea_def)
qed

definition tt_inv :: "ThriftTracker \<Rightarrow> bool" where
  "tt_inv t \<longleftrightarrow> length (trackers_hashring t) = 2 \<and> current_trackers_hashring_index t < 2 \<and>
    list_all ring_wf (trackers_hashring t)"

text \<open>The trackers a load picks from a readable file.\<close>

definition chosen :: "string \<Rightarrow> TrackerConf \<Rightarrow> ThriftTracker \<Rightarrow> Tracker list" where
  "chosen hostname conf t = trackers_of (choose_area (trim_machine_room_digit (load_idc hostname (idc t))) conf)"

lemma ring_wf_Clear: "ring_wf (Clear r)" "hring (Clear r) = []" "ring_nodes (Clear r) = {}"
  by (simp_all add: ring_wf_def Clear_def ring_ok_def ring_nodes_def)

lemma LoadThriftTrackers_cases:
  assumes inv: "tt_inv t" and l: "LoadThriftTrackers host conf t = (ok, t')"
  shows "tt_inv t'" "ok \<longleftrightarrow> (\<exists>c. conf = Some c \<and> chosen host c t \<noteq> [])"
    "\<not> ok \<Longrightarrow> current_ring t' = current_ring t"
    "ok \<Longrightarrow> ring_wf (current_ring t') \<and> hring (current_ring t') \<noteq> [] \<and>
       ring_nodes (current_ring t') = tracker_node ` set (chosen host (the conf) t)"
proof -
  let ?i = "other_index t" and ?c = "current_trackers_hashring_index t"
  have i: "?i < 2" "?c < 2" "?i \<noteq> ?c" using inv by (auto simp: other_index_def tt_inv_def)
  have len: "length (trackers_hashring t) = 2" and wf: "\<forall>r \<in> set (trackers_hashring t). ring_wf r"
    using inv by (auto simp: tt_inv_def list_all_iff)
  have upd: "\<forall>r \<in> set ((trackers_hashring t)[?i := x]). ring_wf r" if "ring_wf x" for x
    using wf that set_update_subset_insert [of "trackers_hashring t" ?i x] by blast
  note L = LoadArea_wf [OF ring_wf_Clear(1) [of "trackers_hashring t ! ?i"], unfolded ring_wf_Clear(2,3)]
  have upd2: "\<forall>r \<in> set ((trackers_hashring t)[?i := LoadArea area (Clear (trackers_hashring t ! ?i))]). ring_wf r" for area
    using upd L by blast
  note d = l [unfolded LoadThriftTrackers_def Let_def]
  show "tt_inv t'"
    using d i len upd2 upd [OF ring_wf_Clear(1)]
    by (auto simp: tt_inv_def list_all_iff split: option.splits if_splits)
  show "ok \<longleftrightarrow> (\<exists>c. conf = Some c \<and> chosen host c t \<noteq> [])"
    using d i len L by (auto simp: chosen_def ring_empty_def split: option.splits if_splits)
  show "current_ring t' = current_ring t" if "\<not> ok"
    using d i len that by (auto simp: current_ring_def split: option.splits if_splits)
  show "ring_wf (current_ring t') \<and> hring (current_ring t') \<noteq> [] \<and>
       ring_nodes (current_ring t') = tracker_node ` set (chosen host (the conf) t)" if ok
    using d i len that L by (auto simp: chosen_def ring_empty_def current_ring_def split: option.splits if_splits)
qed

lemma find_in_set: "find P xs = Some x \<Longrightarrow> x \<in> set xs"
  by (auto simp: find_Some_iff)

lemma GetTwoNodes_some:
  "\<exists>l. GetTwoNodes data s = Some l \<and> set l \<subseteq> snd ` set (hring s)"
proof (cases "hring s = []")
  case False
  let ?it = "ring_position (hash_crc32 data) (hring s)"
  have "hring s ! ?it \<in> set (hring s)" using ring_position_less [OF False] by simp
  then have "GetNode data s \<in> snd ` set (hring s)" using False by (auto simp: GetNode_def)
  then show ?thesis
    unfolding GetTwoNodes_walk [OF False] Let_def
    by (auto split: option.splits dest!: find_in_set [OF sym] in_set_dropD in_set_takeD) force+
qed (simp add: GetTwoNodes_def)

lemma GetTrackersByInfohash_set:
  assumes "ring_wf (current_ring t)"
  shows "\<exists>l. GetTrackersByInfohash ih t [] = Some l \<and> set l = read_node ` ring_nodes (current_ring t)"
proof -
  obtain l where l: "GetTwoNodes ih (current_ring t) = Some l" "set l \<subseteq> snd ` set (hring (current_ring t))"
    using GetTwoNodes_some by blast
  then have "set l \<union> ring_nodes (current_ring t) = ring_nodes (current_ring t)"
    using assms by (auto simp: ring_wf_def)
  then show ?thesis using l(1) by (simp add: GetTrackersByInfohash_def GetAllNodes_def ring_nodes_def image_Un [symmetric])
qed

text \<open>Reloading the trackers is atomic. A load succeeds exactly when the file is readable and the chosen
  area has a tracker; then every info hash gets the trackers of that area, all of them, and otherwise the
  trackers of every info hash are those from before.\<close>

theorem LoadThriftTrackers_atomic:
  assumes "tt_inv t"
  shows "let (ok, t') = LoadThriftTrackers hostname conf t in
    tt_inv t' \<and> ok = (case conf of None \<Rightarrow> False | Some c \<Rightarrow> chosen hostname c t \<noteq> []) \<and>
    (if ok then \<exists>l. GetTrackersByInfohash infohash t' [] = Some l \<and>
        set l = (\<lambda>tr. read_node (tracker_node tr)) ` set (chosen hostname (the conf) t)
     else GetTrackersByInfohash infohash t' [] = GetTrackersByInfohash infohash t [])"
proof -
  obtain ok t' where l: "LoadThriftTrackers hostname conf t = (ok, t')" by force
  note c = LoadThriftTrackers_cases [OF assms l]
  have "\<exists>l. GetTrackersByInfohash infohash t' [] = Some l \<and>
      set l = (\<lambda>tr. read_node (tracker_node tr)) ` set (chosen hostname (the conf) t)" if ok
    using c(4) [OF that] GetTrackersByInfohash_set [of t' infohash] by (simp add: image_image)
  moreover have "GetTrackersByInfohash infohash t' [] = GetTrackersByInfohash infohash t []" if "\<not> ok"
    using c(3) [OF that] by (simp add: GetTrackersByInfohash_def)
  ultimately show ?thesis using c(1,2) l by (auto split: option.splits)
qed

subsection \<open>Reading a node back\<close>

definition plain_tracker :: "Tracker \<Rightarrow> bool" where
  "plain_tracker t \<longleftrightarrow> tracker_host t \<noteq> [] \<and> length (tracker_host t) \<le> 249 \<and>
     list_all (\<lambda>c. \<not> stream_space c \<and> c \<noteq> CHR 0x00) (tracker_host t) \<and> 0 \<le> tracker_port t \<and> tracker_port t < 65536"

lemma length_show_nat: "n < 10 ^ d \<Longrightarrow> 0 < d \<Longrightarrow> length (show_nat n) \<le> d"
proof (induction n arbitrary: d rule: show_nat.induct)
  case (1 n)
  show ?case
  proof (cases "n < 10")
    case True
    then show ?thesis using 1 by (simp add: show_nat.simps [of n])
  next
    case False
    then obtain e where e: "d = Suc e" "0 < e" using "1.prems" by (cases d; cases "d - 1") auto
    then have "n div 10 < 10 ^ e" using "1.prems" by (simp add: div_less_iff_less_mult mult.commute)
    then show ?thesis using "1.IH" [OF False _ e(2)] e(1) False by (simp add: show_nat.simps [of n])
  qed
qed

lemma digit_not_blank: "is_digit c \<Longrightarrow> \<not> stream_space c \<and> c \<noteq> CHR ''-'' \<and> c \<noteq> CHR ''+''"
  by (auto simp: stream_space_def is_digit_def)

lemma read_port_show: "n < 65536 \<Longrightarrow> read_port ('' '' @ show_nat n) = Some (int n)"
proof -
  assume n: "n < 65536"
  obtain c r where s: "show_nat n = c # r" by (cases "show_nat n") auto
  have c: "is_digit c" using show_nat_digits [of c n] s by simp
  show ?thesis
    using n read_show_nat [of n] digit_not_blank [OF c] c
    by (simp add: read_port_def stream_space_def Let_def s)
qed

lemma dropWhile_no_space: "list_all (\<lambda>c. \<not> stream_space c \<and> Q c) w \<Longrightarrow> w \<noteq> [] \<Longrightarrow> dropWhile stream_space (w @ r) = w @ r"
  by (cases w) auto

lemma words_no_space:
  "list_all (\<lambda>c. \<not> stream_space c \<and> Q c) w \<Longrightarrow> takeWhile (\<lambda>c. \<not> stream_space c) (w @ CHR '' '' # r) = w \<and>
    dropWhile (\<lambda>c. \<not> stream_space c) (w @ CHR '' '' # r) = CHR '' '' # r"
  by (induction w) (auto simp: stream_space_def)

text \<open>a tracker's node text gives back its host and port, for a host of 1 to 249 characters without blanks
  and a port of 16 bits.\<close>

theorem read_node_tracker_node:
  assumes "plain_tracker t"
  shows "read_node (tracker_node t) = (tracker_host t, Some (tracker_port t))"
proof -
  let ?h = "tracker_host t"
  have h: "?h \<noteq> []" "length ?h \<le> 249" "list_all (\<lambda>c. \<not> stream_space c \<and> c \<noteq> CHR 0x00) ?h"
      and p: "0 \<le> tracker_port t" "tracker_port t < 65536"
    using assms by (auto simp: plain_tracker_def)
  have "c_str ?h = ?h" using h(3) by (intro c_str_id) (auto simp: list_all_iff)
  moreover have "length (show_nat (nat (tracker_port t))) \<le> 5" using p by (intro length_show_nat) auto
  ultimately have n: "tracker_node t = ?h @ '' '' @ show_nat (nat (tracker_port t))"
    using h(2) p(1) by (simp add: tracker_node_def show_int_def)
  show ?thesis
    using read_port_show [of "nat (tracker_port t)"] p h(1) dropWhile_no_space [OF h(3) h(1)] words_no_space [OF h(3)]
    by (simp add: read_node_def read_word_def n Let_def)
qed

lemma read_node_tracker_node_witness:
  "read_node (tracker_node \<lparr>tracker_host = ''10.0.0.1'', tracker_port = 6969\<rparr>) = (''10.0.0.1'', Some 6969)"
  by (subst read_node_tracker_node) (simp_all add: plain_tracker_def stream_space_def)

subsection \<open>An announce from end to end\<close>

text \<open>A call answered by the trackers of \<open>AnnounceHandler\<close>; \<open>up\<close> says which can be reached.\<close>

definition tracker_call ::
  "(string \<Rightarrow> string) \<Rightarrow> (StoredPeerInfo \<Rightarrow> string) \<Rightarrow> string \<Rightarrow> u64 \<Rightarrow> nat list \<Rightarrow> (string \<times> int \<Rightarrow> bool) \<Rightarrow>
   string \<times> int \<Rightarrow> AnnounceRequest \<Rightarrow> AnnounceResponse \<Rightarrow> (string \<times> int \<Rightarrow> PeerHandler) \<Rightarrow>
   bool \<times> AnnounceResponse \<times> (string \<times> int \<Rightarrow> PeerHandler)" where
  "tracker_call b64e w tid now rs up it request response s =
    (if up it then let (r, h) = announce b64e w tid now rs request (s it) in (True, r, s(it := h))
     else (False, response, s))"

lemma announce_loop_first:
  "announce_loop (tracker_call b64e w tid now rs up) request ts response s =
    (case List.find up ts of
       None \<Rightarrow> (False, response, s)
     | Some it \<Rightarrow> let (r, h) = announce b64e w tid now rs request (s it) in (True, r, s(it := h)))"
  by (induction ts) (auto simp: tracker_call_def Let_def split: prod.splits)

lemma agent_request_complete: "AnnounceHandler.complete (ThriftTrackerAnnounce req t)"
  by (simp add: AnnounceHandler.complete_def ThriftTrackerAnnounce_def)


subsection \<open>Examples\<close>

definition conf_ex :: TrackerConf where
  "conf_ex = \<lparr>areas = [\<lparr>machine_rooms = [''nj''], trackers_of = [\<lparr>tracker_host = ''t1'', tracker_port = 80\<rparr>]\<rparr>],
     default_area = \<lparr>machine_rooms = [], trackers_of = []\<rparr>\<rparr>"

lemma ThriftTracker_new_inv: "tt_inv ThriftTracker_new"
  by (simp add: tt_inv_def ThriftTracker_new_def empty_ring_def ring_wf_def ring_ok_def)

lemma conf_ex_chosen:
  "chosen ''a.nj02.baidu.com'' conf_ex ThriftTracker_new = [\<lparr>tracker_host = ''t1'', tracker_port = 80\<rparr>]"
  "chosen ''a.tc.baidu.com'' conf_ex ThriftTracker_new = []"
  by code_simp+

lemma LoadThriftTrackers_atomic_witness:
  "fst (LoadThriftTrackers ''a.nj02.baidu.com'' (Some conf_ex) ThriftTracker_new) \<and>
   \<not> fst (LoadThriftTrackers ''a.tc.baidu.com'' (Some conf_ex) ThriftTracker_new)"
  using LoadThriftTrackers_atomic [OF ThriftTracker_new_inv, of "''a.nj02.baidu.com''" "Some conf_ex"]
    LoadThriftTrackers_atomic [OF ThriftTracker_new_inv, of "''a.tc.baidu.com''" "Some conf_ex"]
  by (simp add: conf_ex_chosen case_prod_unfold Let_def)

end
