(* ===== verification/GroupCluster.thy ===== *)
theory GroupCluster
  imports Prelude
begin

text \<open>
  The threads that fetch pieces from the cluster's file system (\<open>gko-src/group/group_cluster_task.cpp\<close>) and
  the thread that starts them (\<open>GroupManager::ClusterDownload\<close>). Bit fields are lists of truth values, the
  index \<open>-1\<close> is \<open>None\<close>. The torrent, the file system and the random number are arguments.
\<close>

subsection \<open>Choosing a piece\<close>

record cluster_task =
  threads_num :: int
  current_start_thread_num :: int
  complete_threads_num :: int
  pieces_have :: "bool list"
  pieces_downloading :: "bool list"
  hash_failed_pieces :: "nat list"
  should_stop :: bool
  retval :: int
  cluster_total_download :: int
  ignore_error :: bool
  is_stoped :: bool

definition new_cluster_task :: "int \<Rightarrow> bool \<Rightarrow> cluster_task" where
  "new_cluster_task n ign = \<lparr>threads_num = n, current_start_thread_num = 0, complete_threads_num = 0,
     pieces_have = [], pieces_downloading = [], hash_failed_pieces = [], should_stop = False, retval = 0,
     cluster_total_download = 0, ignore_error = ign, is_stoped = False\<rparr>"

text \<open>\<open>priorities\<close>: those of the pieces; \<open>connected\<close> and \<open>parsed\<close>: the outcomes of the calls before.\<close>

definition StartDownload :: "bool \<Rightarrow> bool \<Rightarrow> int list \<Rightarrow> cluster_task \<Rightarrow> bool \<times> cluster_task" where
  "StartDownload connected parsed priorities s =
    (if \<not> connected then (False, s)
     else if \<not> parsed then (False, s)
     else
       let n = length priorities;
           s = s\<lparr>pieces_have := map (\<lambda>p. p = 0) priorities, pieces_downloading := replicate n False\<rparr>
       in (True, if int n < threads_num s then s\<lparr>threads_num := (if n < 3 then 3 else int n)\<rparr> else s))"

definition StopDownload :: "cluster_task \<Rightarrow> cluster_task" where
  "StopDownload s = s\<lparr>should_stop := True, is_stoped := True\<rparr>"

definition AddHashFailedPiece :: "nat \<Rightarrow> cluster_task \<Rightarrow> cluster_task" where
  "AddHashFailedPiece i s = s\<lparr>hash_failed_pieces := hash_failed_pieces s @ [i]\<rparr>"

definition CheckIfThreadnumOut :: "cluster_task \<Rightarrow> bool" where
  "CheckIfThreadnumOut s \<longleftrightarrow> current_start_thread_num s \<ge> threads_num s"

text \<open>One pass of the \<open>do\<close> loop at position \<open>i\<close>: the bits, the last piece being downloaded, and the find.\<close>

definition look_at ::
  "(nat \<Rightarrow> bool) \<Rightarrow> bool list \<Rightarrow> nat \<Rightarrow> bool list \<times> nat option \<Rightarrow> bool list \<times> nat option \<times> nat option" where
  "look_at have_piece downloading i hp =
    (let (has, piece_downloading) = hp in
     if has ! i then (has, piece_downloading, None)
     else if have_piece i then (has[i := True], piece_downloading, None)
     else if downloading ! i then (has, Some i, None)
     else (has, piece_downloading, Some i))"

partial_function (option) undownloaded_loop ::
  "(nat \<Rightarrow> bool) \<Rightarrow> bool list \<Rightarrow> nat \<Rightarrow> nat \<Rightarrow> bool list \<times> nat option \<Rightarrow> (bool list \<times> nat option \<times> nat option) option"
where
  "undownloaded_loop have_piece downloading start i hp =
    (let (has, piece_downloading, piece_index) = look_at have_piece downloading i hp;
         i = (i + 1) mod length downloading
     in if piece_index = None \<and> i \<noteq> start
        then undownloaded_loop have_piece downloading start i (has, piece_downloading)
        else Some (has, piece_downloading, piece_index))"

declare undownloaded_loop.simps [code]

text \<open>The outer \<open>None\<close>: the division by zero of a torrent without pieces.\<close>

definition GetUndownloadedPiece ::
  "(nat \<Rightarrow> bool) \<Rightarrow> nat \<Rightarrow> cluster_task \<Rightarrow> (nat option \<times> cluster_task) option" where
  "GetUndownloadedPiece have_piece random s =
    (let num_pieces = length (pieces_downloading s) in
     if num_pieces = 0 then None
     else
       let start = random mod num_pieces
       in map_option (\<lambda>(has, piece_downloading, piece_index).
            (if piece_index = None then piece_downloading else piece_index, s\<lparr>pieces_have := has\<rparr>))
          (undownloaded_loop have_piece (pieces_downloading s) start (start mod num_pieces) (pieces_have s, None)))"

definition set_downloading :: "nat \<Rightarrow> bool \<Rightarrow> cluster_task \<Rightarrow> cluster_task" where
  "set_downloading i b s = s\<lparr>pieces_downloading := (pieces_downloading s)[i := b]\<rparr>"

text \<open>The retry queue: the piece taken from its front.\<close>

definition take_hash_failed :: "cluster_task \<Rightarrow> nat option \<times> cluster_task" where
  "take_hash_failed s = (case hash_failed_pieces s of [] \<Rightarrow> (None, s)
     | i # is \<Rightarrow> (Some i, s\<lparr>hash_failed_pieces := is\<rparr>))"

definition GetPieceToDownload ::
  "(nat \<Rightarrow> bool) \<Rightarrow> nat \<Rightarrow> nat option \<Rightarrow> bool \<Rightarrow> cluster_task \<Rightarrow> (nat option \<times> bool \<times> cluster_task) option" where
  "GetPieceToDownload have_piece random last_piece from_failed s =
    (if \<not> from_failed then
       let s = (case last_piece of None \<Rightarrow> s | Some l \<Rightarrow> set_downloading l False s)
       in case GetUndownloadedPiece have_piece random s of
            None \<Rightarrow> None
          | Some (Some i, s) \<Rightarrow> Some (Some i, False, set_downloading i True s)
          | Some (None, s) \<Rightarrow> (case take_hash_failed s of (p, s) \<Rightarrow> Some (p, True, s))
     else case take_hash_failed s of (p, s) \<Rightarrow> Some (p, True, s))"

subsection \<open>The search ends\<close>

fun scan :: "(nat \<Rightarrow> bool) \<Rightarrow> bool list \<Rightarrow> nat list \<Rightarrow> bool list \<times> nat option \<Rightarrow> bool list \<times> nat option \<times> nat option" where
  "scan have_piece downloading [] hp = (fst hp, snd hp, None)"
| "scan have_piece downloading (i # is) hp =
    (let (has, pd, p) = look_at have_piece downloading i hp
     in if p = None then scan have_piece downloading is (has, pd) else (has, pd, p))"

lemma next_is_start:
  fixes n k start :: nat
  assumes "k < n" "start < n"
  shows "((start + k) mod n + 1) mod n = (start + Suc k) mod n" "(start + Suc k) mod n = start \<longleftrightarrow> Suc k = n"
proof -
  show "((start + k) mod n + 1) mod n = (start + Suc k) mod n" by (simp add: mod_Suc_eq)
  show "(start + Suc k) mod n = start \<longleftrightarrow> Suc k = n"
    using assms by (cases "start + Suc k < n") (auto simp: mod_if)
qed

lemma undownloaded_loop_scan:
  assumes "start < length d" "k < length d"
  shows "undownloaded_loop hp d start ((start + k) mod length d) x =
    Some (scan hp d (map (\<lambda>j. (start + j) mod length d) [k ..< length d]) x)"
  using assms(2)
proof (induction "length d - k" arbitrary: k x)
  case (Suc m)
  let ?i = "(start + k) mod length d"
  obtain has pd p where l: "look_at hp d ?i x = (has, pd, p)" by (metis prod_cases3)
  note nx = next_is_start [OF Suc.prems assms(1)]
  have s: "scan hp d (map (\<lambda>j. (start + j) mod length d) [k ..< length d]) x =
      (if p = None then scan hp d (map (\<lambda>j. (start + j) mod length d) [Suc k ..< length d]) (has, pd) else (has, pd, p))"
    using Suc.prems l by (simp add: upt_conv_Cons)
  show ?case
  proof (cases "p = None \<and> Suc k \<noteq> length d")
    case True
    then have "undownloaded_loop hp d start ((start + Suc k) mod length d) (has, pd) =
        Some (scan hp d (map (\<lambda>j. (start + j) mod length d) [Suc k ..< length d]) (has, pd))"
      using Suc.hyps(2) Suc.prems by (intro Suc.hyps(1)) simp_all
    then show ?thesis using True l s nx by (subst undownloaded_loop.simps) (simp add: Let_def)
  next
    case False
    then show ?thesis using l s nx by (subst undownloaded_loop.simps) (auto simp: Let_def)
  qed
qed simp

text \<open>What the search guarantees: \<open>had\<close> are the pieces the torrent or the bit field has.\<close>

definition had :: "(nat \<Rightarrow> bool) \<Rightarrow> bool list \<Rightarrow> nat \<Rightarrow> bool" where
  "had hp has i \<longleftrightarrow> has ! i \<or> hp i"

definition bits_between :: "(nat \<Rightarrow> bool) \<Rightarrow> bool list \<Rightarrow> bool list \<Rightarrow> bool" where
  "bits_between hp has has' \<longleftrightarrow> length has' = length has \<and>
    (\<forall>i < length has. (has ! i \<longrightarrow> has' ! i) \<and> (has' ! i \<longrightarrow> had hp has i))"

lemma bits_between_refl [simp]: "bits_between hp has has"
  by (simp add: bits_between_def had_def)

lemma bits_between_trans: "bits_between hp a b \<Longrightarrow> bits_between hp b c \<Longrightarrow> bits_between hp a c"
  by (auto simp: bits_between_def had_def)

lemma bits_between_had: "bits_between hp has has' \<Longrightarrow> i < length has \<Longrightarrow> had hp has' i = had hp has i"
  by (auto simp: bits_between_def had_def)

lemma look_at_cases:
  assumes "look_at hp d i (has, pd) = (has', pd', p)" "i < length has"
  shows "bits_between hp has has'"
    and "p = None \<or> p = Some i \<and> \<not> had hp has i \<and> \<not> d ! i"
    and "pd = None \<or> pd' \<noteq> None"
    and "had hp has i \<and> pd' = pd \<and> has' ! i \<and> p = None \<or> \<not> had hp has i \<and> d ! i \<and> pd' = Some i \<and> p = None \<or> p = Some i"
  using assms by (auto simp: look_at_def bits_between_def had_def nth_list_update split: if_splits)

lemma scan_spec:
  assumes "scan hp d is (has, pd) = (has', pd', p)" "\<forall>i \<in> set is. i < length has"
  shows "bits_between hp has has' \<and> (pd = None \<or> pd' \<noteq> None) \<and>
    (case p of
       Some i \<Rightarrow> i \<in> set is \<and> \<not> had hp has i \<and> \<not> d ! i
     | None \<Rightarrow> (\<forall>i \<in> set is. had hp has i \<and> has' ! i \<or> d ! i) \<and>
         (case pd' of None \<Rightarrow> \<forall>i \<in> set is. has' ! i
          | Some j \<Rightarrow> pd = Some j \<or> j \<in> set is \<and> \<not> had hp has j \<and> d ! j))"
  using assms
proof (induction "is" arbitrary: has pd)
  case Nil
  then show ?case by (auto split: option.split)
next
  case (Cons i "is")
  obtain h1 pd1 p1 where l: "look_at hp d i (has, pd) = (h1, pd1, p1)" by (metis prod_cases3)
  have i: "i < length has" using Cons.prems(2) by simp
  note c = look_at_cases [OF l i]
  have len: "length h1 = length has" using c(1) by (simp add: bits_between_def)
  show ?case
  proof (cases p1)
    case (Some q)
    then show ?thesis using Cons.prems(1) l c by auto
  next
    case None
    then have s: "scan hp d is (h1, pd1) = (has', pd', p)" using Cons.prems(1) l by simp
    have m: "bits_between hp h1 has'" using Cons.IH [OF s] Cons.prems(2) len by auto
    have keep: "h1 ! j \<Longrightarrow> has' ! j" if "j < length has" for j using m that len by (simp add: bits_between_def)
    have eq: "had hp h1 j = had hp has j" if "j < length has" for j by (rule bits_between_had [OF c(1) that])
    show ?thesis
      using Cons.IH [OF s] Cons.prems(2) len c None keep [OF i] bits_between_trans [OF c(1) m]
      by (auto simp: eq split: option.splits)
  qed
qed

lemma positions_all: "0 < n \<Longrightarrow> set (map (\<lambda>j. (start + j) mod n) [0 ..< n]) = {..< n :: nat}"
proof (intro equalityI subsetI)
  fix x assume n: "0 < n" "x \<in> {..< n}"
  define j where "j = (x + (n - start mod n)) mod n"
  have "(start + j) mod n = (start mod n + (x + (n - start mod n))) mod n" by (simp add: j_def mod_simps)
  also have "start mod n + (x + (n - start mod n)) = x + n" using n(1) mod_less_divisor [of n start] by linarith
  also have "(x + n) mod n = x" using n by simp
  finally have "x = (start + j) mod n" "j < n" using n(1) by (simp_all add: j_def)
  then show "x \<in> set (map (\<lambda>j. (start + j) mod n) [0 ..< n])" by auto
qed auto

lemma GetUndownloadedPiece_spec:
  assumes "pieces_downloading s \<noteq> []" "length (pieces_have s) = length (pieces_downloading s)"
  shows "\<exists>p has. GetUndownloadedPiece hp random s = Some (p, s\<lparr>pieces_have := has\<rparr>) \<and> bits_between hp (pieces_have s) has \<and>
    (case p of
       None \<Rightarrow> \<forall>i < length has. has ! i
     | Some i \<Rightarrow> i < length has \<and> \<not> had hp (pieces_have s) i \<and>
         (if pieces_downloading s ! i
          then \<forall>j < length has. had hp (pieces_have s) j \<or> pieces_downloading s ! j else True))"
proof -
  let ?d = "pieces_downloading s" and ?n = "length (pieces_downloading s)"
  let ?st = "random mod ?n"
  let ?is = "map (\<lambda>j. (?st + j) mod ?n) [0 ..< ?n]"
  have n: "0 < ?n" using assms(1) by simp
  obtain has pd p where sc: "scan hp ?d ?is (pieces_have s, None) = (has, pd, p)" by (metis prod_cases3)
  have "undownloaded_loop hp ?d ?st ((?st + 0) mod ?n) (pieces_have s, None) = Some (has, pd, p)"
    by (subst undownloaded_loop_scan) (use n sc in simp_all)
  then have g: "GetUndownloadedPiece hp random s =
      Some (if p = None then pd else p, s\<lparr>pieces_have := has\<rparr>)"
    using n by (simp add: GetUndownloadedPiece_def Let_def)
  have "\<forall>i \<in> set ?is. i < length (pieces_have s)" unfolding positions_all [OF n] using assms(2) by simp
  note sp = scan_spec [OF sc this, unfolded positions_all [OF n] ball_simps lessThan_iff]
  have "length has = ?n" using sp assms(2) by (simp add: bits_between_def)
  then show ?thesis
    using g sp
    by (intro exI [of _ "if p = None then pd else p"] exI [of _ has]) (auto split: option.splits)
qed

text \<open>The search for a piece ends, wherever it starts. It returns no piece only when every piece is there
  (and then all bits are set); a piece it returns is missing, and one that another thread is downloading is only
  returned when every missing piece is being downloaded.\<close>

theorem GetUndownloadedPiece_returns:
  assumes "pieces_downloading s \<noteq> []" "length (pieces_have s) = length (pieces_downloading s)"
  shows "case GetUndownloadedPiece have_piece random s of
      None \<Rightarrow> False
    | Some (None, s') \<Rightarrow> list_all (\<lambda>b. b) (pieces_have s') \<and>
        list_all (had have_piece (pieces_have s)) [0 ..< length (pieces_have s)]
    | Some (Some i, s') \<Rightarrow> i < length (pieces_have s) \<and> \<not> had have_piece (pieces_have s) i \<and>
        (\<not> pieces_downloading s ! i \<or>
         list_all (\<lambda>j. had have_piece (pieces_have s) j \<or> pieces_downloading s ! j) [0 ..< length (pieces_have s)])"
proof -
  obtain p has where g: "GetUndownloadedPiece have_piece random s = Some (p, s\<lparr>pieces_have := has\<rparr>)"
      "bits_between have_piece (pieces_have s) has"
    and c: "case p of None \<Rightarrow> \<forall>i < length has. has ! i
     | Some i \<Rightarrow> i < length has \<and> \<not> had have_piece (pieces_have s) i \<and>
         (if pieces_downloading s ! i
          then \<forall>j < length has. had have_piece (pieces_have s) j \<or> pieces_downloading s ! j else True)"
    using GetUndownloadedPiece_spec [OF assms] by blast
  have len: "length has = length (pieces_have s)" using g(2) by (simp add: bits_between_def)
  show ?thesis
  proof (cases p)
    case None
    then have "\<forall>i < length has. has ! i" using c by simp
    then show ?thesis using g None len by (auto simp: list_all_length bits_between_def)
  next
    case (Some i)
    then show ?thesis using g(1) c len by (auto simp: list_all_length split: if_splits)
  qed
qed

definition cluster_ex :: cluster_task where
  "cluster_ex = (new_cluster_task 2 False)\<lparr>pieces_have := [True, False, False], pieces_downloading := [False, True, False]\<rparr>"

lemma GetUndownloadedPiece_returns_witness:
  "map_option fst (GetUndownloadedPiece (\<lambda>i. i = 2) 5 cluster_ex) \<noteq> None \<and> pieces_downloading cluster_ex \<noteq> []"
proof -
  have "pieces_downloading cluster_ex \<noteq> []" "length (pieces_have cluster_ex) = length (pieces_downloading cluster_ex)"
    by (simp_all add: cluster_ex_def)
  with GetUndownloadedPiece_returns [OF this, of "\<lambda>i. i = 2" 5] show ?thesis
    by (cases "GetUndownloadedPiece (\<lambda>i. i = 2) 5 cluster_ex") simp_all
qed

subsection \<open>The download threads\<close>

text \<open>
  A thread is between two accesses to the shared state; \<open>Waiting\<close> is the wait on the condition variable,
  \<open>Leaving\<close> the end of the loop. The speed limits at the end of a round only delay it.
\<close>

datatype pc = Starting | Looping | Waiting | Reading | Leaving | Exited

record worker =
  w_pc :: pc
  w_piece :: "nat option"
  w_from_failed :: bool

definition new_worker :: worker where
  "new_worker = \<lparr>w_pc = Starting, w_piece = None, w_from_failed = False\<rparr>"

datatype read_result = ReadFailed | BadHash | GoodPiece

record download_env =
  de_paused :: bool
  de_have_piece :: "nat \<Rightarrow> bool"
  de_random :: nat
  de_read :: read_result
  de_piece_size :: int

text \<open>The inner \<open>while\<close> with its wait.\<close>

definition choose_piece :: "download_env \<Rightarrow> worker \<Rightarrow> cluster_task \<Rightarrow> (worker \<times> cluster_task) option" where
  "choose_piece e w s =
    (case GetPieceToDownload (de_have_piece e) (de_random e) (w_piece w) (w_from_failed w) s of
       None \<Rightarrow> None
     | Some (p, ff, s) \<Rightarrow>
         Some (w\<lparr>w_piece := p, w_from_failed := ff,
                 w_pc := (if should_stop s then Leaving else if p = None then Waiting else Reading)\<rparr>, s))"

text \<open>Reading the piece, checking its hash and adding it to the torrent; the last component is the piece added.\<close>

definition read_piece :: "download_env \<Rightarrow> worker \<Rightarrow> cluster_task \<Rightarrow> worker \<times> cluster_task \<times> nat option" where
  "read_piece e w s =
    (let fail = (\<lambda>code s. if \<not> ignore_error s then (w\<lparr>w_pc := Leaving\<rparr>, s\<lparr>should_stop := True, retval := code\<rparr>, None)
                          else (w\<lparr>w_pc := Looping\<rparr>, s, None))
     in if de_read e = ReadFailed then fail (-1) s
        else
          let s = s\<lparr>cluster_total_download := cluster_total_download s + de_piece_size e\<rparr>
          in if de_read e = BadHash then fail (-2) s
             else (w\<lparr>w_pc := (if should_stop s then Leaving else Looping)\<rparr>, s, w_piece w))"

fun download_step :: "download_env \<Rightarrow> worker \<Rightarrow> cluster_task \<Rightarrow> (worker \<times> cluster_task \<times> nat option) option" where
  "download_step e w s =
    (case w_pc w of
       Starting \<Rightarrow> Some (w\<lparr>w_pc := Looping\<rparr>, s\<lparr>current_start_thread_num := current_start_thread_num s + 1\<rparr>, None)
     | Looping \<Rightarrow>
         if should_stop s then Some (w\<lparr>w_pc := Leaving\<rparr>, s, None)
         else if de_paused e then Some (w, s, None)
         else map_option (\<lambda>(w, s). (w, s, None)) (choose_piece e w s)
     | Waiting \<Rightarrow> map_option (\<lambda>(w, s). (w, s, None)) (choose_piece e w s)
     | Reading \<Rightarrow> Some (read_piece e w s)
     | Leaving \<Rightarrow> Some (w\<lparr>w_pc := Exited\<rparr>, s\<lparr>complete_threads_num := complete_threads_num s + 1\<rparr>, None)
     | Exited \<Rightarrow> None)"

declare download_step.simps [simp del]

type_synonym cluster_state = "cluster_task \<times> worker list"

inductive cluster_step :: "cluster_state \<Rightarrow> cluster_state \<Rightarrow> bool" where
  thread_step: "i < length ws \<Longrightarrow> download_step e (ws ! i) s = Some (w', s', added) \<Longrightarrow>
    cluster_step (s, ws) (s', ws[i := w'])"
| thread_start: "cluster_step (s, ws) (s, ws @ [new_worker])"
| hash_failed: "cluster_step (s, ws) (AddHashFailedPiece i s, ws)"
| stop: "cluster_step (s, ws) (StopDownload s, ws)"

definition cluster_init :: "cluster_state \<Rightarrow> bool" where
  "cluster_init st \<longleftrightarrow> (\<exists>n ign pr. pr \<noteq> [] \<and> st = (snd (StartDownload True True pr (new_cluster_task n ign)), []))"

text \<open>A downloading mark has a thread that carries it, and a thread that serves the retry queue only runs when all
  pieces are there.\<close>

definition claims :: "worker \<Rightarrow> nat \<Rightarrow> bool" where
  "claims w i \<longleftrightarrow> w_piece w = Some i \<and> \<not> w_from_failed w"

definition cluster_inv :: "cluster_state \<Rightarrow> bool" where
  "cluster_inv st = (case st of (s, ws) \<Rightarrow>
     pieces_downloading s \<noteq> [] \<and> length (pieces_have s) = length (pieces_downloading s) \<and>
     (\<forall>i < length (pieces_downloading s). pieces_downloading s ! i \<longrightarrow> (\<exists>w \<in> set ws. claims w i)) \<and>
     (\<forall>w \<in> set ws. (w_from_failed w \<longrightarrow> (\<forall>i < length (pieces_have s). pieces_have s ! i)) \<and>
        (\<forall>i. claims w i \<longrightarrow> i < length (pieces_have s))))"

lemma cluster_inv_init: "cluster_init st \<Longrightarrow> cluster_inv st"
  by (auto simp: cluster_init_def cluster_inv_def StartDownload_def new_cluster_task_def Let_def split: if_splits)

lemma take_hash_failed_bits:
  "take_hash_failed s = (p, s') \<Longrightarrow> pieces_have s' = pieces_have s \<and> pieces_downloading s' = pieces_downloading s"
  by (auto simp: take_hash_failed_def split: list.splits)

lemma update_False: "i < length xs \<Longrightarrow> xs[a := False] ! i \<Longrightarrow> xs ! i \<and> a \<noteq> i"
  by (cases "a = i") auto

text \<open>How one choice changes the bits.\<close>

lemma GetPieceToDownload_bits:
  assumes "pieces_downloading s \<noteq> []" "length (pieces_have s) = length (pieces_downloading s)"
    and "GetPieceToDownload hp random lp ff s = Some (p, ff', s')"
  shows "if ff then ff' \<and> pieces_have s' = pieces_have s \<and> pieces_downloading s' = pieces_downloading s
    else bits_between hp (pieces_have s) (pieces_have s') \<and> length (pieces_downloading s') = length (pieces_downloading s) \<and>
      (\<forall>i < length (pieces_downloading s). pieces_downloading s' ! i \<longrightarrow>
         \<not> ff' \<and> p = Some i \<or> pieces_downloading s ! i \<and> lp \<noteq> Some i) \<and>
      (if ff' then \<forall>i < length (pieces_have s'). pieces_have s' ! i
       else \<exists>i < length (pieces_have s). p = Some i)"
proof (cases ff)
  case True
  then show ?thesis using assms(3) take_hash_failed_bits by (auto simp: GetPieceToDownload_def split: prod.splits)
next
  case False
  let ?s = "case lp of None \<Rightarrow> s | Some l \<Rightarrow> set_downloading l False s"
  have h: "pieces_have ?s = pieces_have s" "length (pieces_downloading ?s) = length (pieces_downloading s)"
    by (simp_all add: set_downloading_def split: option.split)
  have d: "pieces_downloading ?s ! i \<longrightarrow> pieces_downloading s ! i \<and> lp \<noteq> Some i" if "i < length (pieces_downloading s)" for i
  proof (cases lp)
    case (Some a)
    then show ?thesis using update_False [OF that, of a] by (auto simp: set_downloading_def)
  qed simp
  have "pieces_downloading ?s \<noteq> []" "length (pieces_have ?s) = length (pieces_downloading ?s)"
    using assms(1,2) h by (metis length_0_conv, simp)
  from GetUndownloadedPiece_spec [OF this, of hp random] obtain q has
    where g: "GetUndownloadedPiece hp random ?s = Some (q, ?s\<lparr>pieces_have := has\<rparr>)" "bits_between hp (pieces_have s) has"
      and c: "case q of None \<Rightarrow> \<forall>i < length has. has ! i | Some i \<Rightarrow> i < length has"
    unfolding h by (auto split: option.splits)
  have len: "length has = length (pieces_have s)" using g(2) by (simp add: bits_between_def)
  show ?thesis
  proof (cases q)
    case None
    obtain p2 s2 where t: "take_hash_failed (?s\<lparr>pieces_have := has\<rparr>) = (p2, s2)" by force
    then have "p = p2" "ff'" "s' = s2" using assms(3) False g(1) None by (simp_all add: GetPieceToDownload_def Let_def)
    moreover have "\<forall>i < length has. has ! i" using c None by simp
    ultimately show ?thesis using take_hash_failed_bits [OF t] g(2) d h False by simp
  next
    case (Some i)
    then have "p = Some i" "\<not> ff'" "s' = set_downloading i True (?s\<lparr>pieces_have := has\<rparr>)"
      using assms(3) False g(1) by (simp_all add: GetPieceToDownload_def Let_def)
    moreover have "i < length has" using c Some by simp
    ultimately show ?thesis
      using g(2) d h False len by (auto simp: set_downloading_def nth_list_update)
  qed
qed

lemma cluster_inv_choose:
  assumes inv: "cluster_inv (s, ws)" and i: "i < length ws" and c: "choose_piece e (ws ! i) s = Some (w', s')"
  shows "cluster_inv (s', ws[i := w'])"
proof -
  let ?w = "ws ! i" and ?n = "length (pieces_downloading s)"
  obtain p ff where g: "GetPieceToDownload (de_have_piece e) (de_random e) (w_piece ?w) (w_from_failed ?w) s = Some (p, ff, s')"
      and w': "w_piece w' = p" "w_from_failed w' = ff"
    using c by (auto simp: choose_piece_def split: option.splits)
  have ne: "pieces_downloading s \<noteq> []" "length (pieces_have s) = ?n"
    and marks: "\<And>j. j < ?n \<Longrightarrow> pieces_downloading s ! j \<Longrightarrow> \<exists>w \<in> set ws. claims w j"
    and full: "\<And>w j. w \<in> set ws \<Longrightarrow> w_from_failed w \<Longrightarrow> j < ?n \<Longrightarrow> pieces_have s ! j"
    and bound: "\<And>w j. w \<in> set ws \<Longrightarrow> claims w j \<Longrightarrow> j < ?n"
    using inv by (auto simp: cluster_inv_def)
  note b = GetPieceToDownload_bits [OF ne g]
  have wi: "w' \<in> set (ws[i := w'])" using i by (simp add: set_update_memI)
  have other: "w \<in> set (ws[i := w'])" if "w \<in> set ws" "w \<noteq> ?w" for w
    using that i by (metis in_set_conv_nth length_list_update nth_list_update_neq)
  have mem: "w = w' \<or> w \<in> set ws" if "w \<in> set (ws[i := w'])" for w
    using that set_update_subset_insert by fastforce
  have wiin: "?w \<in> set ws" using i by simp
  have have_mono: "j < ?n \<Longrightarrow> pieces_have s ! j \<Longrightarrow> pieces_have s' ! j" for j
    using b ne(2) by (auto simp: bits_between_def split: if_splits)
  have len: "length (pieces_have s') = ?n" "length (pieces_downloading s') = ?n"
    using b ne(2) by (auto simp: bits_between_def split: if_splits)
  have "\<exists>w \<in> set (ws[i := w']). claims w j" if j: "j < ?n" "pieces_downloading s' ! j" for j
  proof (cases "\<not> w_from_failed ?w \<and> \<not> ff \<and> p = Some j")
    case True
    then show ?thesis using wi w' by (auto simp: claims_def)
  next
    case False
    then have "pieces_downloading s ! j" "w_from_failed ?w \<or> w_piece ?w \<noteq> Some j" using b j by (auto split: if_splits)
    then show ?thesis using marks [OF j(1)] other by (metis claims_def)
  qed
  moreover have "pieces_have s' ! j" if "w \<in> set (ws[i := w'])" "w_from_failed w" "j < ?n" for w j
    using mem [OF that(1)] that(2,3) b w' full [OF wiin] full have_mono len by (auto split: if_splits)
  moreover have "j < ?n" if "w \<in> set (ws[i := w'])" "claims w j" for w j
    using mem [OF that(1)] that(2) b w' bound ne(2) by (auto simp: claims_def split: if_splits)
  ultimately show ?thesis using len ne(1) by (auto simp: cluster_inv_def)
qed

text \<open>The other steps leave the bits and what the threads claim.\<close>

lemma cluster_inv_same:
  assumes inv: "cluster_inv (s, ws)" and i: "i < length ws"
    and "pieces_have s' = pieces_have s" "pieces_downloading s' = pieces_downloading s"
    and w': "w_piece w' = w_piece (ws ! i)" "w_from_failed w' = w_from_failed (ws ! i)"
  shows "cluster_inv (s', ws[i := w'])"
proof -
  have cl: "claims w' = claims (ws ! i)" by (simp add: claims_def w' fun_eq_iff)
  have fw: "\<exists>v \<in> set (ws[i := w']). claims v = claims w" if "w \<in> set ws" for w
    using that i cl by (metis in_set_conv_nth length_list_update nth_list_update_eq nth_list_update_neq)
  have bw: "\<exists>v \<in> set ws. claims w = claims v \<and> w_from_failed w = w_from_failed v" if "w \<in> set (ws[i := w'])" for w
    using that i cl w' by (metis in_set_conv_nth length_list_update nth_list_update_eq nth_list_update_neq)
  have "\<exists>w \<in> set (ws[i := w']). claims w j" if "\<exists>w \<in> set ws. claims w j" for j using that fw by metis
  moreover have "(w_from_failed w \<longrightarrow> (\<forall>i < length (pieces_have s). pieces_have s ! i)) \<and>
      (\<forall>i. claims w i \<longrightarrow> i < length (pieces_have s))" if "w \<in> set (ws[i := w'])" for w
    using bw [OF that] inv unfolding cluster_inv_def by auto
  ultimately show ?thesis using inv assms(3,4) unfolding cluster_inv_def by simp
qed

lemma read_piece_bits:
  "read_piece e w s = (w', s', a) \<Longrightarrow> pieces_have s' = pieces_have s \<and> pieces_downloading s' = pieces_downloading s \<and>
    w_piece w' = w_piece w \<and> w_from_failed w' = w_from_failed w"
  by (auto simp: read_piece_def Let_def split: if_splits)

lemma cluster_inv_step:
  assumes "cluster_inv st" "cluster_step st st'"
  shows "cluster_inv st'"
  using assms(2,1)
proof cases
  case (thread_step i ws e s w' s' added)
  show ?thesis
  proof (cases "w_pc (ws ! i)")
    case Reading
    then have "read_piece e (ws ! i) s = (w', s', added)" using thread_step by (simp add: download_step.simps)
    from read_piece_bits [OF this] show ?thesis
      using assms(1) thread_step(1-3) by (auto intro: cluster_inv_same)
  qed (use thread_step assms(1) in \<open>auto simp: download_step.simps split: if_splits
      intro: cluster_inv_choose cluster_inv_same\<close>)
qed (auto simp: cluster_inv_def AddHashFailedPiece_def StopDownload_def new_worker_def claims_def)

interpretation cluster: invariant_system cluster_init cluster_step cluster_inv
  by unfold_locales (auto intro: cluster_inv_init cluster_inv_step)

text \<open>C30: however the download threads interleave, with pieces failing and threads starting and stopping, every
  piece marked as being downloaded is the piece of some thread, so no piece is left marked with nobody fetching it;
  the piece of a thread exists; and a thread has gone over to the retry queue only when every piece is there.\<close>

theorem cluster_threads_reachable:
  assumes "reach cluster_init cluster_step (s, ws)"
  shows "length (pieces_have s) = length (pieces_downloading s) \<and>
    (\<forall>i < length (pieces_downloading s). pieces_downloading s ! i \<longrightarrow>
       (\<exists>w \<in> set ws. w_piece w = Some i \<and> \<not> w_from_failed w)) \<and>
    (\<forall>w \<in> set ws. (w_from_failed w \<longrightarrow> list_all (\<lambda>b. b) (pieces_have s)) \<and>
       (\<not> w_from_failed w \<longrightarrow> (\<forall>i. w_piece w = Some i \<longrightarrow> i < length (pieces_have s))))"
  using cluster.reach_inv [OF assms] by (auto simp: cluster_inv_def claims_def list_all_length)

definition cluster_ex0 :: cluster_task where
  "cluster_ex0 = snd (StartDownload True True [1, 1] (new_cluster_task 2 False))"

definition env_ex :: download_env where
  "env_ex = \<lparr>de_paused = False, de_have_piece = (\<lambda>i. False), de_random = 1, de_read = GoodPiece, de_piece_size = 10\<rparr>"

definition run_ex :: "cluster_state \<Rightarrow> cluster_state" where
  "run_ex st = (case download_step env_ex (snd st ! 0) (fst st) of None \<Rightarrow> st
     | Some (w, s, a) \<Rightarrow> (s, (snd st)[0 := w]))"

lemma run_ex_reach:
  "reach cluster_init cluster_step st \<Longrightarrow> snd st \<noteq> [] \<Longrightarrow> reach cluster_init cluster_step (run_ex st)"
  by (cases st) (auto simp: run_ex_def split: option.split intro: reach_step thread_step)

lemma cluster_threads_reachable_witness:
  "case run_ex (run_ex (cluster_ex0, [new_worker])) of (s, ws) \<Rightarrow>
     pieces_downloading s = [False, True] \<and> length (pieces_have s) = length (pieces_downloading s)"
proof -
  have "cluster_init (cluster_ex0, [])" unfolding cluster_init_def cluster_ex0_def by blast
  then have "reach cluster_init cluster_step (cluster_ex0, [new_worker])"
    using thread_start [of cluster_ex0 "[]"] by (auto intro: reach_init reach_step)
  then have r: "reach cluster_init cluster_step (run_ex (run_ex (cluster_ex0, [new_worker])))"
    by (intro run_ex_reach) (simp_all add: run_ex_def split: option.split)
  obtain s ws where st: "run_ex (run_ex (cluster_ex0, [new_worker])) = (s, ws)" by force
  have "pieces_downloading (fst (run_ex (run_ex (cluster_ex0, [new_worker])))) = [False, True]" by code_simp
  then show ?thesis using cluster_threads_reachable [OF r [unfolded st]] st by simp
qed

subsection \<open>Starting the threads\<close>

record starter =
  current_cluster_thread_num :: int
  cluster_queue_tasks :: "nat list"
  cluster_tasks :: "nat \<Rightarrow> cluster_task"

definition PushClusterThreadQueue :: "nat \<Rightarrow> starter \<Rightarrow> starter" where
  "PushClusterThreadQueue t s = s\<lparr>cluster_queue_tasks := cluster_queue_tasks s @ [t]\<rparr>"

definition DeleteClusterThreadNum :: "starter \<Rightarrow> starter" where
  "DeleteClusterThreadNum s =
    (if current_cluster_thread_num s > 0
     then s\<lparr>current_cluster_thread_num := current_cluster_thread_num s - 1\<rparr> else s)"

text \<open>The \<open>for\<close> loop: threads created, the new count, and whether the task goes back into the queue (and the next
  round sleeps); \<open>sl\<close> is the flag before.\<close>

function start_threads :: "int \<Rightarrow> int \<Rightarrow> int \<Rightarrow> int \<Rightarrow> bool \<Rightarrow> nat \<times> int \<times> bool \<times> bool" where
  "start_threads mx i n cur sl =
    (if i < n then
       let cur = cur + 1
       in if cur > mx then (1, cur, True, True)
          else case start_threads mx (i + 1) n cur False of (k, cur, q, sl) \<Rightarrow> (Suc k, cur, q, sl)
     else (0, cur, False, sl))"
  by pat_completeness auto
termination by (relation "measure (\<lambda>(mx, i, n, cur, sl). nat (n - i))") auto

declare start_threads.simps [simp del]

text \<open>One turn of \<open>ClusterDownload\<close>: the flag \<open>is_normal_sleep\<close>, the threads created and for which task.\<close>

definition ClusterDownload :: "int \<Rightarrow> bool \<Rightarrow> starter \<Rightarrow> starter \<times> bool \<times> (nat \<times> nat) option" where
  "ClusterDownload mx sl s =
    (if current_cluster_thread_num s < mx then
       (case cluster_queue_tasks s of
          [] \<Rightarrow> (s, True, None)
        | t # q \<Rightarrow>
            let s = s\<lparr>cluster_queue_tasks := q\<rparr>; task = cluster_tasks s t
            in if CheckIfThreadnumOut task \<or> is_stoped task then (s, True, None)
               else
                 (case start_threads mx (current_start_thread_num task) (threads_num task)
                         (current_cluster_thread_num s) sl of
                    (k, cur, requeue, sl) \<Rightarrow>
                      let s = s\<lparr>current_cluster_thread_num := cur\<rparr>
                      in (if requeue then PushClusterThreadQueue t s else s, sl, Some (t, k))))
     else (s, True, None))"

lemma start_threads_bounds:
  "start_threads mx i n cur sl = (k, cur', q, sl') \<Longrightarrow> cur \<le> mx \<Longrightarrow>
   cur' = cur + int k \<and> cur' \<le> mx + 1 \<and> (q \<longrightarrow> cur' = mx + 1) \<and> (\<not> q \<longrightarrow> int k = max 0 (n - i))"
proof (induction mx i n cur sl arbitrary: k cur' q sl' rule: start_threads.induct)
  case (1 mx i n cur sl)
  show ?case
  proof (cases "i < n \<and> cur + 1 \<le> mx")
    case True
    obtain k2 c2 q2 s2 where r: "start_threads mx (i + 1) n (cur + 1) False = (k2, c2, q2, s2)" by (metis prod_cases4)
    then have "k = Suc k2" "cur' = c2" "q = q2"
      using "1.prems"(1) True by (simp_all add: start_threads.simps [of mx i])
    then show ?thesis using "1.IH" [OF _ refl _ r] True by auto
  next
    case False
    then show ?thesis using "1.prems" by (auto simp: start_threads.simps [of mx i] Let_def split: if_splits)
  qed
qed

inductive starter_step :: "int \<Rightarrow> starter \<Rightarrow> starter \<Rightarrow> bool" for mx where
  starter_round: "ClusterDownload mx sl s = (s', sl', created) \<Longrightarrow> starter_step mx s s'"
| starter_push: "starter_step mx s (PushClusterThreadQueue t s)"
| starter_exit: "starter_step mx s (DeleteClusterThreadNum s)"
| starter_task: "starter_step mx s (s\<lparr>cluster_tasks := f\<rparr>)"

definition starter_init :: "starter \<Rightarrow> bool" where
  "starter_init s \<longleftrightarrow> current_cluster_thread_num s = 0 \<and> cluster_queue_tasks s = []"

definition starter_inv :: "int \<Rightarrow> starter \<Rightarrow> bool" where
  "starter_inv mx s \<longleftrightarrow> 0 \<le> current_cluster_thread_num s \<and> current_cluster_thread_num s \<le> max 0 (mx + 1)"

lemma starter_inv_step: "starter_step mx s s' \<Longrightarrow> starter_inv mx s \<Longrightarrow> starter_inv mx s'"
proof (induction rule: starter_step.induct)
  case (starter_round sl s s' sl' created)
  then show ?case
    using start_threads_bounds [of mx _ _ "current_cluster_thread_num s"]
    by (fastforce simp: ClusterDownload_def starter_inv_def PushClusterThreadQueue_def Let_def
        split: if_splits list.splits prod.splits)
qed (auto simp: starter_inv_def PushClusterThreadQueue_def DeleteClusterThreadNum_def)

interpretation starter: invariant_system starter_init "starter_step mx" "starter_inv mx" for mx
  by unfold_locales (simp add: starter_init_def starter_inv_def, rule starter_inv_step)

text \<open>The number of cluster threads stays between zero and one more than the configured maximum.\<close>

theorem cluster_threads_bounded:
  assumes "reach starter_init (starter_step mx) s" "0 \<le> mx"
  shows "0 \<le> current_cluster_thread_num s \<and> current_cluster_thread_num s \<le> mx + 1"
  using starter.reach_inv [OF assms(1)] assms(2) by (simp add: starter_inv_def)

text \<open>The maximum itself is exceeded: the count is compared after a thread was created.\<close>

definition starter_ex :: starter where
  "starter_ex = \<lparr>current_cluster_thread_num = 0, cluster_queue_tasks = [7], cluster_tasks = (\<lambda>t. new_cluster_task 5 False)\<rparr>"

lemma cluster_threads_exceed:
  "current_cluster_thread_num (fst (ClusterDownload 2 False starter_ex)) = 3"
  by code_simp

lemma cluster_threads_bounded_witness:
  "current_cluster_thread_num (fst (ClusterDownload 2 False starter_ex)) \<le> 2 + 1"
proof -
  let ?s0 = "starter_ex\<lparr>cluster_queue_tasks := []\<rparr>"
  have "starter_init ?s0" by (simp add: starter_init_def starter_ex_def)
  moreover have "starter_step 2 ?s0 starter_ex"
    using starter_push [of 2 ?s0 7] by (simp add: PushClusterThreadQueue_def starter_ex_def)
  moreover have "starter_step 2 starter_ex (fst (ClusterDownload 2 False starter_ex))"
    by (rule starter_round [of _ False _ _ "fst (snd (ClusterDownload 2 False starter_ex))"
          "snd (snd (ClusterDownload 2 False starter_ex))"]) simp
  ultimately have "reach starter_init (starter_step 2) (fst (ClusterDownload 2 False starter_ex))"
    by (meson reach_init reach_step)
  then show ?thesis using cluster_threads_bounded by fastforce
qed

end
