(* ===== verification/GroupParam.thy ===== *)
theory GroupParam
  imports Prelude
begin

text \<open>
  The parameters of a group's download task and the small helpers around them
  (\<open>gko-src/group/GroupService.thrift\<close>, \<open>define.h\<close>, \<open>utils.h\<close>, \<open>utils.cpp\<close>). Boost's regular
  expressions and the C library's clock formatting are arguments.
\<close>

subsection \<open>Parameters\<close>

record ClusterParam =
  cl_host :: string
  cl_port :: int
  cl_user :: string
  cl_passwd :: string
  cl_prefix_path :: string

record TrackersPair =
  tp_name :: string
  tp_id :: int

record UserCred =
  uc_pid :: int
  uc_gid :: int
  uc_uid :: int

record DownloadParam =
  dp_download_limit :: int
  dp_upload_limit :: int
  dp_connections_limit :: int
  dp_seeding_time :: int
  dp_timeout :: int
  dp_hang_timeout :: int
  dp_mem_limit :: int
  dp_debug :: bool
  dp_print_progress :: bool
  dp_patition_download :: bool
  dp_need_save_resume :: bool
  dp_need_down_to_tmp_first :: bool
  dp_quit_by_tracker_failed :: bool
  dp_storage_pre_allocate :: bool
  dp_dynamic_allocate :: int
  dp_use_dio_read :: bool
  dp_use_dio_write :: bool
  dp_ignore_hdfs_error :: bool
  dp_torrent_path :: string
  dp_infohash :: string
  dp_torrent_url :: string
  dp_new_name :: string
  dp_save_path :: string
  dp_cluster_config :: ClusterParam
  dp_web_seeds :: "string list"
  dp_listen_port_range :: "int \<times> int"
  dp_include_regex :: "string list"
  dp_exclude_regex :: "string list"
  dp_control_path :: string
  dp_save_torrent_path :: string
  dp_cmd :: string
  dp_filter :: string
  dp_trackers :: "TrackersPair list"
  dp_cluster_thread_num :: int

text \<open>The defaults of the interface definition.\<close>

definition DownloadParam_new :: DownloadParam where
  "DownloadParam_new = \<lparr>dp_download_limit = 10485760, dp_upload_limit = 10485760, dp_connections_limit = 8000,
     dp_seeding_time = -2, dp_timeout = 0, dp_hang_timeout = 0, dp_mem_limit = 0, dp_debug = False,
     dp_print_progress = False, dp_patition_download = False, dp_need_save_resume = False,
     dp_need_down_to_tmp_first = False, dp_quit_by_tracker_failed = False, dp_storage_pre_allocate = False,
     dp_dynamic_allocate = -1, dp_use_dio_read = False, dp_use_dio_write = False, dp_ignore_hdfs_error = False,
     dp_torrent_path = [], dp_infohash = [], dp_torrent_url = [], dp_new_name = [], dp_save_path = [],
     dp_cluster_config = \<lparr>cl_host = [], cl_port = 0, cl_user = [], cl_passwd = [], cl_prefix_path = []\<rparr>,
     dp_web_seeds = [], dp_listen_port_range = (18000, 65534), dp_include_regex = [], dp_exclude_regex = [],
     dp_control_path = [], dp_save_torrent_path = [], dp_cmd = [], dp_filter = [], dp_trackers = [],
     dp_cluster_thread_num = 3\<rparr>"

text \<open>The command line's structure (\<open>Downloader.h\<close>); its compiled expressions and IP filter are not read here.\<close>

record cluster_config_entry =
  ce_host :: string
  ce_port :: int
  ce_user :: string
  ce_passwd :: string
  ce_prefix_path :: string

record down_params_t =
  c_seeding_time :: int
  c_timeout :: int
  c_hang_timeout :: int
  c_mem_limit :: int
  c_debug :: bool
  c_print_progress :: bool
  c_patition_download :: bool
  c_need_save_resume :: bool
  c_need_down_to_tmp_first :: bool
  c_quit_by_tracker_failed :: bool
  c_storage_pre_allocate :: bool
  c_dynamic_allocate :: int
  c_use_dio_read :: bool
  c_use_dio_write :: bool
  c_ignore_hdfs_error :: bool
  c_torrent_path :: string
  c_infohash :: string
  c_torrent_url :: string
  c_new_name :: string
  c_save_path :: string
  c_cluster_config :: cluster_config_entry
  c_web_seeds :: "string list"
  c_listen_port_range :: "int \<times> int"
  c_control_path :: string
  c_save_torrent_path :: string
  c_cmd :: string
  c_trackers :: "(string \<times> int) list"

definition TurnClusterConfigEntryToClusterParam :: "cluster_config_entry \<Rightarrow> ClusterParam" where
  "TurnClusterConfigEntryToClusterParam c = \<lparr>cl_host = ce_host c, cl_port = ce_port c, cl_user = ce_user c,
     cl_passwd = ce_passwd c, cl_prefix_path = ce_prefix_path c\<rparr>"

definition TurnClusterParamToClusterConfigEntry :: "ClusterParam \<Rightarrow> cluster_config_entry" where
  "TurnClusterParamToClusterConfigEntry c = \<lparr>ce_host = cl_host c, ce_port = cl_port c, ce_user = cl_user c,
     ce_passwd = cl_passwd c, ce_prefix_path = cl_prefix_path c\<rparr>"

definition TurnTrackersListToStdList :: "TrackersPair list \<Rightarrow> (string \<times> int) list \<Rightarrow> (string \<times> int) list" where
  "TurnTrackersListToStdList ts std = std @ map (\<lambda>t. (tp_name t, tp_id t)) ts"

text \<open>The filter, the two lists of expressions and the three limits keep the values the caller set.\<close>

definition TurnDownParamToGroup :: "down_params_t \<Rightarrow> DownloadParam \<Rightarrow> DownloadParam" where
  "TurnDownParamToGroup p g =
    g\<lparr>dp_seeding_time := c_seeding_time p, dp_timeout := c_timeout p, dp_hang_timeout := c_hang_timeout p,
      dp_mem_limit := c_mem_limit p, dp_debug := c_debug p, dp_print_progress := c_print_progress p,
      dp_patition_download := c_patition_download p, dp_need_save_resume := c_need_save_resume p,
      dp_need_down_to_tmp_first := c_need_down_to_tmp_first p,
      dp_quit_by_tracker_failed := c_quit_by_tracker_failed p,
      dp_storage_pre_allocate := c_storage_pre_allocate p, dp_dynamic_allocate := c_dynamic_allocate p,
      dp_use_dio_read := c_use_dio_read p, dp_use_dio_write := c_use_dio_write p,
      dp_ignore_hdfs_error := c_ignore_hdfs_error p, dp_torrent_path := c_torrent_path p,
      dp_infohash := c_infohash p, dp_torrent_url := c_torrent_url p, dp_new_name := c_new_name p,
      dp_save_path := c_save_path p,
      dp_cluster_config := TurnClusterConfigEntryToClusterParam (c_cluster_config p),
      dp_web_seeds := c_web_seeds p, dp_listen_port_range := c_listen_port_range p,
      dp_control_path := c_control_path p, dp_save_torrent_path := c_save_torrent_path p, dp_cmd := c_cmd p,
      dp_trackers := dp_trackers g @ map (\<lambda>(h, i). \<lparr>tp_name = h, tp_id = i\<rparr>) (c_trackers p)\<rparr>"

lemma cluster_config_roundtrip:
  "TurnClusterParamToClusterConfigEntry (TurnClusterConfigEntryToClusterParam c) = c"
  by (simp add: TurnClusterParamToClusterConfigEntry_def TurnClusterConfigEntryToClusterParam_def)

lemma trackers_roundtrip:
  "TurnTrackersListToStdList (dp_trackers (TurnDownParamToGroup p g)) [] =
   TurnTrackersListToStdList (dp_trackers g) [] @ c_trackers p"
  by (simp add: TurnTrackersListToStdList_def TurnDownParamToGroup_def comp_def case_prod_unfold)

subsection \<open>Texts\<close>

definition GeneralParamString :: "DownloadParam \<Rightarrow> string" where
  "GeneralParamString p =
    (if dp_torrent_path p \<noteq> [] then dp_torrent_path p
     else if dp_infohash p \<noteq> [] then dp_infohash p
     else if dp_torrent_url p \<noteq> [] then dp_torrent_url p
     else ''invalid params'')"

datatype ClientRpcStatus = ClientRpcSuccess | ClientRpcErrorParams | ClientRpcCredFailed | ClientRpcAddTaskExist
  | ClientRpcAddTaskCreateFailed | ClientRpcTaskNotExist | ClientRpcSetOptFailed

fun rpc_code :: "ClientRpcStatus \<Rightarrow> int" where
  "rpc_code ClientRpcSuccess = 0" | "rpc_code ClientRpcErrorParams = -1" | "rpc_code ClientRpcCredFailed = -2"
| "rpc_code ClientRpcAddTaskExist = -3" | "rpc_code ClientRpcAddTaskCreateFailed = -4"
| "rpc_code ClientRpcTaskNotExist = -5" | "rpc_code ClientRpcSetOptFailed = -6"

fun rpc_text :: "ClientRpcStatus \<Rightarrow> string" where
  "rpc_text ClientRpcSuccess = ''success''"
| "rpc_text ClientRpcErrorParams = ''error params''"
| "rpc_text ClientRpcCredFailed = ''cred check failed''"
| "rpc_text ClientRpcAddTaskExist = ''task alread in group''"
| "rpc_text ClientRpcAddTaskCreateFailed = ''create task failed''"
| "rpc_text ClientRpcTaskNotExist = ''task not found''"
| "rpc_text ClientRpcSetOptFailed = ''task set options failed''"

definition ClientRpcRetCodeToString :: "ClientRpcStatus \<Rightarrow> string \<Rightarrow> string \<Rightarrow> string" where
  "ClientRpcRetCodeToString ret_code identify type = type @ '' task['' @ identify @ '']: '' @ rpc_text ret_code"

text \<open>\<open>hms\<close> is \<open>strftime\<close> with \<open>%H:%M:%S\<close> on the local time.\<close>

definition GetTimeStringByTimestamp :: "(int \<Rightarrow> string) \<Rightarrow> int \<Rightarrow> string" where
  "GetTimeStringByTimestamp hms timestamp = (if timestamp \<le> 0 then ''00:00:00'' else hms timestamp)"

subsection \<open>Choosing files\<close>

text \<open>\<open>matches r path\<close>: the expression \<open>r\<close> matches. A file with priority 1 is downloaded.\<close>

definition file_needed :: "(string \<Rightarrow> string \<Rightarrow> bool) \<Rightarrow> string list \<Rightarrow> string list \<Rightarrow> string \<Rightarrow> bool" where
  "file_needed matches inc exc path =
    (let need = (inc = [] \<or> list_ex (\<lambda>r. matches r path) inc)
     in if list_ex (\<lambda>r. matches r path) exc then False else need)"

fun priority_loop ::
  "(string \<Rightarrow> string \<Rightarrow> bool) \<Rightarrow> string list \<Rightarrow> string list \<Rightarrow> string list \<Rightarrow> nat \<Rightarrow> int list \<Rightarrow> int list" where
  "priority_loop matches inc exc [] i ps = ps"
| "priority_loop matches inc exc (path # paths) i ps =
    (let ps = (if inc = [] \<or> list_ex (\<lambda>r. matches r path) inc then ps[i := 1] else ps);
         ps = (if list_ex (\<lambda>r. matches r path) exc then ps[i := 0] else ps)
     in priority_loop matches inc exc paths (Suc i) ps)"

definition resize :: "nat \<Rightarrow> 'a \<Rightarrow> 'a list \<Rightarrow> 'a list" where
  "resize n x xs = take n xs @ replicate (n - length xs) x"

definition ParseNeedDownloadFiles ::
  "(string \<Rightarrow> string \<Rightarrow> bool) \<Rightarrow> string list \<Rightarrow> string list \<Rightarrow> string list \<Rightarrow> int list \<Rightarrow> int list" where
  "ParseNeedDownloadFiles matches inc exc files file_priorities =
    priority_loop matches inc exc files 0 (resize (length files) 0 file_priorities)"

lemma priority_loop_spec:
  "length ps = i + length files \<Longrightarrow> set (drop i ps) \<subseteq> {0} \<Longrightarrow>
   priority_loop m inc exc files i ps = take i ps @ map (\<lambda>f. if file_needed m inc exc f then 1 else 0) files"
proof (induction files arbitrary: i ps)
  case Nil
  then show ?case by simp
next
  case (Cons f fs)
  have i: "i < length ps" using Cons.prems(1) by simp
  have z: "ps ! i = 0" using Cons.prems(2) i by (metis Cons_nth_drop_Suc insert_subset list.set(2) singletonD)
  have zi: "ps[i := 0] = ps" using z by (metis list_update_id)
  let ?v = "if file_needed m inc exc f then 1 else 0 :: int"
  have upd: "priority_loop m inc exc (f # fs) i ps = priority_loop m inc exc fs (Suc i) (ps[i := ?v])"
    using zi by (auto simp: file_needed_def Let_def)
  have "set (drop (Suc i) (ps[i := ?v])) \<subseteq> {0}"
    using Cons.prems(2) by (metis Cons_nth_drop_Suc drop_update_cancel i insert_subset lessI list.set(2))
  then have "priority_loop m inc exc fs (Suc i) (ps[i := ?v]) =
      take (Suc i) (ps[i := ?v]) @ map (\<lambda>f. if file_needed m inc exc f then 1 else 0) fs"
    using Cons.prems(1) by (intro Cons.IH) simp_all
  then show ?case using upd i by (simp add: take_Suc_conv_app_nth)
qed

lemma ParseNeedDownloadFiles_fresh:
  "ParseNeedDownloadFiles m inc exc files [] = map (\<lambda>f. if file_needed m inc exc f then 1 else 0) files"
  unfolding ParseNeedDownloadFiles_def
  by (subst priority_loop_spec) (auto simp: resize_def)

end
