(* ===== verification/GroupConf.thy ===== *)
theory GroupConf
  imports PathUtil
begin

text \<open>
  The configuration of a download group (\<open>gko-src/group/conf_range.h\<close>, \<open>utils.cpp\<close>,
  \<open>GroupConf.proto\<close>) and the session settings made from it (\<open>group_manager.cpp\<close>). Each limit
  the file sets is a number, clamped into its range and then scaled to its unit.
\<close>

subsection \<open>Limits and their ranges\<close>

datatype limit = DownloadRateLimit | UploadRateLimit | ConnectionLimit | MaxMetadataSize | PeersNumWant
  | SeedAnnounceInterval | MinReconnectTime | MaxQueuedDiskBytes | MaxOutRequestQueue
  | MaxAllowedInRequestQueue | WholePiecesThreshold | RequestQueueTime | CacheSize | CacheExpiry
  | ReadCacheLineSize | WriteCacheLineSize | FilePoolSize | SendBufferWatermark | SendBufferLowWatermark
  | SendSocketBufferSize | RecvSocketBufferSize | ActiveSeeds | ActiveLimit | ActiveDownloads | ListenPort
  | PeerConnectionTimeout

text \<open>\<open>kMin...\<close> and \<open>kMax...\<close>.\<close>

fun limit_range :: "limit \<Rightarrow> int \<times> int" where
  "limit_range UploadRateLimit = (0, 2000)"
| "limit_range DownloadRateLimit = (0, 2000)"
| "limit_range ConnectionLimit = (1, 32768)"
| "limit_range PeersNumWant = (10, 100)"
| "limit_range ListenPort = (10000, 65534)"
| "limit_range ActiveSeeds = (1, 32768)"
| "limit_range ActiveDownloads = (1, 32768)"
| "limit_range ActiveLimit = (1, 32768)"
| "limit_range MinReconnectTime = (0, 100)"
| "limit_range CacheSize = (1, 1024)"
| "limit_range CacheExpiry = (1, 32768)"
| "limit_range MaxMetadataSize = (1, 50)"
| "limit_range SeedAnnounceInterval = (10, 32768)"
| "limit_range PeerConnectionTimeout = (1, 128)"
| "limit_range ReadCacheLineSize = (0, 1024)"
| "limit_range WriteCacheLineSize = (0, 1024)"
| "limit_range MaxQueuedDiskBytes = (0, 1024)"
| "limit_range FilePoolSize = (1, 1024)"
| "limit_range MaxOutRequestQueue = (1, 32768)"
| "limit_range MaxAllowedInRequestQueue = (1, 32768)"
| "limit_range WholePiecesThreshold = (1, 128)"
| "limit_range RequestQueueTime = (1, 128)"
| "limit_range SendBufferLowWatermark = (0, 10240)"
| "limit_range SendBufferWatermark = (0, 1024)"
| "limit_range SendSocketBufferSize = (0, 32768)"
| "limit_range RecvSocketBufferSize = (0, 32768)"

definition SetLimitIntValue :: "int \<Rightarrow> int \<Rightarrow> int \<Rightarrow> int" where
  "SetLimitIntValue mn mx v = (if v > mx then mx else if v < mn then mn else v)"

record GroupConfig =
  limit_of :: "limit \<Rightarrow> int"
  group_timeout :: int
  finished_timeout :: int
  max_cluster_thread_num :: int
  is_allow_all_add :: bool
  suggest_mode :: bool
  disable_os_cache :: bool
  absolute_path :: string
  group_data_path :: string
  resume_dir_name :: string

definition set_limit :: "limit \<Rightarrow> int \<Rightarrow> GroupConfig \<Rightarrow> GroupConfig" where
  "set_limit f v c = c\<lparr>limit_of := (limit_of c)(f := v)\<rparr>"

text \<open>The calls of \<open>LoadGroupConfig\<close>, in order: the range checks, then the units.\<close>

definition range_checks :: "limit list" where
  "range_checks = [DownloadRateLimit, UploadRateLimit, ConnectionLimit, MaxMetadataSize, PeersNumWant,
     SeedAnnounceInterval, MinReconnectTime, MaxQueuedDiskBytes, MaxOutRequestQueue, MaxAllowedInRequestQueue,
     WholePiecesThreshold, RequestQueueTime, CacheSize, CacheExpiry, ReadCacheLineSize, WriteCacheLineSize,
     FilePoolSize, SendBufferWatermark, SendBufferLowWatermark, SendSocketBufferSize, RecvSocketBufferSize,
     ActiveSeeds, ActiveLimit, ActiveDownloads, ListenPort, PeerConnectionTimeout]"

definition unit_changes :: "(limit \<times> int list) list" where
  "unit_changes = [(DownloadRateLimit, [1024, 1024]), (UploadRateLimit, [1024, 1024]),
     (MaxMetadataSize, [1024, 1024]), (MaxQueuedDiskBytes, [1024, 1024]), (CacheSize, [1024, 1024]),
     (SendBufferWatermark, [1024, 1024]), (SendBufferLowWatermark, [1024]), (SendSocketBufferSize, [1024]),
     (RecvSocketBufferSize, [1024])]"

text \<open>A product of C \<open>int\<close>s; \<open>None\<close> is an overflow, which the language leaves undefined.\<close>

definition fits_int :: "int \<Rightarrow> bool" where
  "fits_int v \<longleftrightarrow> - (2 ^ 31) \<le> v \<and> v < 2 ^ 31"

fun times_int :: "int \<Rightarrow> int list \<Rightarrow> int option" where
  "times_int v [] = Some v"
| "times_int v (k # ks) = (if fits_int (v * k) then times_int (v * k) ks else None)"

definition check_range :: "limit \<Rightarrow> GroupConfig \<Rightarrow> GroupConfig" where
  "check_range f c = set_limit f (case limit_range f of (mn, mx) \<Rightarrow> SetLimitIntValue mn mx (limit_of c f)) c"

fun change_units :: "(limit \<times> int list) list \<Rightarrow> GroupConfig \<Rightarrow> GroupConfig option" where
  "change_units [] c = Some c"
| "change_units ((f, ks) # fs) c =
    (case times_int (limit_of c f) ks of None \<Rightarrow> None | Some v \<Rightarrow> change_units fs (set_limit f v c))"

text \<open>
  \<open>parsed\<close> is what the file gives, \<open>None\<close> when it cannot be opened or parsed; the result is
  \<open>None\<close> on an overflow, else the return code and the configuration.
\<close>

definition LoadGroupConfig ::
  "string \<Rightarrow> string \<Rightarrow> GroupConfig option \<Rightarrow> GroupConfig \<Rightarrow> (int \<times> GroupConfig) option" where
  "LoadGroupConfig cwd conf_path parsed group_config =
    (if conf_path = [] then Some (-1, group_config)
     else case parsed of
            None \<Rightarrow> Some (-1, group_config)
          | Some c \<Rightarrow>
              let c = c\<lparr>absolute_path := complete_full_path cwd (parent_path conf_path)\<rparr>
              in map_option (\<lambda>c. (0, c)) (change_units unit_changes (foldl (\<lambda>c f. check_range f c) c range_checks)))"

subsection \<open>A loaded configuration\<close>

definition limit_unit :: "limit \<Rightarrow> int" where
  "limit_unit f = (case map_of unit_changes f of None \<Rightarrow> 1 | Some ks \<Rightarrow> prod_list ks)"

definition limit_ok :: "limit \<Rightarrow> int \<Rightarrow> bool" where
  "limit_ok f v \<longleftrightarrow> (\<exists>w. fst (limit_range f) \<le> w \<and> w \<le> snd (limit_range f) \<and> v = w * limit_unit f)"

lemma SetLimitIntValue_range: "mn \<le> mx \<Longrightarrow> mn \<le> SetLimitIntValue mn mx v \<and> SetLimitIntValue mn mx v \<le> mx"
  by (simp add: SetLimitIntValue_def)

lemma SetLimitIntValue_id: "mn \<le> v \<Longrightarrow> v \<le> mx \<Longrightarrow> SetLimitIntValue mn mx v = v"
  by (simp add: SetLimitIntValue_def)

lemma limit_range_order: "fst (limit_range f) \<le> snd (limit_range f)"
  by (cases f) simp_all

lemma limit_of_check_range: "limit_of (check_range g c) =
  (limit_of c)(g := case limit_range g of (mn, mx) \<Rightarrow> SetLimitIntValue mn mx (limit_of c g))"
  by (simp add: check_range_def set_limit_def)

lemma check_ranges_rest: "\<exists>l. foldl (\<lambda>c f. check_range f c) c fs = c\<lparr>limit_of := l\<rparr>"
proof (induction fs arbitrary: c)
  case Nil
  have "c = c\<lparr>limit_of := limit_of c\<rparr>" by simp
  then show ?case by (metis foldl_Nil)
next
  case (Cons f fs)
  obtain l where "foldl (\<lambda>c f. check_range f c) (check_range f c) fs = (check_range f c)\<lparr>limit_of := l\<rparr>"
    using Cons.IH by blast
  then show ?case by (auto simp: check_range_def set_limit_def)
qed

lemma check_range_other: "limit_of (foldl (\<lambda>c f. check_range f c) c fs) f =
  (if f \<in> set fs then case limit_range f of (mn, mx) \<Rightarrow> SetLimitIntValue mn mx (limit_of c f) else limit_of c f)"
proof (induction fs arbitrary: c)
  case (Cons g fs)
  obtain mn mx where r: "limit_range f = (mn, mx)" "mn \<le> mx" using limit_range_order [of f] by force
  have "SetLimitIntValue mn mx (SetLimitIntValue mn mx v) = SetLimitIntValue mn mx v" for v
    using SetLimitIntValue_range [OF r(2)] by (simp add: SetLimitIntValue_id)
  then show ?case unfolding foldl_Cons Cons.IH limit_of_check_range using r by auto
qed simp

lemma range_checks_all: "f \<in> set range_checks"
  by (cases f) (simp_all add: range_checks_def)

lemma unit_of_list: "distinct (map fst unit_changes)" "(f, ks) \<in> set unit_changes \<Longrightarrow> limit_unit f = prod_list ks"
  by (auto simp: unit_changes_def limit_unit_def)

text \<open>The products of the code: no value in the range of its limit overflows.\<close>

lemma times_int_ok:
  assumes "(f, ks) \<in> set unit_changes" "fst (limit_range f) \<le> v" "v \<le> snd (limit_range f)"
  shows "times_int v ks = Some (v * prod_list ks)"
  using assms by (auto simp: unit_changes_def fits_int_def)

lemma change_units_ok:
  assumes "set fs \<subseteq> set unit_changes" "distinct (map fst fs)"
    and "\<And>f. f \<in> fst ` set fs \<Longrightarrow> fst (limit_range f) \<le> limit_of c f \<and> limit_of c f \<le> snd (limit_range f)"
  shows "\<exists>c'. change_units fs c = Some c' \<and>
    limit_of c' = (\<lambda>f. case map_of fs f of None \<Rightarrow> limit_of c f | Some ks \<Rightarrow> limit_of c f * prod_list ks) \<and>
    c' = c\<lparr>limit_of := limit_of c'\<rparr>"
  using assms
proof (induction fs arbitrary: c)
  case Nil
  then show ?case by simp
next
  case (Cons p fs)
  obtain f ks where p: "p = (f, ks)" by force
  have t: "times_int (limit_of c f) ks = Some (limit_of c f * prod_list ks)"
    using Cons.prems p by (intro times_int_ok) auto
  let ?c = "set_limit f (limit_of c f * prod_list ks) c"
  have "\<exists>c'. change_units fs ?c = Some c' \<and>
      limit_of c' = (\<lambda>g. case map_of fs g of None \<Rightarrow> limit_of ?c g | Some ks \<Rightarrow> limit_of ?c g * prod_list ks) \<and>
      c' = ?c\<lparr>limit_of := limit_of c'\<rparr>"
    using Cons.prems p by (intro Cons.IH) (auto simp: set_limit_def)
  then obtain c' where c': "change_units fs ?c = Some c'"
      "limit_of c' = (\<lambda>g. case map_of fs g of None \<Rightarrow> limit_of ?c g | Some ks \<Rightarrow> limit_of ?c g * prod_list ks)"
      "c' = ?c\<lparr>limit_of := limit_of c'\<rparr>" by blast
  have "map_of fs f = None" using Cons.prems(2) p by (auto simp: map_of_eq_None_iff)
  then have "limit_of c' = (\<lambda>g. case map_of (p # fs) g of None \<Rightarrow> limit_of c g | Some ks \<Rightarrow> limit_of c g * prod_list ks)"
    unfolding c'(2) by (auto simp: p set_limit_def fun_eq_iff split: option.split)
  moreover have "c' = c\<lparr>limit_of := limit_of c'\<rparr>" using c'(3) by (simp add: set_limit_def)
  ultimately show ?case using t p c'(1) by simp
qed

lemma LoadGroupConfig_loaded:
  assumes "conf_path \<noteq> []"
  shows "\<exists>c'. LoadGroupConfig cwd conf_path (Some c) g = Some (0, c') \<and>
    (\<forall>f. limit_of c' f = SetLimitIntValue (fst (limit_range f)) (snd (limit_range f)) (limit_of c f) * limit_unit f) \<and>
    c' = c\<lparr>absolute_path := complete_full_path cwd (parent_path conf_path), limit_of := limit_of c'\<rparr>"
proof -
  let ?c0 = "c\<lparr>absolute_path := complete_full_path cwd (parent_path conf_path)\<rparr>"
  let ?c1 = "foldl (\<lambda>c f. check_range f c) ?c0 range_checks"
  obtain l where l: "?c1 = ?c0\<lparr>limit_of := l\<rparr>" using check_ranges_rest by blast
  have l1: "limit_of ?c1 f = SetLimitIntValue (fst (limit_range f)) (snd (limit_range f)) (limit_of c f)" for f
    by (simp add: check_range_other range_checks_all case_prod_unfold)
  have "\<exists>c'. change_units unit_changes ?c1 = Some c' \<and>
      limit_of c' = (\<lambda>f. case map_of unit_changes f of None \<Rightarrow> limit_of ?c1 f | Some ks \<Rightarrow> limit_of ?c1 f * prod_list ks) \<and>
      c' = ?c1\<lparr>limit_of := limit_of c'\<rparr>"
    by (intro change_units_ok) (simp_all add: unit_of_list l1 SetLimitIntValue_range limit_range_order)
  then obtain c' where c': "change_units unit_changes ?c1 = Some c'"
      "limit_of c' = (\<lambda>f. case map_of unit_changes f of None \<Rightarrow> limit_of ?c1 f | Some ks \<Rightarrow> limit_of ?c1 f * prod_list ks)"
      "c' = ?c1\<lparr>limit_of := limit_of c'\<rparr>" by blast
  have "c' = c\<lparr>absolute_path := complete_full_path cwd (parent_path conf_path), limit_of := limit_of c'\<rparr>"
    using c'(3) unfolding l by simp
  moreover have "limit_of c' f = SetLimitIntValue (fst (limit_range f)) (snd (limit_range f)) (limit_of c f) * limit_unit f" for f
    unfolding c'(2) l1 limit_unit_def by (simp split: option.split)
  ultimately show ?thesis using c'(1) assms by (auto simp: LoadGroupConfig_def Let_def)
qed

text \<open>C27: a loaded group configuration is well formed. Whatever numbers the file holds, no conversion to
  bytes overflows, the return code is 0, and each limit is in its range (in its unit); a limit given within
  its range is kept.\<close>

theorem LoadGroupConfig_wf:
  assumes "conf_path \<noteq> []"
  shows "case LoadGroupConfig cwd conf_path (Some c) g of None \<Rightarrow> False
    | Some (ret, c') \<Rightarrow> ret = 0 \<and>
        (\<forall>f. limit_ok f (limit_of c' f) \<and> fits_int (limit_of c' f) \<and>
          (if fst (limit_range f) \<le> limit_of c f \<and> limit_of c f \<le> snd (limit_range f)
           then limit_of c' f = limit_of c f * limit_unit f else True))"
proof -
  obtain c' where c': "LoadGroupConfig cwd conf_path (Some c) g = Some (0, c')"
      "\<And>f. limit_of c' f = SetLimitIntValue (fst (limit_range f)) (snd (limit_range f)) (limit_of c f) * limit_unit f"
    using LoadGroupConfig_loaded [OF assms] by blast
  note r = SetLimitIntValue_range [OF limit_range_order]
  have "limit_ok f (limit_of c' f)" for f unfolding limit_ok_def c'(2) using r by blast
  moreover have "fits_int (limit_of c' f)" for f
  proof -
    have "fits_int (w * limit_unit f)" if "fst (limit_range f) \<le> w" "w \<le> snd (limit_range f)" for w
      using that by (cases f) (simp_all add: fits_int_def limit_unit_def unit_changes_def)
    then show ?thesis using r unfolding c'(2) by blast
  qed
  ultimately show ?thesis using c' by (simp add: SetLimitIntValue_id)
qed

subsection \<open>Session settings\<close>

text \<open>
  A value of libtorrent's \<open>session_settings\<close> is the list of its named fields, an enumerator being its
  name; \<open>base\<close> is \<open>high_performance_seed()\<close>.
\<close>

datatype setting = SInt int | SBool bool | SName string

definition bool_field :: "bool \<Rightarrow> string \<Rightarrow> string \<Rightarrow> setting" where
  "bool_field b x y = SName (if b then x else y)"

definition session_values :: "GroupConfig \<Rightarrow> (string \<times> setting) list" where
  "session_values c =
    (let l = (\<lambda>f. SInt (limit_of c f));
         cache = bool_field (disable_os_cache c) ''disable_os_cache'' ''enable_os_cache''
     in [(''use_php_tracker'', SBool False), (''use_c_tracker'', SBool True), (''stop_tracker_timeout'', SInt 1),
      (''no_connect_privileged_ports'', SBool False), (''listen_queue_size'', SInt 200),
      (''alert_queue_size'', SInt 50000), (''num_want'', l PeersNumWant), (''disk_io_read_mode'', cache),
      (''disk_io_write_mode'', cache), (''max_metadata_size'', l MaxMetadataSize),
      (''min_announce_interval'', l SeedAnnounceInterval), (''min_reconnect_time'', l MinReconnectTime),
      (''peer_connect_timeout'', l PeerConnectionTimeout), (''upload_rate_limit'', l UploadRateLimit),
      (''download_rate_limit'', l DownloadRateLimit), (''max_queued_disk_bytes'', l MaxQueuedDiskBytes),
      (''max_out_request_queue'', l MaxOutRequestQueue),
      (''max_allowed_in_request_queue'', l MaxAllowedInRequestQueue),
      (''whole_pieces_threshold'', l WholePiecesThreshold), (''request_queue_time'', l RequestQueueTime),
      (''cache_size'', l CacheSize), (''cache_expiry'', l CacheExpiry),
      (''read_cache_line_size'', l ReadCacheLineSize), (''write_cache_line_size'', l WriteCacheLineSize),
      (''file_pool_size'', l FilePoolSize), (''send_buffer_watermark'', l SendBufferWatermark),
      (''send_buffer_low_watermark'', l SendBufferLowWatermark),
      (''send_socket_buffer_size'', l SendSocketBufferSize), (''recv_socket_buffer_size'', l RecvSocketBufferSize),
      (''dont_count_slow_torrents'', SBool True), (''active_seeds'', l ActiveSeeds),
      (''active_limit'', l ActiveSeeds), (''active_downloads'', l ActiveDownloads),
      (''connections_limit'', l ConnectionLimit), (''ignore_limits_on_local_network'', SBool False),
      (''enable_outgoing_utp'', SBool False), (''enable_incoming_utp'', SBool False),
      (''incoming_starts_queued_torrents'', SBool True), (''seeding_outgoing_connections'', SBool False),
      (''choking_algorithm'', SName ''auto_expand_choker''),
      (''seed_choking_algorithm'', SName ''round_robin''), (''unchoke_slots_limit'', SInt 1000)] @
     (if suggest_mode c then [(''explicit_read_cache'', SBool True), (''suggest_mode'', SName ''suggest_read_cache'')]
      else []))"

definition SetSessionSettings :: "(string, setting) assoc \<Rightarrow> GroupConfig \<Rightarrow> (string, setting) assoc" where
  "SetSessionSettings base c = foldl (\<lambda>s (k, v). AList.update k v s) base (session_values c)"

text \<open>The file's \<open>active_limit\<close> is not used.\<close>

lemma active_limit_is_active_seeds:
  "map_of (SetSessionSettings base c) ''active_limit'' = Some (SInt (limit_of c ActiveSeeds))"
  by (simp add: SetSessionSettings_def session_values_def Let_def)

subsection \<open>Session options at run time\<close>

record TaskOptions =
  to_infohash :: string
  to_download_limit :: int
  to_upload_limit :: int
  to_connections_limit :: int

text \<open>\<open>SetTaskOptions\<close> for the whole session: the settings and the configuration.\<close>

definition SetSessionOptions ::
  "TaskOptions \<Rightarrow> (string, setting) assoc \<times> GroupConfig \<Rightarrow> (string, setting) assoc \<times> GroupConfig" where
  "SetSessionOptions opts sc =
    (let (s, c) = sc;
         (s, c) = (if to_connections_limit opts > 0 then
             let v = SetLimitIntValue 1 32768 (to_connections_limit opts)
             in (AList.update ''connections_limit'' (SInt v) s, set_limit ConnectionLimit v c) else (s, c));
         (s, c) = (if to_download_limit opts > 0 then
             let v = SetLimitIntValue (0 * 1024 * 1024) (2000 * 1024 * 1024) (to_download_limit opts)
             in (AList.update ''download_rate_limit'' (SInt v) s, set_limit DownloadRateLimit v c) else (s, c))
     in if to_upload_limit opts > 0 then
          let v = SetLimitIntValue (0 * 1024 * 1024) (2000 * 1024 * 1024) (to_upload_limit opts)
          in (AList.update ''upload_rate_limit'' (SInt v) s, set_limit UploadRateLimit v c)
        else (s, c))"

definition conf_5000 :: GroupConfig where
  "conf_5000 = \<lparr>limit_of = (\<lambda>f. 5000), group_timeout = 0, finished_timeout = 0, max_cluster_thread_num = 1,
     is_allow_all_add = False, suggest_mode = False, disable_os_cache = False, absolute_path = [],
     group_data_path = [], resume_dir_name = []\<rparr>"

lemma LoadGroupConfig_wf_witness:
  "case LoadGroupConfig ''/w'' ''/etc/group.conf'' (Some conf_5000) conf_5000 of None \<Rightarrow> False
   | Some (ret, c') \<Rightarrow> ret = 0 \<and> limit_of c' ConnectionLimit = 5000 \<and> limit_ok CacheSize (limit_of c' CacheSize)"
proof -
  have "''/etc/group.conf'' \<noteq> []" by simp
  from LoadGroupConfig_wf [OF this, where cwd = "''/w''" and c = conf_5000 and g = conf_5000] show ?thesis
    by (cases "LoadGroupConfig ''/w'' ''/etc/group.conf'' (Some conf_5000) conf_5000")
      (auto simp: conf_5000_def limit_unit_def unit_changes_def dest: spec [of _ ConnectionLimit])
qed

end
