(* ===== verification/GroupTask.thy ===== *)
theory GroupTask
  imports GroupParam GroupConf Encode
begin

text \<open>
  A group's download task (\<open>gko-src/group/group_task.cpp\<close>, \<open>group_task.h\<close>). The torrent library, the
  file system and the clock answer through arguments; what a task does to them is a list of effects in order. A
  torrent handle is a number, \<open>None\<close> the invalid one. \<open>RemoveTorrent\<close> also changes the manager's maps: its
  callers here return a flag that asks for it, and the theory \<open>GroupManager\<close> runs it. Strings handed to
  \<open>bencode\<close> and Thrift are kept as the structures they encode.
\<close>

subsection \<open>Structures\<close>

datatype group_torrent_state = GQueuedForChecking | GCheckingFiles | GDownloadingMetadata | GDownloading | GFinished
  | GSeeding | GAllocating | GCheckingResumeData

fun state_value :: "group_torrent_state \<Rightarrow> int" where
  "state_value GQueuedForChecking = 0" | "state_value GCheckingFiles = 1" | "state_value GDownloadingMetadata = 2"
| "state_value GDownloading = 3" | "state_value GFinished = 4" | "state_value GSeeding = 5"
| "state_value GAllocating = 6" | "state_value GCheckingResumeData = 7"

record group_torrent_status =
  gs_state :: group_torrent_state
  gs_is_finished :: bool
  gs_has_metadata :: bool
  gs_need_save_resume :: bool
  gs_progress_ppm :: int
  gs_download_rate :: int
  gs_upload_rate :: int
  gs_total_payload_download :: int
  gs_total_payload_upload :: int
  gs_total_download :: int
  gs_uploads_limit :: int
  gs_num_peers :: int
  gs_num_seeds :: int
  gs_pieces :: "bool list"

text \<open>The fields of \<open>TaskStatus\<close> the group writes; the floating-point copy of the progress is left out.\<close>

record TaskStatus =
  tk_infohash :: string
  tk_payload_downloaded :: int
  tk_payload_uploaded :: int
  tk_progress_ppm :: int
  tk_start_time :: int
  tk_end_time :: int
  tk_time_for_download :: int
  tk_time_for_check_files :: int
  tk_time_for_seeding :: int
  tk_download_limit :: int
  tk_upload_limit :: int
  tk_num_files :: int
  tk_num_paths :: int
  tk_num_symlinks :: int
  tk_piece_length :: int
  tk_num_pieces :: int
  tk_state :: int
  tk_download_rate :: int
  tk_upload_rate :: int
  tk_is_task_finished :: bool
  tk_state_string :: string
  tk_uid :: int
  tk_save_path :: string

definition TaskStatus_new :: TaskStatus where
  "TaskStatus_new = \<lparr>tk_infohash = [], tk_payload_downloaded = 0, tk_payload_uploaded = 0, tk_progress_ppm = 0,
     tk_start_time = 0, tk_end_time = 0, tk_time_for_download = 0, tk_time_for_check_files = 0,
     tk_time_for_seeding = 0, tk_download_limit = 0, tk_upload_limit = 0, tk_num_files = 0, tk_num_paths = 0,
     tk_num_symlinks = 0, tk_piece_length = 0, tk_num_pieces = 0, tk_state = -1, tk_download_rate = 0,
     tk_upload_rate = 0, tk_is_task_finished = False, tk_state_string = [], tk_uid = -1, tk_save_path = []\<rparr>"

datatype ControlTaskStatus = CS_NORMAL | CS_CANCELED | CS_PAUSED | CS_RESUME | CS_PERSIST | CS_FINISHED | CS_TIMEOUT

fun control_value :: "ControlTaskStatus \<Rightarrow> int" where
  "control_value CS_NORMAL = 0" | "control_value CS_CANCELED = 11" | "control_value CS_PAUSED = 12"
| "control_value CS_RESUME = 13" | "control_value CS_PERSIST = 14" | "control_value CS_FINISHED = 15"
| "control_value CS_TIMEOUT = 16"

text \<open>\<open>stat_\<close>: the times of a task.\<close>

record task_times =
  s_start_time :: int
  s_for_download_metadata :: int
  s_for_check_files :: int
  s_for_download :: int
  s_for_seeding :: int

record GroupTask =
  control_status :: ControlTaskStatus
  g_infohash :: string
  g_cred :: UserCred
  params :: DownloadParam
  torrent_handle :: "nat option"
  g_error :: string
  stat :: task_times
  tmp_save_path :: string
  resume_file :: string
  org_pieces :: "bool list"
  pre_file_priorities :: "int list"
  has_pre_allocate_thread_start :: bool
  task_status :: TaskStatus
  last_check_time :: int
  last_check_downloaded :: int
  is_timeout :: bool
  is_mem_exceed :: bool
  low_downrate_times :: int
  is_torrent_url :: bool
  cluster_task_of :: "cluster_config_entry option"

definition GroupTask_new :: "int \<Rightarrow> GroupTask" where
  "GroupTask_new now = \<lparr>control_status = CS_NORMAL, g_infohash = [], g_cred = \<lparr>uc_pid = 0, uc_gid = 0, uc_uid = 0\<rparr>,
     params = DownloadParam_new, torrent_handle = None, g_error = [],
     stat = \<lparr>s_start_time = 0, s_for_download_metadata = 0, s_for_check_files = 0, s_for_download = 0, s_for_seeding = 0\<rparr>,
     tmp_save_path = [], resume_file = [], org_pieces = [], pre_file_priorities = [],
     has_pre_allocate_thread_start = False, task_status = TaskStatus_new, last_check_time = now,
     last_check_downloaded = 0, is_timeout = False, is_mem_exceed = False, low_downrate_times = 0,
     is_torrent_url = False, cluster_task_of = None\<rparr>"

text \<open>The parameters of \<open>add_torrent\<close>, and a task's resume file.\<close>

record group_torrent_params =
  gp_info_hash :: string
  gp_url :: string
  gp_trackers :: "(string \<times> int) list"
  gp_save_path :: string
  gp_resume_data :: "string option"
  gp_file_priorities :: "int list"
  gp_allocate :: bool
  gp_duplicate_is_error :: bool
  gp_override_resume_data :: bool
  gp_paused :: bool
  gp_auto_managed :: bool
  gp_download_limit :: int
  gp_upload_limit :: int
  gp_max_connections :: int
  gp_url_seeds :: "string list"

record resume_content =
  rc_cred :: UserCred
  rc_infohash :: string
  rc_last_check_downloaded :: int
  rc_last_check_time :: int
  rc_control_status :: ControlTaskStatus
  rc_down_param :: DownloadParam
  rc_task_status :: TaskStatus

datatype limit_kind = DownLimit | UpLimit | ConnLimit

datatype group_effect =
    GAddTorrent group_torrent_params
  | GShareMode nat bool
  | GResumeHandle nat
  | GPauseHandle nat
  | GAutoManaged nat bool
  | GSetLimit nat limit_kind int
  | GSaveResumeData nat
  | GMoveStorage nat string
  | GRemoveTorrent nat
  | GPrioritizeFiles nat "int list"
  | GTruncateFile string
  | GWriteResume string resume_content
  | GWriteFinished string "(string \<times> TaskStatus) list"
  | GUnlink string
  | GRmdir string
  | GSeedingTimer int
  | GTimeoutTimer int
  | GCancelTimeout
  | GStopCluster
  | GPushCluster
  | GPreAllocate
  | GHashFailed nat
  | GWriteResumeData string string
  | GSetSession "(string \<times> setting) list"
  | GStopServer

definition on_torrent :: "GroupTask \<Rightarrow> (nat \<Rightarrow> group_effect) \<Rightarrow> group_effect list" where
  "on_torrent t f = (case torrent_handle t of None \<Rightarrow> [] | Some h \<Rightarrow> [f h])"

subsection \<open>Resume files\<close>

definition resume_file_name :: "string \<Rightarrow> GroupTask \<Rightarrow> string" where
  "resume_file_name dir t = dir @ ''/'' @ g_infohash t @ ''.resume''"

definition resume_content_of :: "GroupTask \<Rightarrow> resume_content" where
  "resume_content_of t = \<lparr>rc_cred = g_cred t, rc_infohash = g_infohash t,
     rc_last_check_downloaded = last_check_downloaded t, rc_last_check_time = last_check_time t,
     rc_control_status = control_status t, rc_down_param = params t, rc_task_status = task_status t\<rparr>"

text \<open>Writing is taken to succeed when the file can be opened.\<close>

definition GroupGenerateResumeFile :: "string \<Rightarrow> (string \<Rightarrow> bool) \<Rightarrow> GroupTask \<Rightarrow> group_effect list" where
  "GroupGenerateResumeFile dir opens t =
    (if g_infohash t = [] then []
     else if \<not> opens (resume_file_name dir t) then []
     else [GWriteResume (resume_file_name dir t) (resume_content_of t)])"

definition GroupDeleteResumeFile :: "string \<Rightarrow> GroupTask \<Rightarrow> group_effect list" where
  "GroupDeleteResumeFile dir t =
    [GUnlink (resume_file_name dir t)] @ (if resume_file t \<noteq> [] then [GUnlink (resume_file t)] else []) @
    (if tmp_save_path t \<noteq> [] then [GRmdir (tmp_save_path t)] else [])"

definition PersistTask :: "string \<Rightarrow> (string \<Rightarrow> bool) \<Rightarrow> GroupTask \<Rightarrow> group_effect list" where
  "PersistTask dir opens t =
    (if control_status t = CS_CANCELED \<or> control_status t = CS_FINISHED then GroupDeleteResumeFile dir t
     else GroupGenerateResumeFile dir opens t)"

definition StopClusterTask :: "GroupTask \<Rightarrow> group_effect list" where
  "StopClusterTask t = (if cluster_task_of t \<noteq> None then [GStopCluster] else [])"

text \<open>The destructor.\<close>

definition destroy_GroupTask :: "string \<Rightarrow> (string \<Rightarrow> bool) \<Rightarrow> GroupTask \<Rightarrow> group_effect list" where
  "destroy_GroupTask dir opens t = StopClusterTask t @ PersistTask dir opens t"

subsection \<open>Control\<close>

definition CheckTaskCred :: "UserCred \<Rightarrow> GroupTask \<Rightarrow> bool" where
  "CheckTaskCred c t \<longleftrightarrow> uc_uid c = 0 \<or> uc_uid c = uc_uid (g_cred t)"

definition ResumeTorrent :: "GroupTask \<Rightarrow> group_effect list" where
  "ResumeTorrent t = on_torrent t GResumeHandle @ on_torrent t (\<lambda>h. GAutoManaged h True)"

definition PauseTorrent :: "GroupTask \<Rightarrow> group_effect list" where
  "PauseTorrent t = on_torrent t (\<lambda>h. GAutoManaged h False) @ on_torrent t GPauseHandle"

datatype ControlTaskType = CT_UNKNOWN | CT_CANCEL | CT_PAUSE | CT_RESUME

text \<open>The flag asks for \<open>RemoveTorrent(true)\<close>.\<close>

fun ControlTask :: "ControlTaskType \<Rightarrow> GroupTask \<Rightarrow> GroupTask \<times> group_effect list \<times> bool" where
  "ControlTask CT_CANCEL t = (t\<lparr>control_status := CS_CANCELED\<rparr>, [], True)"
| "ControlTask CT_PAUSE t = (t\<lparr>control_status := CS_PAUSED\<rparr>, PauseTorrent t, False)"
| "ControlTask CT_RESUME t = (t\<lparr>control_status := CS_RESUME\<rparr>, ResumeTorrent t, False)"
| "ControlTask CT_UNKNOWN t = (t, [], False)"

subsection \<open>Options\<close>

text \<open>\<open>SetOptions\<close>: \<open>false\<close> is the return value -1.\<close>

definition GroupSetOptions :: "TaskOptions \<Rightarrow> GroupTask \<Rightarrow> bool \<times> GroupTask \<times> group_effect list" where
  "GroupSetOptions opts t =
    (if to_infohash opts \<noteq> [] \<and> to_infohash opts \<noteq> g_infohash t then (False, t, [])
     else
       let (t, e1) = (if to_download_limit opts > 0
             then (t\<lparr>params := (params t)\<lparr>dp_download_limit := to_download_limit opts\<rparr>\<rparr>,
                   on_torrent t (\<lambda>h. GSetLimit h DownLimit (to_download_limit opts))) else (t, []));
           (t, e2) = (if to_upload_limit opts > 0
             then (t\<lparr>params := (params t)\<lparr>dp_upload_limit := to_upload_limit opts\<rparr>\<rparr>,
                   on_torrent t (\<lambda>h. GSetLimit h UpLimit (to_upload_limit opts))) else (t, []));
           (t, e3) = (if to_connections_limit opts > 0
             then (t\<lparr>params := (params t)\<lparr>dp_connections_limit := to_connections_limit opts\<rparr>\<rparr>,
                   on_torrent t (\<lambda>h. GSetLimit h ConnLimit (to_connections_limit opts))) else (t, []))
       in (True, t, e1 @ e2 @ e3))"

text \<open>\<open>limits\<close> are the download, upload and connection limits the torrent reports.\<close>

definition GroupGetOptions :: "int \<times> int \<times> int \<Rightarrow> GroupTask \<Rightarrow> TaskOptions" where
  "GroupGetOptions limits t = (case limits of (d, u, c) \<Rightarrow>
     \<lparr>to_infohash = g_infohash t, to_download_limit = d, to_upload_limit = u, to_connections_limit = c\<rparr>)"

subsection \<open>Pieces wanted\<close>

text \<open>What the code reads of a torrent's metadata; \<open>tm_ranges\<close> are the first and last piece of each file.\<close>

record torrent_meta =
  tm_info_hash :: string
  tm_files :: "string list"
  tm_ranges :: "(nat \<times> nat) list"
  tm_num_paths :: nat
  tm_num_symlinks :: nat
  tm_num_pieces :: nat
  tm_piece_length :: int

definition SetOrgPieces :: "torrent_meta \<Rightarrow> GroupTask \<Rightarrow> GroupTask" where
  "SetOrgPieces ti t =
    (let num_pieces = (if tm_num_pieces ti \<le> 0 then 1 else tm_num_pieces ti);
         bits = resize num_pieces False (org_pieces t)
     in t\<lparr>org_pieces := foldl (\<lambda>bits i. case tm_ranges ti ! i of (first_piece, last_piece) \<Rightarrow>
            foldl (\<lambda>bits j. bits[j := (pre_file_priorities t ! i > 0 \<or> bits ! j)]) bits [first_piece ..< Suc last_piece])
          bits [0 ..< length (pre_file_priorities t)]\<rparr>)"

subsection \<open>Creation\<close>

record create_env =
  ce_now :: int
  ce_mkdir_r :: "string \<Rightarrow> bool"
  ce_mkdir :: "string \<Rightarrow> bool"
  ce_file_size :: "string \<Rightarrow> int"
  ce_max_metadata_size :: int
  ce_parse_torrent :: "string \<Rightarrow> string \<Rightarrow> torrent_meta option"
  ce_matches :: "string \<Rightarrow> string \<Rightarrow> bool"
  ce_opens :: "string \<Rightarrow> bool"
  ce_trackers :: "string \<Rightarrow> (string \<times> int) list"
  ce_resume_data :: "string \<Rightarrow> string option"
  ce_add_torrent :: "group_torrent_params \<Rightarrow> nat option"
  ce_parse_syms :: bool
  ce_resume_dir :: string

text \<open>\<open>torrent_info\<close> made from an info hash alone.\<close>

definition meta_of_hash :: "string \<Rightarrow> torrent_meta" where
  "meta_of_hash bytes = \<lparr>tm_info_hash = bytes, tm_files = [], tm_ranges = [], tm_num_paths = 0, tm_num_symlinks = 0,
     tm_num_pieces = 0, tm_piece_length = 0\<rparr>"

text \<open>The torrent file, the URL or the info hash: the task, the metadata (none for a URL), the file priorities
  and the effects; \<open>Inl\<close> is the early return -1.\<close>

type_synonym task_source = "GroupTask \<times> torrent_meta option \<times> int list \<times> group_effect list"

definition create_source ::
  "create_env \<Rightarrow> GroupTask \<Rightarrow> (GroupTask \<times> group_effect list) + task_source" where
  "create_source e t =
    (let p = params t in
     if dp_torrent_path p \<noteq> [] then
       (let size = ce_file_size e (dp_torrent_path p) in
        if size \<le> 0 \<or> size > ce_max_metadata_size e then Inl (t, [])
        else case ce_parse_torrent e (dp_torrent_path p) (dp_new_name p) of
               None \<Rightarrow> Inl (t, [])
             | Some ti \<Rightarrow>
                 let priorities = (if dp_patition_download p
                       then ParseNeedDownloadFiles (ce_matches e) (dp_include_regex p) (dp_exclude_regex p) (tm_files ti) []
                       else []);
                     pre = (if dp_patition_download p then priorities
                            else resize (length (tm_files ti)) 1 (pre_file_priorities t))
                 in Inr (SetOrgPieces ti (t\<lparr>pre_file_priorities := pre\<rparr>), Some ti, priorities, []))
     else if dp_torrent_url p \<noteq> [] then
       Inr (t\<lparr>params := p\<lparr>dp_need_save_resume := False, dp_need_down_to_tmp_first := False\<rparr>, is_torrent_url := True\<rparr>,
            None, [], [])
     else if dp_infohash p \<noteq> [] then
       (if dp_save_torrent_path p \<noteq> [] \<and> \<not> ce_opens e (dp_save_torrent_path p) then Inl (t, [])
        else
          let eff = (if dp_save_torrent_path p \<noteq> [] then [GTruncateFile (dp_save_torrent_path p)] else [])
          in if length (dp_infohash p) \<noteq> 40 then Inl (t, eff)
             else case HexstrToBytes (dp_infohash p) of
                    None \<Rightarrow> Inl (t, eff)
                  | Some bytes \<Rightarrow> Inr (t, Some (meta_of_hash bytes), [], eff))
     else Inl (t, []))"

definition task_path :: "GroupTask \<Rightarrow> string \<Rightarrow> string \<Rightarrow> string" where
  "task_path t dir suffix = dir @ ''/.gko3_'' @ dp_infohash (params t) @ ''_'' @ dp_new_name (params t) @ suffix"

definition new_torrent_params ::
  "create_env \<Rightarrow> torrent_meta option \<Rightarrow> int list \<Rightarrow> (string \<times> int) list \<Rightarrow> GroupTask \<Rightarrow> group_torrent_params" where
  "new_torrent_params e ti priorities trackers t =
    (let p = params t in
     \<lparr>gp_info_hash = (case ti of None \<Rightarrow> [] | Some ti \<Rightarrow> tm_info_hash ti),
      gp_url = (if is_torrent_url t then dp_torrent_url p else []), gp_trackers = trackers,
      gp_save_path = tmp_save_path t,
      gp_resume_data = (if dp_need_save_resume p then ce_resume_data e (resume_file t) else None),
      gp_file_priorities = priorities, gp_allocate = dp_storage_pre_allocate p,
      gp_duplicate_is_error = True, gp_override_resume_data = True, gp_paused = True, gp_auto_managed = False,
      gp_download_limit = dp_download_limit p, gp_upload_limit = dp_upload_limit p,
      gp_max_connections = dp_connections_limit p, gp_url_seeds = dp_web_seeds p\<rparr>)"

text \<open>From the torrent added to the end: the cluster task, the status and the resume file.\<close>

definition create_finish ::
  "create_env \<Rightarrow> torrent_meta option \<Rightarrow> GroupTask \<Rightarrow> bool \<times> GroupTask \<times> group_effect list" where
  "create_finish e ti t =
    (let p = params t;
         e1 = (if dp_dynamic_allocate p \<ge> 0 then on_torrent t (\<lambda>h. GShareMode h True) else [])
     in if cl_prefix_path (dp_cluster_config p) \<noteq> [] \<and> \<not> ce_parse_syms e then (False, t, e1)
        else
          let t = (if cl_prefix_path (dp_cluster_config p) \<noteq> []
                   then t\<lparr>cluster_task_of := Some (TurnClusterParamToClusterConfigEntry (dp_cluster_config p))\<rparr> else t);
              st = (task_status t)\<lparr>tk_start_time := ce_now e, tk_infohash := g_infohash t,
                      tk_download_limit := dp_download_limit p, tk_upload_limit := dp_upload_limit p\<rparr>;
              st = (case ti of None \<Rightarrow> st
                    | Some ti \<Rightarrow> st\<lparr>tk_num_files := int (length (tm_files ti)), tk_num_paths := int (tm_num_paths ti),
                        tk_num_symlinks := int (tm_num_symlinks ti), tk_num_pieces := int (tm_num_pieces ti),
                        tk_piece_length := tm_piece_length ti\<rparr>);
              t = t\<lparr>task_status := st\<rparr>
          in (True, t, e1 @ GroupGenerateResumeFile (ce_resume_dir e) (ce_opens e) t @ ResumeTorrent t @
                (if dp_timeout p > 0 then [GTimeoutTimer (dp_timeout p)] else [])))"

text \<open>\<open>Create\<close>; the task is also returned on failure, for its destructor.\<close>

definition CreateGroupTask ::
  "create_env \<Rightarrow> DownloadParam \<Rightarrow> UserCred \<Rightarrow> GroupTask \<Rightarrow> bool \<times> GroupTask \<times> group_effect list" where
  "CreateGroupTask e param cred t =
    (let t = t\<lparr>params := param, g_cred := cred, task_status := (task_status t)\<lparr>tk_uid := uc_uid cred\<rparr>\<rparr> in
     if dp_save_path param = [] \<or> \<not> ce_mkdir_r e (dp_save_path param) then (False, t, [])
     else
       let t = t\<lparr>task_status := (task_status t)\<lparr>tk_save_path := dp_save_path param\<rparr>\<rparr>
       in case create_source e t of
            Inl (t, eff) \<Rightarrow> (False, t, eff)
          | Inr (t, ti, priorities, eff) \<Rightarrow>
              let t = (case ti of None \<Rightarrow> t | Some ti \<Rightarrow> t\<lparr>g_infohash := BytesToHex (tm_info_hash ti)\<rparr>);
                  trackers = TurnTrackersListToStdList (dp_trackers (params t)) [];
                  trackers = (if trackers = [] then ce_trackers e (g_infohash t) else trackers);
                  t = (if is_torrent_url t then t\<lparr>g_infohash := dp_torrent_url (params t)\<rparr> else t);
                  t = t\<lparr>params := (params t)\<lparr>dp_infohash := g_infohash t\<rparr>\<rparr>;
                  tmp = (if dp_need_down_to_tmp_first (params t) then task_path t (dp_save_path (params t)) ''.tmp''
                         else dp_save_path (params t));
                  t = t\<lparr>tmp_save_path := tmp\<rparr>
              in if dp_need_down_to_tmp_first (params t) \<and> \<not> ce_mkdir e tmp then (False, t, eff)
                 else
                   let t = (if dp_need_save_resume (params t) then t\<lparr>resume_file := task_path t tmp ''.resume''\<rparr> else t);
                       tp = new_torrent_params e ti priorities trackers t
                   in case ce_add_torrent e tp of
                        None \<Rightarrow> (False, t, eff @ [GAddTorrent tp])
                      | Some h \<Rightarrow>
                          (case create_finish e ti (t\<lparr>torrent_handle := Some h\<rparr>) of
                             (ok, t, eff2) \<Rightarrow> (ok, t, eff @ [GAddTorrent tp] @ eff2)))"

text \<open>\<open>content\<close> is the decoded file, \<open>None\<close> when it cannot be opened or decoded.\<close>

definition GroupCreateFromResumeFile ::
  "create_env \<Rightarrow> resume_content option \<Rightarrow> GroupTask \<Rightarrow> bool \<times> GroupTask \<times> group_effect list" where
  "GroupCreateFromResumeFile e content t =
    (case content of
       None \<Rightarrow> (False, t, [])
     | Some c \<Rightarrow>
         let t = t\<lparr>control_status := rc_control_status c\<rparr>
         in if control_status t = CS_CANCELED \<or> control_status t = CS_FINISHED then (False, t, [])
            else CreateGroupTask e (rc_down_param c) (rc_cred c)
                   (t\<lparr>last_check_downloaded := rc_last_check_downloaded c, last_check_time := rc_last_check_time c,
                      task_status := rc_task_status c\<rparr>))"

subsection \<open>Status and timers\<close>

fun state_text :: "group_torrent_state \<Rightarrow> string" where
  "state_text GQueuedForChecking = ''CHECKQ''" | "state_text GCheckingFiles = ''CHECKING''"
| "state_text GDownloadingMetadata = ''DTORRENT''" | "state_text GDownloading = ''DOWNLOAD''"
| "state_text GFinished = ''FINISHED''" | "state_text GSeeding = ''SEEDING''"
| "state_text GAllocating = ''ALLOCATING''" | "state_text GCheckingResumeData = ''CHECKRESUME''"

definition UpdateTaskStatus :: "group_torrent_status \<Rightarrow> GroupTask \<Rightarrow> GroupTask" where
  "UpdateTaskStatus ts t =
    (let st = (task_status t)\<lparr>tk_payload_downloaded := gs_total_payload_download ts,
            tk_payload_uploaded := gs_total_payload_upload ts, tk_state := state_value (gs_state ts),
            tk_download_rate := gs_download_rate ts, tk_upload_rate := gs_upload_rate ts,
            tk_progress_ppm := gs_progress_ppm ts, tk_state_string := state_text (gs_state ts)\<rparr>;
         st = (if control_status t = CS_PAUSED
               then st\<lparr>tk_state := control_value CS_PAUSED, tk_state_string := ''PAUSED''\<rparr> else st)
     in t\<lparr>task_status := st\<rparr>)"

text \<open>The part of \<open>RemoveTorrent\<close> before the manager's maps change, and the part after.\<close>

definition remove_before :: "int \<Rightarrow> group_torrent_status \<Rightarrow> GroupTask \<Rightarrow> GroupTask" where
  "remove_before now ts t =
    (let t = UpdateTaskStatus ts t; s = stat t in
     if s_for_download s \<noteq> 0
     then t\<lparr>stat := s\<lparr>s_for_seeding := now - s_start_time s - s_for_download_metadata s - s_for_check_files s
            - s_for_download s\<rparr>\<rparr>
     else t)"

definition remove_after :: "int \<Rightarrow> bool \<Rightarrow> GroupTask \<Rightarrow> GroupTask" where
  "remove_after now by_user t =
    (let st = (task_status t)\<lparr>tk_is_task_finished := True, tk_time_for_seeding := s_for_seeding (stat t), tk_end_time := now\<rparr>;
         (st, t) =
           (if \<not> by_user
            then (st\<lparr>tk_state := state_value GFinished, tk_state_string := ''FINISHED''\<rparr>, t\<lparr>control_status := CS_FINISHED\<rparr>)
            else (st\<lparr>tk_state := control_value CS_CANCELED, tk_state_string := ''CANCELED''\<rparr>,
                  t\<lparr>control_status := CS_CANCELED\<rparr>));
         st = (if is_timeout t then st\<lparr>tk_state := control_value CS_TIMEOUT, tk_state_string := ''TIMEOUT''\<rparr> else st)
     in t\<lparr>task_status := st\<rparr>)"

text \<open>Division of C's \<open>long\<close> truncates toward zero; the operands here are taken as not negative, and the
  seconds as fitting the \<open>int\<close> they are assigned to.\<close>

definition GroupToSeeding :: "int \<Rightarrow> group_torrent_status \<Rightarrow> GroupTask \<Rightarrow> GroupTask \<times> group_effect list" where
  "GroupToSeeding upload_rate_limit ts t =
    (let t = UpdateTaskStatus ts t; want = dp_seeding_time (params t) in
     if want = -1 then (t, [])
     else if want \<ge> 0 then (t, [GSeedingTimer want])
     else
       let upload_limit = (if gs_uploads_limit ts > 0 then gs_uploads_limit ts else upload_rate_limit);
           seeding_time = (gs_num_peers ts + 1) * gs_total_payload_download ts div (1 + gs_num_seeds ts)
             div (upload_limit + 1) div 2;
           tmp = gs_total_download ts div (gs_download_rate ts + 1)
       in (t, [GSeedingTimer (if tmp < seeding_time then tmp else seeding_time)]))"

text \<open>The timeout timer; the removal follows, then the timer is cancelled.\<close>

definition TimeoutTimerCallback :: "bool \<Rightarrow> group_torrent_status \<Rightarrow> GroupTask \<Rightarrow> GroupTask \<times> bool" where
  "TimeoutTimerCallback ec ts t =
    (if ec then (t, False)
     else (if \<not> gs_is_finished ts then t\<lparr>is_timeout := True\<rparr> else t, True))"

text \<open>The seeding timer.\<close>

definition GroupSeedingTimerCallback :: "bool \<Rightarrow> GroupTask \<Rightarrow> GroupTask \<times> bool" where
  "GroupSeedingTimerCallback ec t = (t, \<not> ec)"

record hang_env =
  he_now :: int
  he_have_seed :: bool
  he_rss_mb :: int

text \<open>The flag asks for \<open>RemoveTorrent(false)\<close>.\<close>

definition hang_timed_out :: "hang_env \<Rightarrow> group_torrent_status \<Rightarrow> GroupTask \<Rightarrow> bool option" where
  "hang_timed_out e ts t =
    (if gs_state ts = GDownloading \<and> gs_total_payload_download ts = last_check_downloaded t \<or>
        gs_state ts = GDownloadingMetadata \<and> \<not> he_have_seed e
     then Some (last_check_time t + dp_hang_timeout (params t) - he_now e \<le> 0) else None)"

definition HangCheckCallback ::
  "hang_env \<Rightarrow> group_torrent_status \<Rightarrow> GroupTask \<Rightarrow> GroupTask \<times> group_effect list \<times> bool" where
  "HangCheckCallback e ts t =
    (let t = UpdateTaskStatus ts t; p = params t;
         e1 = (if dp_need_save_resume p \<and> gs_has_metadata ts \<and> gs_need_save_resume ts
               then on_torrent t GSaveResumeData else [])
     in if gs_progress_ppm ts = 1000000 then (t, e1, False)
        else if hang_timed_out e ts t = Some True then (t\<lparr>is_timeout := True\<rparr>, e1, True)
        else
          let t = (if hang_timed_out e ts t = None
                   then t\<lparr>last_check_time := he_now e, last_check_downloaded := gs_total_payload_download ts\<rparr> else t);
              (t, e2) =
                (if dp_download_limit p > 2048 * 1024 \<and> gs_download_rate ts < 800 * 1024 \<and> control_status t \<noteq> CS_PAUSED
                 then let t = t\<lparr>low_downrate_times := low_downrate_times t + 1\<rparr>
                      in if low_downrate_times t > 9
                         then (t\<lparr>low_downrate_times := 0\<rparr>, on_torrent t GPauseHandle @ on_torrent t GResumeHandle)
                         else (t, [])
                 else (t, []))
          in if dp_mem_limit p > 0 \<and> he_rss_mb e > dp_mem_limit p
             then (t\<lparr>is_mem_exceed := True\<rparr>, e1 @ e2, True)
             else (t, e1 @ e2, False))"

subsection \<open>Alerts\<close>

definition OnHashFailed :: "nat \<Rightarrow> GroupTask \<Rightarrow> group_effect list" where
  "OnHashFailed piece t = (if cluster_task_of t \<noteq> None then [GHashFailed piece] else [])"

definition OnSaveResumeData :: "(string \<Rightarrow> bool) \<Rightarrow> string \<Rightarrow> GroupTask \<Rightarrow> group_effect list" where
  "OnSaveResumeData opens bytes t = (if opens (resume_file t) then [GWriteResumeData (resume_file t) bytes] else [])"

definition count_bits :: "bool list \<Rightarrow> nat" where
  "count_bits bs = length (filter (\<lambda>b. b) bs)"

text \<open>\<open>correct_ok\<close>: the outcome of \<open>CorrectModeAndSymlinks\<close>.\<close>

definition OnStorageMoved ::
  "int \<Rightarrow> bool \<Rightarrow> group_torrent_status \<Rightarrow> GroupTask \<Rightarrow> bool \<times> GroupTask \<times> group_effect list" where
  "OnStorageMoved upload_rate_limit correct_ok ts t =
    (if \<not> correct_ok then (False, t, [])
     else case GroupToSeeding upload_rate_limit ts t of (t, eff) \<Rightarrow> (True, t, eff))"

definition GroupOnTorrentFinished ::
  "int \<Rightarrow> int \<Rightarrow> nat \<Rightarrow> bool \<Rightarrow> group_torrent_status \<Rightarrow> GroupTask \<Rightarrow> bool \<times> GroupTask \<times> group_effect list" where
  "GroupOnTorrentFinished now upload_rate_limit num_pieces correct_ok ts t =
    (if dp_dynamic_allocate (params t) \<ge> 0 \<and> count_bits (gs_pieces ts) < count_bits (org_pieces t) \<and> num_pieces > 0
     then (True, t, [])
     else
       let s = stat t; d = now - s_start_time s - s_for_download_metadata s - s_for_check_files s;
           t = t\<lparr>stat := s\<lparr>s_for_download := d\<rparr>, task_status := (task_status t)\<lparr>tk_time_for_download := d\<rparr>\<rparr>
       in if dp_need_down_to_tmp_first (params t)
          then (True, t, on_torrent t (\<lambda>h. GMoveStorage h (dp_save_path (params t))))
          else OnStorageMoved upload_rate_limit correct_ok ts t)"

text \<open>\<open>ti\<close>: the metadata of the torrent when it has any; \<open>cluster\<close>: its cluster configuration. The
  last flag asks for \<open>RemoveTorrent(false)\<close>.\<close>

definition cluster_usable :: "cluster_config_entry \<Rightarrow> bool" where
  "cluster_usable c \<longleftrightarrow> ce_port c \<noteq> 0 \<and> ce_host c \<noteq> [] \<and> ce_user c \<noteq> [] \<and> ce_passwd c \<noteq> []"

definition OnStateChanged ::
  "int \<Rightarrow> bool \<Rightarrow> bool \<Rightarrow> group_torrent_state \<Rightarrow> (torrent_meta \<times> cluster_config_entry) option \<Rightarrow> GroupTask \<Rightarrow>
   GroupTask \<times> group_effect list \<times> bool" where
  "OnStateChanged now syms_ok start_ok state ti t =
    (let start = (state \<noteq> GDownloadingMetadata \<and> ti \<noteq> None \<and> dp_dynamic_allocate (params t) \<ge> 0 \<and>
           \<not> has_pre_allocate_thread_start t);
         e1 = (if start then [GPreAllocate] else []);
         t = (if start then t\<lparr>has_pre_allocate_thread_start := True\<rparr> else t)
     in if state \<noteq> GDownloading then (t, e1, False)
        else
          let s = stat t; c = now - s_start_time s - s_for_download_metadata s;
              t = t\<lparr>stat := s\<lparr>s_for_check_files := c\<rparr>, task_status := (task_status t)\<lparr>tk_time_for_check_files := c\<rparr>\<rparr>;
              usable = (cluster_task_of t = None \<and> (case ti of None \<Rightarrow> False | Some (m, cl) \<Rightarrow> cluster_usable cl))
          in if usable \<and> \<not> syms_ok then (t, e1, False)
             else
               let t = (if usable then t\<lparr>cluster_task_of := map_option snd ti\<rparr> else t)
               in (t, e1 @ (if cluster_task_of t \<noteq> None \<and> start_ok then [GPushCluster] else []),
                   cluster_task_of t \<noteq> None \<and> \<not> start_ok))"

text \<open>The new info hash is also handed to the manager, which renames its entry when the task came from a URL.\<close>

definition OnMetadataReceived ::
  "(string \<Rightarrow> string \<Rightarrow> bool) \<Rightarrow> (string \<Rightarrow> bool) \<Rightarrow> int \<Rightarrow> torrent_meta \<Rightarrow> GroupTask \<Rightarrow> GroupTask \<times> group_effect list" where
  "OnMetadataReceived matches opens now ti t =
    (let t = t\<lparr>stat := (stat t)\<lparr>s_for_download_metadata := now - s_start_time (stat t)\<rparr>\<rparr>;
         t = (if is_torrent_url t
              then let h = BytesToHex (tm_info_hash ti)
                   in t\<lparr>g_infohash := h, params := (params t)\<lparr>dp_infohash := h\<rparr>,
                        task_status := (task_status t)\<lparr>tk_infohash := h\<rparr>\<rparr>
              else t);
         p = params t;
         t = t\<lparr>pre_file_priorities := resize (length (tm_files ti)) 1 (pre_file_priorities t)\<rparr>;
         ps = ParseNeedDownloadFiles matches (dp_include_regex p) (dp_exclude_regex p) (tm_files ti) [];
         e1 = (if dp_patition_download p then on_torrent t (\<lambda>h. GPrioritizeFiles h ps) else []);
         t = (if dp_patition_download p then t\<lparr>pre_file_priorities := ps\<rparr> else t)
     in (SetOrgPieces ti t,
         e1 @ (if dp_save_torrent_path p \<noteq> [] \<and> opens (dp_save_torrent_path p)
               then [GTruncateFile (dp_save_torrent_path p)] else [])))"

end
