(* ===== verification/GroupManager.thy ===== *)
theory GroupManager
  imports GroupTask
begin

text \<open>
  The manager of a group's tasks (\<open>gko-src/group/group_manager.cpp\<close>). Task objects live in a heap;
  \<open>infohash_map\<close> and \<open>torrent_map\<close> share the running ones (a null pointer is \<open>None\<close>), the finished list
  keeps those that ended. One handler runs at a time, the locks of the code being held over each access. A result
  \<open>None\<close> is undefined behaviour: an iterator is read past the end.
\<close>

type_synonym task_ref = nat

record GroupManager =
  theap :: "(task_ref, GroupTask) assoc"
  next_ref :: task_ref
  ginfohash_map :: "(string, task_ref option) assoc"
  gtorrent_map :: "(nat option, task_ref) assoc"
  finished_infohash_list :: "(string \<times> task_ref) list"
  finished_infohash_list_changed :: bool
  config :: GroupConfig
  session :: "(string, setting) assoc"
  last_check_timeout :: int
  last_conf_file_modify_time :: int
  conf_failed_times :: int
  group_uid :: int
  stopped :: bool

definition new_GroupManager :: "GroupConfig \<Rightarrow> (string, setting) assoc \<Rightarrow> int \<Rightarrow> GroupManager" where
  "new_GroupManager c s uid = \<lparr>theap = [], next_ref = 0, ginfohash_map = [], gtorrent_map = [],
     finished_infohash_list = [], finished_infohash_list_changed = True, config = c, session = s,
     last_check_timeout = 0, last_conf_file_modify_time = 0, conf_failed_times = 0, group_uid = uid, stopped = False\<rparr>"

definition task_at :: "task_ref \<Rightarrow> GroupManager \<Rightarrow> GroupTask option" where
  "task_at a m = map_of (theap m) a"

definition set_task :: "task_ref \<Rightarrow> GroupTask \<Rightarrow> GroupManager \<Rightarrow> GroupManager" where
  "set_task a t m = m\<lparr>theap := AList.update a t (theap m)\<rparr>"

text \<open>The task an info hash names, if it runs: \<open>find\<close> and the null check.\<close>

definition find_running :: "string \<Rightarrow> GroupManager \<Rightarrow> task_ref option" where
  "find_running infohash m = (case map_of (ginfohash_map m) infohash of Some (Some a) \<Rightarrow> Some a | _ \<Rightarrow> None)"

definition kFinishedResumeFileName :: string where
  "kFinishedResumeFileName = ''finished.resume''"

definition finished_file :: "GroupManager \<Rightarrow> string" where
  "finished_file m = resume_dir_name (config m) @ ''/'' @ kFinishedResumeFileName"

subsection \<open>The maps\<close>

definition AddTaskToMap :: "task_ref \<Rightarrow> GroupTask \<Rightarrow> GroupManager \<Rightarrow> ClientRpcStatus \<times> GroupManager" where
  "AddTaskToMap a t m =
    (if g_infohash t \<noteq> [] \<and> (length (g_infohash t) = 40 \<or> is_torrent_url t) \<and>
        map_of (ginfohash_map m) (g_infohash t) = None
     then (ClientRpcSuccess,
           m\<lparr>ginfohash_map := AList.update (g_infohash t) (Some a) (ginfohash_map m),
             gtorrent_map := AList.update (torrent_handle t) a (gtorrent_map m)\<rparr>)
     else (ClientRpcAddTaskExist, m))"

definition RemoveTorrentTmp :: "nat option \<Rightarrow> string \<Rightarrow> GroupManager \<Rightarrow> GroupManager option" where
  "RemoveTorrentTmp h infohash m =
    (case map_of (ginfohash_map m) infohash of
       None \<Rightarrow> None
     | Some None \<Rightarrow> Some m
     | Some (Some a) \<Rightarrow>
         Some (m\<lparr>finished_infohash_list := finished_infohash_list m @ [(infohash, a)],
                 finished_infohash_list_changed := True,
                 ginfohash_map := AList.delete infohash (ginfohash_map m),
                 gtorrent_map := AList.delete h (gtorrent_map m)\<rparr>))"

definition GetFinishedTaskByInfohash :: "string \<Rightarrow> GroupManager \<Rightarrow> task_ref option" where
  "GetFinishedTaskByInfohash infohash m =
    (if infohash = [] then None else map_option snd (List.find (\<lambda>p. fst p = infohash) (finished_infohash_list m)))"

fun delete_first :: "string \<Rightarrow> (string \<times> 'a) list \<Rightarrow> (string \<times> 'a) list option" where
  "delete_first k [] = None"
| "delete_first k (p # ps) = (if fst p = k then Some ps else map_option (Cons p) (delete_first k ps))"

definition DeleteFinishedTaskByInfohash :: "string \<Rightarrow> GroupManager \<Rightarrow> GroupManager option" where
  "DeleteFinishedTaskByInfohash infohash m =
    (if infohash = [] then None
     else map_option (\<lambda>l. m\<lparr>finished_infohash_list := l, finished_infohash_list_changed := True\<rparr>)
            (delete_first infohash (finished_infohash_list m)))"

text \<open>In the branch that finds the task among the finished ones the code still reads the end iterator.\<close>

definition UpdateInfohashByTorrentUrl :: "string \<Rightarrow> string \<Rightarrow> GroupManager \<Rightarrow> GroupManager option" where
  "UpdateInfohashByTorrentUrl torrent_url infohash m =
    (if torrent_url = [] \<or> infohash = [] \<or> length infohash \<noteq> 40 then Some m
     else case map_of (ginfohash_map m) torrent_url of
            None \<Rightarrow> (if GetFinishedTaskByInfohash torrent_url m = None then Some m else None)
          | Some task \<Rightarrow>
              Some (m\<lparr>ginfohash_map := AList.delete torrent_url
                 (if map_of (ginfohash_map m) infohash = None
                  then AList.update infohash task (ginfohash_map m) else ginfohash_map m)\<rparr>))"

subsection \<open>Objects that go away\<close>

text \<open>A handler drops its last reference to an object.\<close>

definition referenced :: "task_ref \<Rightarrow> GroupManager \<Rightarrow> bool" where
  "referenced a m \<longleftrightarrow> Some a \<in> snd ` set (ginfohash_map m) \<or> a \<in> snd ` set (gtorrent_map m) \<or>
     a \<in> snd ` set (finished_infohash_list m)"

definition release_task :: "(string \<Rightarrow> bool) \<Rightarrow> task_ref \<Rightarrow> GroupManager \<Rightarrow> GroupManager \<times> group_effect list" where
  "release_task opens a m =
    (if referenced a m then (m, [])
     else case task_at a m of
            None \<Rightarrow> (m, [])
          | Some t \<Rightarrow> (m\<lparr>theap := AList.delete a (theap m)\<rparr>, destroy_GroupTask (resume_dir_name (config m)) opens t))"

subsection \<open>Adding\<close>

definition new_ref :: "GroupTask \<Rightarrow> GroupManager \<Rightarrow> task_ref \<times> GroupManager" where
  "new_ref t m = (next_ref m, m\<lparr>theap := AList.update (next_ref m) t (theap m), next_ref := Suc (next_ref m)\<rparr>)"

definition GroupAddTask ::
  "create_env \<Rightarrow> int \<Rightarrow> DownloadParam \<Rightarrow> UserCred \<Rightarrow> GroupManager \<Rightarrow> ClientRpcStatus \<times> GroupManager \<times> group_effect list" where
  "GroupAddTask e self_uid param cred m =
    (if \<not> is_allow_all_add (config m) \<and> uc_uid cred \<noteq> 0 \<and> uc_uid cred \<noteq> group_uid m \<and> uc_uid cred \<noteq> self_uid
     then (ClientRpcCredFailed, m, [])
     else
       let (ok, t, eff) = CreateGroupTask e param cred (GroupTask_new (ce_now e));
           (a, m) = new_ref t m
       in if \<not> ok
          then let (m, eff2) = release_task (ce_opens e) a m in (ClientRpcAddTaskCreateFailed, m, eff @ eff2)
          else let (ret, m) = AddTaskToMap a t m; (m, eff2) = release_task (ce_opens e) a m in (ret, m, eff @ eff2))"

text \<open>One file of the resume directory; a file that does not give a task is removed.\<close>

record group_resume_entry =
  re_name :: string
  re_stat_ok :: bool
  re_regular :: bool
  re_content :: "resume_content option"

definition resume_one :: "create_env \<Rightarrow> group_resume_entry \<Rightarrow> GroupManager \<Rightarrow> GroupManager \<times> group_effect list" where
  "resume_one e f m =
    (if re_name f \<in> {''.'', ''..'', kFinishedResumeFileName} \<or> \<not> re_stat_ok f \<or> \<not> re_regular f then (m, [])
     else
       let (ok, t, eff) = GroupCreateFromResumeFile e (re_content f) (GroupTask_new (ce_now e));
           (a, m) = new_ref t m
       in if \<not> ok
          then let (m, eff2) = release_task (ce_opens e) a m
               in (m, eff @ [GUnlink (resume_dir_name (config m) @ ''/'' @ re_name f)] @ eff2)
          else let (ret, m) = AddTaskToMap a t m; (m, eff2) = release_task (ce_opens e) a m in (m, eff @ eff2))"

fun resume_all :: "create_env \<Rightarrow> group_resume_entry list \<Rightarrow> GroupManager \<Rightarrow> GroupManager \<times> group_effect list" where
  "resume_all e [] m = (m, [])"
| "resume_all e (f # fs) m =
    (let (m, eff) = resume_one e f m; (m, eff2) = resume_all e fs m in (m, eff @ eff2))"

definition GroupAddResumeTask ::
  "create_env \<Rightarrow> group_resume_entry list option \<Rightarrow> GroupManager \<Rightarrow> int \<times> GroupManager \<times> group_effect list" where
  "GroupAddResumeTask e dir m =
    (case dir of None \<Rightarrow> (-1, m, []) | Some fs \<Rightarrow> (case resume_all e fs m of (m, eff) \<Rightarrow> (0, m, eff)))"

text \<open>The finished list of the last run; \<open>None\<close> is a file that is missing or unreadable.\<close>

fun load_finished :: "int \<Rightarrow> (string \<times> TaskStatus) list \<Rightarrow> GroupManager \<Rightarrow> GroupManager" where
  "load_finished now [] m = m"
| "load_finished now ((h, st) # fs) m =
    (let (a, m) = new_ref ((GroupTask_new now)\<lparr>task_status := st\<rparr>) m
     in load_finished now fs (m\<lparr>finished_infohash_list := finished_infohash_list m @ [(h, a)]\<rparr>))"

definition LoadFromFinishedResume :: "int \<Rightarrow> (string \<times> TaskStatus) list option \<Rightarrow> GroupManager \<Rightarrow> int \<times> GroupManager" where
  "LoadFromFinishedResume now content m =
    (case content of None \<Rightarrow> (-1, m)
     | Some fs \<Rightarrow> (0, load_finished now fs (m\<lparr>finished_infohash_list := []\<rparr>)))"

subsection \<open>What the torrent library and the system answer\<close>

record group_env =
  ge_now :: int
  ge_opens :: "string \<Rightarrow> bool"
  ge_status :: "nat \<Rightarrow> group_torrent_status"
  ge_no_status :: group_torrent_status
  ge_valid :: "nat \<Rightarrow> bool"
  ge_have_seed :: bool
  ge_rss_mb :: int

definition task_ts :: "group_env \<Rightarrow> GroupTask \<Rightarrow> group_torrent_status" where
  "task_ts e t = (case torrent_handle t of None \<Rightarrow> ge_no_status e | Some h \<Rightarrow> ge_status e h)"

definition handle_valid :: "group_env \<Rightarrow> GroupTask \<Rightarrow> bool" where
  "handle_valid e t = (case torrent_handle t of None \<Rightarrow> False | Some h \<Rightarrow> ge_valid e h)"

subsection \<open>Removing a torrent\<close>

text \<open>\<open>GroupTask::RemoveTorrent\<close>. The caller keeps the object alive.\<close>

definition RemoveTorrentOf ::
  "group_env \<Rightarrow> bool \<Rightarrow> task_ref \<Rightarrow> GroupManager \<Rightarrow> (GroupManager \<times> group_effect list) option" where
  "RemoveTorrentOf e by_user a m =
    (case task_at a m of
       None \<Rightarrow> Some (m, [])
     | Some t \<Rightarrow>
         if \<not> handle_valid e t then Some (m, StopClusterTask t)
         else
           let t = remove_before (ge_now e) (task_ts e t) t
           in case RemoveTorrentTmp (torrent_handle t) (g_infohash t) (set_task a t m) of
                None \<Rightarrow> None
              | Some m \<Rightarrow>
                  let t' = remove_after (ge_now e) by_user t
                  in Some (set_task a t' m,
                           StopClusterTask t @ on_torrent t GRemoveTorrent @
                           PersistTask (resume_dir_name (config m)) (ge_opens e) t'))"

text \<open>A task's callback that changed the object and may ask for its removal.\<close>

definition after_callback ::
  "group_env \<Rightarrow> bool \<Rightarrow> task_ref \<Rightarrow> GroupTask \<times> group_effect list \<times> bool \<Rightarrow> GroupManager \<Rightarrow>
   (GroupManager \<times> group_effect list) option" where
  "after_callback e by_user a r m =
    (case r of (t, eff, remove) \<Rightarrow>
       if remove then map_option (\<lambda>(m, eff2). (m, eff @ eff2)) (RemoveTorrentOf e by_user a (set_task a t m))
       else Some (set_task a t m, eff))"

subsection \<open>Requests\<close>

definition ControlTaskByInfohash ::
  "group_env \<Rightarrow> string \<Rightarrow> ControlTaskType \<Rightarrow> UserCred \<Rightarrow> GroupManager \<Rightarrow>
   (ClientRpcStatus \<times> GroupManager \<times> group_effect list) option" where
  "ControlTaskByInfohash e infohash type cred m =
    (case find_running infohash m of
       None \<Rightarrow> Some (ClientRpcTaskNotExist, m, [])
     | Some a \<Rightarrow>
         (case task_at a m of
            None \<Rightarrow> Some (ClientRpcTaskNotExist, m, [])
          | Some t \<Rightarrow>
              if \<not> CheckTaskCred cred t then Some (ClientRpcCredFailed, m, [])
              else map_option (\<lambda>(m, eff). (ClientRpcSuccess, m, eff)) (after_callback e True a (ControlTask type t) m)))"

text \<open>The tasks are copied first.\<close>

fun control_each ::
  "group_env \<Rightarrow> ControlTaskType \<Rightarrow> task_ref list \<Rightarrow> GroupManager \<Rightarrow> (GroupManager \<times> group_effect list) option" where
  "control_each e type [] m = Some (m, [])"
| "control_each e type (a # as) m =
    (case task_at a m of
       None \<Rightarrow> control_each e type as m
     | Some t \<Rightarrow>
         (case after_callback e True a (ControlTask type t) m of
            None \<Rightarrow> None
          | Some (m, eff) \<Rightarrow> map_option (\<lambda>(m, eff2). (m, eff @ eff2)) (control_each e type as m)))"

definition running_refs :: "GroupManager \<Rightarrow> task_ref list" where
  "running_refs m = List.map_filter snd (ginfohash_map m)"

definition ControlAllTasks ::
  "group_env \<Rightarrow> ControlTaskType \<Rightarrow> UserCred \<Rightarrow> GroupManager \<Rightarrow>
   (ClientRpcStatus \<times> GroupManager \<times> group_effect list) option" where
  "ControlAllTasks e type cred m =
    map_option (\<lambda>(m, eff). (ClientRpcSuccess, m, eff))
      (control_each e type (filter (\<lambda>a. case task_at a m of None \<Rightarrow> False | Some t \<Rightarrow> CheckTaskCred cred t) (running_refs m)) m)"

definition GroupControlTask ::
  "group_env \<Rightarrow> string \<Rightarrow> bool \<Rightarrow> ControlTaskType \<Rightarrow> UserCred \<Rightarrow> GroupManager \<Rightarrow>
   (ClientRpcStatus \<times> GroupManager \<times> group_effect list) option" where
  "GroupControlTask e infohash is_all type cred m =
    (if is_all then ControlAllTasks e type cred m
     else if infohash = [] then Some (ClientRpcErrorParams, m, [])
     else ControlTaskByInfohash e infohash type cred m)"

definition statuses :: "task_ref list \<Rightarrow> GroupManager \<Rightarrow> TaskStatus list" where
  "statuses as m = List.map_filter (\<lambda>a. map_option task_status (task_at a m)) as"

text \<open>\<open>None\<close> is the return value -1.\<close>

definition GetTaskStatus :: "string \<Rightarrow> bool \<Rightarrow> GroupManager \<Rightarrow> TaskStatus list option" where
  "GetTaskStatus infohash is_full m =
    (if is_full then Some (statuses (map snd (finished_infohash_list m)) m @ statuses (running_refs m) m)
     else if infohash = [] then None
     else Some (statuses (map snd (filter (\<lambda>p. fst p = infohash) (finished_infohash_list m))) m @
                statuses (case find_running infohash m of None \<Rightarrow> [] | Some a \<Rightarrow> [a]) m))"

text \<open>\<open>infohash_map_[options.infohash]\<close> adds a null entry for an unknown info hash.\<close>

definition SetTaskOptions :: "TaskOptions \<Rightarrow> GroupManager \<Rightarrow> ClientRpcStatus \<times> GroupManager \<times> group_effect list" where
  "SetTaskOptions opts m =
    (if to_infohash opts = [] then
       (case SetSessionOptions opts (session m, config m) of
          (s, c) \<Rightarrow> (ClientRpcSuccess, m\<lparr>session := s, config := c\<rparr>, [GSetSession s]))
     else
       let m = (if map_of (ginfohash_map m) (to_infohash opts) = None
                then m\<lparr>ginfohash_map := AList.update (to_infohash opts) None (ginfohash_map m)\<rparr> else m)
       in case find_running (to_infohash opts) m of
            None \<Rightarrow> (ClientRpcTaskNotExist, m, [])
          | Some a \<Rightarrow>
              (case task_at a m of
                 None \<Rightarrow> (ClientRpcTaskNotExist, m, [])
               | Some t \<Rightarrow>
                   (case GroupSetOptions opts t of
                      (ok, t, eff) \<Rightarrow> (if ok then ClientRpcSuccess else ClientRpcSetOptFailed, set_task a t m, eff))))"

definition int_setting :: "string \<Rightarrow> (string, setting) assoc \<Rightarrow> int" where
  "int_setting k s = (case map_of s k of Some (SInt i) \<Rightarrow> i | _ \<Rightarrow> 0)"

definition GetTaskOptions :: "(nat \<Rightarrow> int \<times> int \<times> int) \<Rightarrow> string \<Rightarrow> GroupManager \<Rightarrow> TaskOptions list option" where
  "GetTaskOptions limits infohash m =
    (if infohash = [] then
       Some [\<lparr>to_infohash = [], to_download_limit = int_setting ''download_rate_limit'' (session m),
              to_upload_limit = int_setting ''upload_rate_limit'' (session m),
              to_connections_limit = int_setting ''connections_limit'' (session m)\<rparr>]
     else case find_running infohash m of
            None \<Rightarrow> None
          | Some a \<Rightarrow>
              (case task_at a m of
                 None \<Rightarrow> None
               | Some t \<Rightarrow> Some [GroupGetOptions (case torrent_handle t of None \<Rightarrow> (0, 0, 0) | Some h \<Rightarrow> limits h) t]))"

subsection \<open>Shutdown and the timer\<close>

text \<open>The finished list's file: a dictionary of the tasks' states, deleted when there are none.\<close>

definition GenerateFinishedListResumeFile :: "(string \<Rightarrow> bool) \<Rightarrow> GroupManager \<Rightarrow> GroupManager \<times> group_effect list" where
  "GenerateFinishedListResumeFile opens m =
    (if \<not> finished_infohash_list_changed m then (m, [])
     else
       let m = m\<lparr>finished_infohash_list_changed := False\<rparr> in
       if finished_infohash_list m = [] then (m, [GUnlink (finished_file m)])
       else if \<not> opens (finished_file m) then (m, [])
       else (m, [GWriteFinished (finished_file m)
               (foldl (\<lambda>d (h, a). case task_at a m of None \<Rightarrow> d | Some t \<Rightarrow> AList.update h (task_status t) d)
                  [] (finished_infohash_list m))]))"

fun release_all :: "(string \<Rightarrow> bool) \<Rightarrow> task_ref list \<Rightarrow> GroupManager \<Rightarrow> GroupManager \<times> group_effect list" where
  "release_all opens [] m = (m, [])"
| "release_all opens (a # as) m =
    (let (m, eff) = release_task opens a m; (m, eff2) = release_all opens as m in (m, eff @ eff2))"

text \<open>Clearing the three containers in order destroys first the finished tasks, then the running ones.\<close>

definition Shutdown :: "(string \<Rightarrow> bool) \<Rightarrow> GroupManager \<Rightarrow> GroupManager \<times> group_effect list" where
  "Shutdown opens m =
    (let e1 = concat (map (\<lambda>(h, a). case h of None \<Rightarrow> [] | Some h \<Rightarrow> [GRemoveTorrent h]) (gtorrent_map m));
         (m, e2) = GenerateFinishedListResumeFile opens m;
         fin = map snd (finished_infohash_list m);
         (m, e3) = release_all opens fin (m\<lparr>finished_infohash_list := []\<rparr>);
         inf = running_refs m;
         (m, e4) = release_all opens inf (m\<lparr>ginfohash_map := []\<rparr>);
         tor = map snd (gtorrent_map m);
         (m, e5) = release_all opens tor (m\<lparr>gtorrent_map := []\<rparr>)
     in (m\<lparr>stopped := True\<rparr>, e1 @ e2 @ e3 @ e4 @ e5 @ [GStopServer]))"

fun hang_check_each :: "group_env \<Rightarrow> task_ref list \<Rightarrow> GroupManager \<Rightarrow> (GroupManager \<times> group_effect list) option" where
  "hang_check_each e [] m = Some (m, [])"
| "hang_check_each e (a # as) m =
    (case task_at a m of
       None \<Rightarrow> hang_check_each e as m
     | Some t \<Rightarrow>
         (case after_callback e False a
                 (HangCheckCallback \<lparr>he_now = ge_now e, he_have_seed = ge_have_seed e, he_rss_mb = ge_rss_mb e\<rparr>
                    (task_ts e t) t) m of
            None \<Rightarrow> None
          | Some (m, eff) \<Rightarrow> map_option (\<lambda>(m, eff2). (m, eff @ eff2)) (hang_check_each e as m)))"

definition finished_expired :: "int \<Rightarrow> int \<Rightarrow> GroupTask \<Rightarrow> bool" where
  "finished_expired now timeout t \<longleftrightarrow> now - tk_end_time (task_status t) > timeout \<and> timeout \<noteq> -1"

text \<open>The loop over the finished list, \<open>kept\<close> being the part before the iterator. After erasing the last
  entry the log line reads the end iterator.\<close>

fun expire_loop ::
  "group_env \<Rightarrow> (string \<times> task_ref) list \<Rightarrow> (string \<times> task_ref) list \<Rightarrow> GroupManager \<Rightarrow>
   (GroupManager \<times> group_effect list) option" where
  "expire_loop e kept [] m = Some (m, [])"
| "expire_loop e kept (p # ps) m =
    (case task_at (snd p) m of
       None \<Rightarrow> expire_loop e (kept @ [p]) ps m
     | Some t \<Rightarrow>
         if finished_expired (ge_now e) (finished_timeout (config m)) t then
           (if ps = [] then None
            else
              let m = m\<lparr>finished_infohash_list := kept @ ps, finished_infohash_list_changed := True\<rparr>;
                  (m, eff) = release_task (ge_opens e) (snd p) m
              in map_option (\<lambda>(m, eff2). (m, eff @ eff2)) (expire_loop e kept ps m))
         else expire_loop e (kept @ [p]) ps m)"

record conf_env =
  fe_cwd :: string
  fe_conf_file :: string
  fe_mtime :: int
  fe_parsed :: "GroupConfig option"
  fe_base :: "(string, setting) assoc"

definition check_conf_file :: "group_env \<Rightarrow> conf_env \<Rightarrow> GroupManager \<Rightarrow> (GroupManager \<times> group_effect list) option" where
  "check_conf_file e f m =
    (if \<not> (fe_mtime f > last_conf_file_modify_time m \<or> fe_mtime f = -1) then Some (m, [])
     else case LoadGroupConfig (fe_cwd f) (fe_conf_file f) (fe_parsed f) (config m) of
            None \<Rightarrow> None
          | Some (ret, c) \<Rightarrow>
              if ret = 0 then
                let s = SetSessionSettings (fe_base f) c
                in Some (m\<lparr>config := c, last_conf_file_modify_time := fe_mtime f, session := s, conf_failed_times := 0\<rparr>,
                         [GSetSession s])
              else
                let m = m\<lparr>conf_failed_times := conf_failed_times m + 1\<rparr>
                in if conf_failed_times m \<ge> 5 then Some (Shutdown (ge_opens e) m) else Some (m, []))"

definition check_group_timeout :: "group_env \<Rightarrow> GroupManager \<Rightarrow> GroupManager \<times> group_effect list" where
  "check_group_timeout e m =
    (if group_timeout (config m) > 0 then
       let m = m\<lparr>last_check_timeout := last_check_timeout m + 3\<rparr>
       in if last_check_timeout m \<ge> group_timeout (config m) then Shutdown (ge_opens e) m else (m, [])
     else (m, []))"

definition TimerCallback :: "group_env \<Rightarrow> conf_env \<Rightarrow> bool \<Rightarrow> GroupManager \<Rightarrow> (GroupManager \<times> group_effect list) option" where
  "TimerCallback e f ec m =
    (if ec then Some (m, [])
     else case hang_check_each e (running_refs m) m of
            None \<Rightarrow> None
          | Some (m, e1) \<Rightarrow>
              (case expire_loop e [] (finished_infohash_list m) m of
                 None \<Rightarrow> None
               | Some (m, e2) \<Rightarrow>
                   (case GenerateFinishedListResumeFile (ge_opens e) m of (m, e3) \<Rightarrow>
                    case check_group_timeout e m of (m, e4) \<Rightarrow>
                    map_option (\<lambda>(m, e5). (m, e1 @ e2 @ e3 @ e4 @ e5)) (check_conf_file e f m))))"

subsection \<open>Alerts\<close>

definition GetTaskByTorrentHandle :: "nat \<Rightarrow> GroupManager \<Rightarrow> task_ref option" where
  "GetTaskByTorrentHandle h m = map_of (gtorrent_map m) (Some h)"

datatype group_alert =
    ListenFailed bool
  | TorrentFinished nat nat bool
  | StateChanged nat group_torrent_state "(torrent_meta \<times> cluster_config_entry) option" bool bool
  | MetadataReceived nat torrent_meta "string \<Rightarrow> string \<Rightarrow> bool"
  | StorageMoved nat bool
  | HashFailed nat nat
  | SaveResumeData nat string
  | OtherAlert

text \<open>The alert handlers. \<open>ListenFailed\<close> says whether it concerns the group's own port.\<close>

definition handle_alert :: "group_env \<Rightarrow> group_alert \<Rightarrow> GroupManager \<Rightarrow> (GroupManager \<times> group_effect list) option" where
  "handle_alert e al m =
    (let on_task = (\<lambda>h k. case GetTaskByTorrentHandle h m of None \<Rightarrow> Some (m, [])
                      | Some a \<Rightarrow> (case task_at a m of None \<Rightarrow> Some (m, []) | Some t \<Rightarrow> k a t));
         rate = limit_of (config m) UploadRateLimit
     in case al of
          ListenFailed own \<Rightarrow> Some (if own then Shutdown (ge_opens e) m else (m, []))
        | TorrentFinished h num_pieces ok \<Rightarrow> on_task h (\<lambda>a t.
            case GroupOnTorrentFinished (ge_now e) rate num_pieces ok (task_ts e t) t of (r, t, eff) \<Rightarrow> Some (set_task a t m, eff))
        | StateChanged h st ti syms_ok start_ok \<Rightarrow> on_task h (\<lambda>a t.
            after_callback e False a (OnStateChanged (ge_now e) syms_ok start_ok st ti t) m)
        | MetadataReceived h ti matches \<Rightarrow> on_task h (\<lambda>a t.
            case OnMetadataReceived matches (ge_opens e) (ge_now e) ti t of (t', eff) \<Rightarrow>
              map_option (\<lambda>m. (m, eff))
                (if is_torrent_url t then UpdateInfohashByTorrentUrl (dp_torrent_url (params t')) (g_infohash t') (set_task a t' m)
                 else Some (set_task a t' m)))
        | StorageMoved h ok \<Rightarrow> on_task h (\<lambda>a t.
            case OnStorageMoved rate ok (task_ts e t) t of (r, t, eff) \<Rightarrow> Some (set_task a t m, eff))
        | HashFailed h piece \<Rightarrow> on_task h (\<lambda>a t. Some (m, OnHashFailed piece t))
        | SaveResumeData h bytes \<Rightarrow> on_task h (\<lambda>a t. Some (m, OnSaveResumeData (ge_opens e) bytes t))
        | OtherAlert \<Rightarrow> Some (m, []))"

text \<open>A task's own timers.\<close>

definition task_timer :: "group_env \<Rightarrow> bool \<Rightarrow> bool \<Rightarrow> task_ref \<Rightarrow> GroupManager \<Rightarrow> (GroupManager \<times> group_effect list) option" where
  "task_timer e seeding ec a m =
    (case task_at a m of
       None \<Rightarrow> Some (m, [])
     | Some t \<Rightarrow>
         (case (if seeding then GroupSeedingTimerCallback ec t else TimeoutTimerCallback ec (task_ts e t) t) of
            (t, remove) \<Rightarrow> after_callback e False a (t, [], remove) m))"

end
