(* ===== verification/GroupManagerInv.thy ===== *)
theory GroupManagerInv
  imports GroupManager
begin

text \<open>
  The consistency of the manager's maps: a task that runs is filed under its info hash and under its handle, a
  finished one under neither. Every handler of \<open>GroupManager\<close> keeps it, and with it no handler that looks a
  task up by its own info hash reads past the end of the map.
\<close>

subsection \<open>The invariant\<close>

definition running :: "task_ref \<Rightarrow> GroupManager \<Rightarrow> bool" where
  "running a m \<longleftrightarrow> (\<exists>i. map_of (ginfohash_map m) i = Some (Some a))"

definition finished_refs :: "GroupManager \<Rightarrow> task_ref set" where
  "finished_refs m = snd ` set (finished_infohash_list m)"

definition by_infohash :: "GroupManager \<Rightarrow> bool" where
  "by_infohash m \<longleftrightarrow> (\<forall>i a. map_of (ginfohash_map m) i = Some (Some a) \<longrightarrow>
     (\<exists>t. task_at a m = Some t \<and> g_infohash t = i \<and> map_of (gtorrent_map m) (torrent_handle t) = Some a))"

definition by_handle :: "GroupManager \<Rightarrow> bool" where
  "by_handle m \<longleftrightarrow> (\<forall>h a. map_of (gtorrent_map m) h = Some a \<longrightarrow>
     (\<exists>t. task_at a m = Some t \<and> torrent_handle t = h \<and> map_of (ginfohash_map m) (g_infohash t) = Some (Some a)))"

definition gm_inv :: "GroupManager \<Rightarrow> bool" where
  "gm_inv m \<longleftrightarrow> distinct (map fst (theap m)) \<and> distinct (map fst (ginfohash_map m)) \<and> distinct (map fst (gtorrent_map m)) \<and>
     (\<forall>a. next_ref m \<le> a \<longrightarrow> task_at a m = None) \<and> by_infohash m \<and> by_handle m \<and>
     (\<forall>a \<in> finished_refs m. task_at a m \<noteq> None \<and> \<not> running a m) \<and> distinct (map snd (finished_infohash_list m))"

lemma gm_inv_fields [simp]:
  "gm_inv (m\<lparr>finished_infohash_list_changed := b\<rparr>) = gm_inv m" "gm_inv (m\<lparr>config := c\<rparr>) = gm_inv m"
  "gm_inv (m\<lparr>session := s\<rparr>) = gm_inv m" "gm_inv (m\<lparr>last_check_timeout := i\<rparr>) = gm_inv m"
  "gm_inv (m\<lparr>last_conf_file_modify_time := i\<rparr>) = gm_inv m" "gm_inv (m\<lparr>conf_failed_times := i\<rparr>) = gm_inv m"
  "gm_inv (m\<lparr>stopped := b\<rparr>) = gm_inv m"
  by (simp_all add: gm_inv_def task_at_def running_def finished_refs_def by_infohash_def by_handle_def)

lemma task_at_set_task [simp]: "task_at x (set_task a t m) = (if x = a then Some t else task_at x m)"
  by (simp add: task_at_def set_task_def)

lemma set_task_fields [simp]:
  "ginfohash_map (set_task a t m) = ginfohash_map m" "gtorrent_map (set_task a t m) = gtorrent_map m"
  "finished_infohash_list (set_task a t m) = finished_infohash_list m" "next_ref (set_task a t m) = next_ref m"
  "config (set_task a t m) = config m" "running x (set_task a t m) = running x m"
  "finished_refs (set_task a t m) = finished_refs m"
  by (simp_all add: set_task_def running_def finished_refs_def)

lemma by_infohashD: "gm_inv m \<Longrightarrow> map_of (ginfohash_map m) i = Some (Some a) \<Longrightarrow>
   \<exists>t. task_at a m = Some t \<and> g_infohash t = i \<and> map_of (gtorrent_map m) (torrent_handle t) = Some a"
  unfolding gm_inv_def by_infohash_def by blast

lemma by_handleD: "gm_inv m \<Longrightarrow> map_of (gtorrent_map m) h = Some a \<Longrightarrow>
   \<exists>t. task_at a m = Some t \<and> torrent_handle t = h \<and> map_of (ginfohash_map m) (g_infohash t) = Some (Some a)"
  unfolding gm_inv_def by_handle_def by blast

text \<open>Objects may be added or dropped that no map knows.\<close>

lemma gm_inv_objects:
  assumes inv: "gm_inv m"
    and same: "ginfohash_map m' = ginfohash_map m" "gtorrent_map m' = gtorrent_map m"
      "finished_infohash_list m' = finished_infohash_list m"
    and at: "\<And>x. running x m \<or> x \<in> finished_refs m \<Longrightarrow> task_at x m' = task_at x m"
    and heap: "distinct (map fst (theap m'))" "\<And>x. next_ref m' \<le> x \<Longrightarrow> task_at x m' = None"
  shows "gm_inv m'"
proof -
  have r: "running x m' = running x m" "finished_refs m' = finished_refs m" for x
    by (simp_all add: running_def finished_refs_def same)
  have "by_infohash m'"
    unfolding by_infohash_def same
  proof (intro allI impI)
    fix i a assume i: "map_of (ginfohash_map m) i = Some (Some a)"
    then have "task_at a m' = task_at a m" by (intro at) (auto simp: running_def)
    then show "\<exists>t. task_at a m' = Some t \<and> g_infohash t = i \<and> map_of (gtorrent_map m) (torrent_handle t) = Some a"
      using by_infohashD [OF inv i] by simp
  qed
  moreover have "by_handle m'"
    unfolding by_handle_def same
  proof (intro allI impI)
    fix h a assume "map_of (gtorrent_map m) h = Some a"
    note d = by_handleD [OF inv this]
    then have "task_at a m' = task_at a m" by (intro at) (auto simp: running_def)
    then show "\<exists>t. task_at a m' = Some t \<and> torrent_handle t = h \<and> map_of (ginfohash_map m) (g_infohash t) = Some (Some a)"
      using d by simp
  qed
  ultimately show ?thesis using inv heap at unfolding gm_inv_def same r by auto
qed

text \<open>What identifies a task.\<close>

definition same_id :: "GroupTask \<Rightarrow> GroupTask \<Rightarrow> bool" where
  "same_id t t' \<longleftrightarrow> g_infohash t' = g_infohash t \<and> torrent_handle t' = torrent_handle t"

lemma same_id_refl [simp]: "same_id t t"
  by (simp add: same_id_def)

lemma same_id_trans: "same_id t u \<Longrightarrow> same_id u v \<Longrightarrow> same_id t v"
  by (simp add: same_id_def)

lemma gm_inv_set_task:
  assumes inv: "gm_inv m" and a: "task_at a m = Some t" and same: "same_id t t'"
  shows "gm_inv (set_task a t' m)"
proof -
  have "by_infohash (set_task a t' m)"
    using inv a same unfolding gm_inv_def by_infohash_def same_id_def by fastforce
  moreover have "by_handle (set_task a t' m)"
    using inv a same unfolding gm_inv_def by_handle_def same_id_def by fastforce
  moreover have "next_ref m \<le> x \<Longrightarrow> task_at x (set_task a t' m) = None" for x
    using inv a by (auto simp: gm_inv_def)
  moreover have "distinct (map fst (theap (set_task a t' m)))" using inv by (simp add: gm_inv_def set_task_def)
  ultimately show ?thesis using inv by (auto simp: gm_inv_def)
qed

lemma running_task: "gm_inv m \<Longrightarrow> running a m \<Longrightarrow> \<exists>t. task_at a m = Some t \<and>
   map_of (ginfohash_map m) (g_infohash t) = Some (Some a) \<and> map_of (gtorrent_map m) (torrent_handle t) = Some a"
  unfolding gm_inv_def running_def by_infohash_def by blast

subsection \<open>The abstract specification\<close>

text \<open>
  What the manager promises: a map from info hashes to running tasks, the finished tasks in the order they ended,
  and the info hashes that a null entry keeps from being added.
\<close>

record group_spec =
  sp_running :: "string \<Rightarrow> task_ref option"
  sp_reserved :: "string set"
  sp_finished :: "(string \<times> task_ref) list"

inductive spec_step :: "group_spec \<Rightarrow> group_spec \<Rightarrow> bool" where
  sp_add: "i \<noteq> [] \<Longrightarrow> sp_running s i = None \<Longrightarrow> i \<notin> sp_reserved s \<Longrightarrow>
    spec_step s (s\<lparr>sp_running := (sp_running s)(i \<mapsto> a)\<rparr>)"
| sp_finish: "sp_running s i = Some a \<Longrightarrow>
    spec_step s (s\<lparr>sp_running := (sp_running s)(i := None), sp_finished := sp_finished s @ [(i, a)]\<rparr>)"
| sp_rename: "sp_running s u = Some a \<Longrightarrow> sp_running s i = None \<Longrightarrow> i \<notin> sp_reserved s \<Longrightarrow>
    spec_step s (s\<lparr>sp_running := (sp_running s)(u := None, i \<mapsto> a)\<rparr>)"
| sp_reserve: "sp_running s i = None \<Longrightarrow> spec_step s (s\<lparr>sp_reserved := insert i (sp_reserved s)\<rparr>)"
| sp_expire: "sp_finished s = ps @ p # qs \<Longrightarrow> spec_step s (s\<lparr>sp_finished := ps @ qs\<rparr>)"
| sp_load: "sp_finished s = [] \<Longrightarrow> spec_step s (s\<lparr>sp_finished := l\<rparr>)"
| sp_clear: "spec_step s \<lparr>sp_running = (\<lambda>i. None), sp_reserved = {}, sp_finished = []\<rparr>"

definition abs_group :: "GroupManager \<Rightarrow> group_spec" where
  "abs_group m = \<lparr>sp_running = (\<lambda>i. find_running i m), sp_reserved = {i. map_of (ginfohash_map m) i = Some None},
     sp_finished = finished_infohash_list m\<rparr>"

lemma abs_group_cong:
  "ginfohash_map m' = ginfohash_map m \<Longrightarrow> finished_infohash_list m' = finished_infohash_list m \<Longrightarrow> abs_group m' = abs_group m"
  by (simp add: abs_group_def find_running_def)

lemma abs_set_task [simp]: "abs_group (set_task a t m) = abs_group m"
  by (rule abs_group_cong) (simp_all add: set_task_def)

lemma find_running_eq: "find_running i m = Some a \<longleftrightarrow> map_of (ginfohash_map m) i = Some (Some a)"
  by (auto simp: find_running_def split: option.splits)

subsection \<open>Objects\<close>

lemma referenced_running:
  assumes "gm_inv m"
  shows "referenced a m \<longleftrightarrow> running a m \<or> a \<in> finished_refs m"
proof -
  have "Some a \<in> snd ` set (ginfohash_map m) \<longleftrightarrow> running a m"
    using assms unfolding gm_inv_def running_def by (force simp: map_of_eq_Some_iff)
  moreover have "a \<in> snd ` set (gtorrent_map m) \<Longrightarrow> running a m"
    using assms unfolding gm_inv_def running_def by_handle_def by (force simp: map_of_eq_Some_iff)
  ultimately show ?thesis by (auto simp: referenced_def finished_refs_def)
qed

lemma gm_inv_delete_object:
  assumes inv: "gm_inv m" and free: "\<not> running a m" "a \<notin> finished_refs m"
  shows "gm_inv (m\<lparr>theap := AList.delete a (theap m)\<rparr>)"
proof -
  have at: "task_at x (m\<lparr>theap := AList.delete a (theap m)\<rparr>) = (if x = a then None else task_at x m)" for x
    by (simp add: task_at_def)
  show ?thesis
    using inv free by (intro gm_inv_objects [OF inv]) (auto simp: at gm_inv_def)
qed

lemma release_task_inv: "gm_inv m \<Longrightarrow> gm_inv (fst (release_task opens a m))"
  by (auto simp: release_task_def referenced_running gm_inv_delete_object split: option.split)

lemma release_task_fields:
  "ginfohash_map (fst (release_task opens a m)) = ginfohash_map m" "gtorrent_map (fst (release_task opens a m)) = gtorrent_map m"
  "finished_infohash_list (fst (release_task opens a m)) = finished_infohash_list m"
  "config (fst (release_task opens a m)) = config m"
  by (simp_all add: release_task_def split: option.split)

lemma release_all_inv: "gm_inv m \<Longrightarrow> gm_inv (fst (release_all opens as m))"
proof (induction "as" arbitrary: m)
  case (Cons a "as")
  obtain m1 e1 where r: "release_task opens a m = (m1, e1)" by force
  then have "gm_inv m1" using release_task_inv [OF Cons.prems, of opens a] by simp
  then show ?case using Cons.IH [of m1] r by (auto split: prod.splits)
qed simp

lemma gm_inv_new_ref:
  assumes "gm_inv m"
  shows "gm_inv (snd (new_ref t m))" "fst (new_ref t m) = next_ref m" "task_at (next_ref m) (snd (new_ref t m)) = Some t"
    "\<not> running (next_ref m) (snd (new_ref t m))" "next_ref m \<notin> finished_refs (snd (new_ref t m))"
    "ginfohash_map (snd (new_ref t m)) = ginfohash_map m" "gtorrent_map (snd (new_ref t m)) = gtorrent_map m"
    "finished_infohash_list (snd (new_ref t m)) = finished_infohash_list m"
proof -
  let ?m = "snd (new_ref t m)"
  have none: "task_at (next_ref m) m = None" using assms by (simp add: gm_inv_def)
  have at: "task_at x ?m = (if x = next_ref m then Some t else task_at x m)" for x by (simp add: task_at_def new_ref_def)
  have run: "running x ?m = running x m" "finished_refs ?m = finished_refs m" for x
    by (simp_all add: new_ref_def running_def finished_refs_def)
  have nr: "\<not> running (next_ref m) m" using running_task [OF assms, of "next_ref m"] none by auto
  have nf: "next_ref m \<notin> finished_refs m" using assms none by (auto simp: gm_inv_def)
  have "running x m \<or> x \<in> finished_refs m \<Longrightarrow> x \<noteq> next_ref m" for x using nr nf by auto
  then show "gm_inv ?m"
    using assms by (intro gm_inv_objects [OF assms]) (auto simp: at gm_inv_def, simp_all add: new_ref_def)
  show "\<not> running (next_ref m) ?m" "next_ref m \<notin> finished_refs ?m" using nr nf run by simp_all
qed (simp_all add: new_ref_def task_at_def)

subsection \<open>The map operations\<close>

lemma gm_invI:
  assumes "distinct (map fst (theap m))" "distinct (map fst (ginfohash_map m))" "distinct (map fst (gtorrent_map m))"
    and "\<And>a. next_ref m \<le> a \<Longrightarrow> task_at a m = None"
    and "\<And>i a. map_of (ginfohash_map m) i = Some (Some a) \<Longrightarrow>
      \<exists>t. task_at a m = Some t \<and> g_infohash t = i \<and> map_of (gtorrent_map m) (torrent_handle t) = Some a"
    and "\<And>h a. map_of (gtorrent_map m) h = Some a \<Longrightarrow>
      \<exists>t. task_at a m = Some t \<and> torrent_handle t = h \<and> map_of (ginfohash_map m) (g_infohash t) = Some (Some a)"
    and "\<And>a. a \<in> finished_refs m \<Longrightarrow> task_at a m \<noteq> None \<and> \<not> running a m" "distinct (map snd (finished_infohash_list m))"
  shows "gm_inv m"
  using assms unfolding gm_inv_def by_infohash_def by_handle_def by blast

lemma gm_inv_distinct:
  assumes "gm_inv m"
  shows "distinct (map fst (theap m))" "distinct (map fst (ginfohash_map m))" "distinct (map fst (gtorrent_map m))"
    "distinct (map snd (finished_infohash_list m))" "next_ref m \<le> a \<Longrightarrow> task_at a m = None"
    "a \<in> finished_refs m \<Longrightarrow> task_at a m \<noteq> None \<and> \<not> running a m"
  using assms by (simp_all add: gm_inv_def)

lemma AddTaskToMap_inv:
  assumes inv: "gm_inv m" and a: "task_at a m = Some t" "\<not> running a m" "a \<notin> finished_refs m"
    and fresh: "map_of (gtorrent_map m) (torrent_handle t) = None"
  shows "gm_inv (snd (AddTaskToMap a t m))"
proof (cases "AddTaskToMap a t m = (ClientRpcAddTaskExist, m)")
  case True
  then show ?thesis using inv by simp
next
  case False
  let ?m = "m\<lparr>ginfohash_map := AList.update (g_infohash t) (Some a) (ginfohash_map m),
     gtorrent_map := AList.update (torrent_handle t) a (gtorrent_map m)\<rparr>"
  have new: "map_of (ginfohash_map m) (g_infohash t) = None" "snd (AddTaskToMap a t m) = ?m"
    using False by (auto simp: AddTaskToMap_def split: if_splits)
  have at: "task_at x ?m = task_at x m" for x by (simp add: task_at_def)
  have "gm_inv ?m"
  proof (rule gm_invI)
    fix i b assume i: "map_of (ginfohash_map ?m) i = Some (Some b)"
    show "\<exists>u. task_at b ?m = Some u \<and> g_infohash u = i \<and> map_of (gtorrent_map ?m) (torrent_handle u) = Some b"
    proof (cases "i = g_infohash t")
      case True
      then show ?thesis using i a(1) by (auto intro!: exI [of _ t] simp: task_at_def)
    next
      case False
      then have i2: "map_of (ginfohash_map m) i = Some (Some b)" using i by simp
      from by_infohashD [OF inv this] obtain u where
        u: "task_at b m = Some u" "g_infohash u = i" "map_of (gtorrent_map m) (torrent_handle u) = Some b" by blast
      then show ?thesis using fresh by (auto simp: at)
    qed
  next
    fix h b assume h: "map_of (gtorrent_map ?m) h = Some b"
    show "\<exists>u. task_at b ?m = Some u \<and> torrent_handle u = h \<and> map_of (ginfohash_map ?m) (g_infohash u) = Some (Some b)"
    proof (cases "h = torrent_handle t")
      case True
      then show ?thesis using h a(1) by (auto intro!: exI [of _ t] simp: task_at_def)
    next
      case False
      then have "map_of (gtorrent_map m) h = Some b" using h by simp
      from by_handleD [OF inv this] obtain u where
        "task_at b m = Some u" "torrent_handle u = h" "map_of (ginfohash_map m) (g_infohash u) = Some (Some b)" by blast
      then show ?thesis using new(1) by (auto simp: at)
    qed
  next
    fix b assume "b \<in> finished_refs ?m"
    then have b: "b \<in> finished_refs m" "b \<noteq> a" using a(3) by (auto simp: finished_refs_def)
    then show "task_at b ?m \<noteq> None \<and> \<not> running b ?m"
      using gm_inv_distinct(6) [OF inv b(1)] by (auto simp: at running_def)
  qed (use inv in \<open>simp_all add: gm_inv_def at\<close>)
  then show ?thesis using new(2) by simp
qed

text \<open>Moving a running task to the finished list.\<close>

lemma RemoveTorrentTmp_running:
  assumes inv: "gm_inv m" and a: "running a m" "task_at a m = Some t"
  shows "\<exists>m'. RemoveTorrentTmp (torrent_handle t) (g_infohash t) m = Some m' \<and> gm_inv m' \<and>
    (\<forall>x. running x m' \<longleftrightarrow> running x m \<and> x \<noteq> a) \<and> finished_refs m' = insert a (finished_refs m) \<and>
    (\<forall>x. task_at x m' = task_at x m) \<and> config m' = config m \<and> spec_step (abs_group m) (abs_group m')"
proof -
  have i: "map_of (ginfohash_map m) (g_infohash t) = Some (Some a)" "map_of (gtorrent_map m) (torrent_handle t) = Some a"
    using running_task [OF inv a(1)] a(2) by auto
  let ?m = "m\<lparr>finished_infohash_list := finished_infohash_list m @ [(g_infohash t, a)],
                 finished_infohash_list_changed := True,
                 ginfohash_map := AList.delete (g_infohash t) (ginfohash_map m),
                 gtorrent_map := AList.delete (torrent_handle t) (gtorrent_map m)\<rparr>"
  have at: "task_at x ?m = task_at x m" for x by (simp add: task_at_def)
  have only: "map_of (ginfohash_map m) j = Some (Some a) \<Longrightarrow> j = g_infohash t" for j
    using by_infohashD [OF inv, of j a] a(2) by auto
  have mp: "map_of (ginfohash_map ?m) j = (if j = g_infohash t then None else map_of (ginfohash_map m) j)" for j by simp
  have run: "running x ?m \<longleftrightarrow> running x m \<and> x \<noteq> a" for x
    using only i(1) unfolding running_def mp by (metis option.inject option.distinct(1))
  have fin: "finished_refs ?m = insert a (finished_refs m)" by (simp add: finished_refs_def)
  have "gm_inv ?m"
  proof (rule gm_invI)
    fix j b assume "map_of (ginfohash_map ?m) j = Some (Some b)"
    then have j: "map_of (ginfohash_map m) j = Some (Some b)" "j \<noteq> g_infohash t" by (auto split: if_splits)
    from by_infohashD [OF inv j(1)] obtain u where
      u: "task_at b m = Some u" "g_infohash u = j" "map_of (gtorrent_map m) (torrent_handle u) = Some b" by blast
    have "torrent_handle u \<noteq> torrent_handle t" using u j(2) i(2) a(2) by auto
    then show "\<exists>u. task_at b ?m = Some u \<and> g_infohash u = j \<and> map_of (gtorrent_map ?m) (torrent_handle u) = Some b"
      using u by (auto simp: at)
  next
    fix h b assume "map_of (gtorrent_map ?m) h = Some b"
    then have h: "map_of (gtorrent_map m) h = Some b" "h \<noteq> torrent_handle t" by (auto split: if_splits)
    from by_handleD [OF inv h(1)] obtain u where
      u: "task_at b m = Some u" "torrent_handle u = h" "map_of (ginfohash_map m) (g_infohash u) = Some (Some b)" by blast
    have "g_infohash u \<noteq> g_infohash t" using u h(2) i(1) a(2) by auto
    then show "\<exists>u. task_at b ?m = Some u \<and> torrent_handle u = h \<and> map_of (ginfohash_map ?m) (g_infohash u) = Some (Some b)"
      using u by (auto simp: at)
  next
    fix b assume "b \<in> finished_refs ?m"
    then show "task_at b ?m \<noteq> None \<and> \<not> running b ?m"
      unfolding fin at run using gm_inv_distinct(6) [OF inv, of b] a(2) by auto
  next
    show "distinct (map snd (finished_infohash_list ?m))"
      using gm_inv_distinct(4) [OF inv] gm_inv_distinct(6) [OF inv, of a] a(1) by (auto simp: finished_refs_def)
  qed (use inv in \<open>simp_all add: gm_inv_def at\<close>)
  moreover have "RemoveTorrentTmp (torrent_handle t) (g_infohash t) m = Some ?m"
    by (simp add: RemoveTorrentTmp_def i)
  moreover have "spec_step (abs_group m) (abs_group ?m)"
  proof -
    have f: "find_running j ?m = (if j = g_infohash t then None else find_running j m)" for j
      unfolding find_running_def mp by simp
    have "abs_group ?m = (abs_group m)\<lparr>sp_running := (sp_running (abs_group m))(g_infohash t := None),
        sp_finished := sp_finished (abs_group m) @ [(g_infohash t, a)]\<rparr>"
      unfolding abs_group_def f mp using i(1) by (auto simp: fun_eq_iff)
    moreover have "sp_running (abs_group m) (g_infohash t) = Some a" using i(1) by (simp add: abs_group_def find_running_eq)
    ultimately show ?thesis using sp_finish by metis
  qed
  ultimately show ?thesis using at run fin by auto
qed

text \<open>A URL's entry renamed to the info hash its metadata has, when no other task has it.\<close>

lemma UpdateInfohash_inv:
  assumes inv: "gm_inv m" and a: "map_of (ginfohash_map m) (g_infohash t) = Some (Some a)" "task_at a m = Some t"
    and t': "torrent_handle t' = torrent_handle t" "g_infohash t' = infohash" "g_infohash t \<noteq> []" "length infohash = 40"
    and new: "map_of (ginfohash_map m) infohash = None \<or> infohash = g_infohash t"
  shows "\<exists>m'. UpdateInfohashByTorrentUrl (g_infohash t) infohash (set_task a t' m) = Some m' \<and>
    (infohash \<noteq> g_infohash t \<longrightarrow> gm_inv m' \<and> finished_refs m' = finished_refs m \<and> (\<forall>x. running x m' = running x m) \<and>
      spec_step (abs_group m) (abs_group m'))"
proof -
  let ?i = "g_infohash t"
  have ih: "infohash \<noteq> []" using t'(4) by auto
  let ?m = "set_task a t' m\<lparr>ginfohash_map := AList.delete ?i
    (if map_of (ginfohash_map m) infohash = None then AList.update infohash (Some a) (ginfohash_map m) else ginfohash_map m)\<rparr>"
  have u: "UpdateInfohashByTorrentUrl ?i infohash (set_task a t' m) = Some ?m"
    using t'(3,4) ih a(1) by (simp add: UpdateInfohashByTorrentUrl_def)
  have "gm_inv ?m \<and> finished_refs ?m = finished_refs m \<and> (\<forall>x. running x ?m = running x m) \<and>
      spec_step (abs_group m) (abs_group ?m)" if ne: "infohash \<noteq> ?i"
  proof -
    have n: "map_of (ginfohash_map m) infohash = None" using new ne by simp
    have mp: "map_of (ginfohash_map ?m) j = (if j = ?i then None else if j = infohash then Some (Some a)
        else map_of (ginfohash_map m) j)" for j
      using n ne by auto
    have at: "task_at x ?m = (if x = a then Some t' else task_at x m)" for x by (simp add: task_at_def set_task_def)
    have only: "map_of (ginfohash_map m) j = Some (Some a) \<Longrightarrow> j = ?i" for j
      using by_infohashD [OF inv, of j a] a(2) by auto
    have run: "running x ?m = running x m" for x
      using n a(1) unfolding running_def mp by (metis option.inject option.distinct(1) only)
    have "gm_inv ?m"
    proof (rule gm_invI)
      fix j b assume j: "map_of (ginfohash_map ?m) j = Some (Some b)"
      show "\<exists>u. task_at b ?m = Some u \<and> g_infohash u = j \<and> map_of (gtorrent_map ?m) (torrent_handle u) = Some b"
      proof (cases "b = a")
        case True
        then have "j = infohash" using j only unfolding mp by (auto split: if_splits)
        then show ?thesis using True t' by_infohashD [OF inv a(1)] a(2) by (simp add: at)
      next
        case False
        then have "map_of (ginfohash_map m) j = Some (Some b)" using j unfolding mp by (auto split: if_splits)
        then show ?thesis using by_infohashD [OF inv] False by (simp add: at)
      qed
    next
      fix h b assume "map_of (gtorrent_map ?m) h = Some b"
      then have h: "map_of (gtorrent_map m) h = Some b" by simp
      show "\<exists>u. task_at b ?m = Some u \<and> torrent_handle u = h \<and> map_of (ginfohash_map ?m) (g_infohash u) = Some (Some b)"
      proof (cases "b = a")
        case True
        then show ?thesis using by_handleD [OF inv h] a t' ne unfolding mp at by (intro exI [of _ t']) auto
      next
        case False
        obtain u where u: "task_at b m = Some u" "torrent_handle u = h" "map_of (ginfohash_map m) (g_infohash u) = Some (Some b)"
          using by_handleD [OF inv h] by blast
        then have "g_infohash u \<noteq> infohash" "g_infohash u \<noteq> ?i" using n a(1) False by auto
        then show ?thesis using u False unfolding mp at by (intro exI [of _ u]) simp
      qed
    next
      fix b assume "b \<in> finished_refs ?m"
      then have b: "b \<in> finished_refs m" by (simp add: finished_refs_def set_task_def)
      then show "task_at b ?m \<noteq> None \<and> \<not> running b ?m"
        unfolding run at using gm_inv_distinct(6) [OF inv b] by simp
    next
      show "next_ref ?m \<le> x \<Longrightarrow> task_at x ?m = None" for x
        using gm_inv_distinct(5) [OF inv, of x] a(2) unfolding at by (auto simp: set_task_def)
      show "distinct (map snd (finished_infohash_list ?m))" using gm_inv_distinct(4) [OF inv] by (simp add: set_task_def)
    qed (use inv in \<open>auto simp: gm_inv_def set_task_def\<close>)
    moreover have "spec_step (abs_group m) (abs_group ?m)"
    proof -
      have f: "find_running j ?m = (if j = ?i then None else if j = infohash then Some a else find_running j m)" for j
        unfolding find_running_def mp by simp
      have "abs_group ?m = (abs_group m)\<lparr>sp_running := (sp_running (abs_group m))(?i := None, infohash \<mapsto> a)\<rparr>"
        unfolding abs_group_def f mp using ne a(1) n by (auto simp: fun_eq_iff set_task_def)
      moreover have "sp_running (abs_group m) ?i = Some a" "sp_running (abs_group m) infohash = None"
          "infohash \<notin> sp_reserved (abs_group m)"
        using a(1) n by (simp_all add: abs_group_def find_running_eq find_running_def)
      ultimately show ?thesis using sp_rename by metis
    qed
    ultimately show ?thesis using run by (simp add: finished_refs_def set_task_def)
  qed
  then show ?thesis using u by blast
qed

subsection \<open>Callbacks keep what identifies a task\<close>

lemma same_id_status [simp]:
  "same_id t (UpdateTaskStatus ts t)" "same_id t (remove_before now ts t)" "same_id t (remove_after now b t)"
  by (simp_all add: same_id_def UpdateTaskStatus_def remove_before_def remove_after_def Let_def)

lemma same_id_ControlTask: "ControlTask type t = (t', eff, r) \<Longrightarrow> same_id t t'"
  by (cases type) (auto simp: same_id_def)

lemma same_id_HangCheck: "HangCheckCallback e ts t = (t', eff, r) \<Longrightarrow> same_id t t'"
  by (auto simp: same_id_def HangCheckCallback_def UpdateTaskStatus_def Let_def split: if_splits)

lemma same_id_GroupToSeeding: "GroupToSeeding rate ts t = (t', eff) \<Longrightarrow> same_id t t'"
  by (auto simp: same_id_def GroupToSeeding_def UpdateTaskStatus_def Let_def split: if_splits)

lemma same_id_OnStorageMoved: "OnStorageMoved rate ok ts t = (r, t', eff) \<Longrightarrow> same_id t t'"
  by (auto simp: OnStorageMoved_def dest: same_id_GroupToSeeding split: if_splits prod.splits)

lemma same_id_GroupOnTorrentFinished: "GroupOnTorrentFinished now rate n ok ts t = (r, t', eff) \<Longrightarrow> same_id t t'"
proof -
  assume a: "GroupOnTorrentFinished now rate n ok ts t = (r, t', eff)"
  show ?thesis
    using a same_id_OnStorageMoved [of rate ok ts _ r t' eff]
    by (auto simp: GroupOnTorrentFinished_def Let_def same_id_def split: if_splits)
qed

lemma same_id_OnStateChanged: "OnStateChanged now so sk st ti t = (t', eff, r) \<Longrightarrow> same_id t t'"
  by (auto simp: same_id_def OnStateChanged_def Let_def split: if_splits)

lemma same_id_SetOptions: "GroupSetOptions opts t = (ok, t', eff) \<Longrightarrow> same_id t t'"
  by (auto simp: same_id_def GroupSetOptions_def Let_def split: if_splits)

lemma same_id_timers:
  "TimeoutTimerCallback ec ts t = (t', r) \<Longrightarrow> same_id t t'" "GroupSeedingTimerCallback ec t = (t', r) \<Longrightarrow> same_id t t'"
  by (auto simp: same_id_def TimeoutTimerCallback_def GroupSeedingTimerCallback_def split: if_splits)

lemmas same_ids = same_id_ControlTask same_id_HangCheck same_id_OnStorageMoved same_id_GroupOnTorrentFinished
  same_id_OnStateChanged same_id_SetOptions same_id_timers

lemma handle_valid_same: "same_id t t' \<Longrightarrow> handle_valid e t' = handle_valid e t"
  by (simp add: same_id_def handle_valid_def)

subsection \<open>One task's callback\<close>

text \<open>Only the task \<open>a\<close> may have changed.\<close>

definition touches :: "task_ref \<Rightarrow> GroupManager \<Rightarrow> GroupManager \<Rightarrow> bool" where
  "touches a m m' \<longleftrightarrow> gm_inv m' \<and> (\<forall>x. x \<noteq> a \<longrightarrow> running x m' = running x m \<and> task_at x m' = task_at x m) \<and>
     finished_refs m' \<subseteq> insert a (finished_refs m) \<and> config m' = config m \<and>
     spec_step\<^sup>*\<^sup>* (abs_group m) (abs_group m')"

lemma touches_set_task:
  "gm_inv m \<Longrightarrow> task_at a m = Some t \<Longrightarrow> same_id t t' \<Longrightarrow> touches a m (set_task a t' m)"
  unfolding touches_def using gm_inv_set_task by auto

lemma touches_trans: "touches a m m' \<Longrightarrow> touches a m' m'' \<Longrightarrow> touches a m m''"
  unfolding touches_def by (auto intro: rtranclp_trans)

lemma RemoveTorrentOf_touches:
  assumes inv: "gm_inv m" and a: "task_at a m = Some t" and ok: "running a m \<or> \<not> handle_valid e t"
  shows "\<exists>m' eff. RemoveTorrentOf e b a m = Some (m', eff) \<and> touches a m m'"
proof (cases "handle_valid e t")
  case False
  then show ?thesis using inv a by (auto simp: RemoveTorrentOf_def touches_def)
next
  case True
  let ?t = "remove_before (ge_now e) (task_ts e t) t"
  let ?m = "set_task a ?t m"
  have t1: "touches a m ?m" by (rule touches_set_task [OF inv a]) simp
  have run: "running a ?m" using ok True by simp
  have inv1: "gm_inv ?m" using t1 by (simp add: touches_def)
  obtain m1 where m1: "RemoveTorrentTmp (torrent_handle ?t) (g_infohash ?t) ?m = Some m1" "gm_inv m1"
      "\<forall>x. running x m1 \<longleftrightarrow> running x ?m \<and> x \<noteq> a" "finished_refs m1 = insert a (finished_refs ?m)"
      "\<forall>x. task_at x m1 = task_at x ?m" "config m1 = config ?m"
      "spec_step (abs_group ?m) (abs_group m1)"
    using RemoveTorrentTmp_running [OF inv1 run, of ?t] by auto
  have t2: "touches a ?m m1" using m1 by (auto simp: touches_def)
  have at1: "task_at a m1 = Some ?t" using m1(5) by simp
  have "touches a m1 (set_task a (remove_after (ge_now e) b ?t) m1)" by (rule touches_set_task [OF m1(2) at1]) simp
  then have "touches a m (set_task a (remove_after (ge_now e) b ?t) m1)" using t1 t2 touches_trans by blast
  then show ?thesis using a True m1(1) by (simp add: RemoveTorrentOf_def Let_def)
qed

lemma after_callback_touches:
  assumes inv: "gm_inv m" and a: "task_at a m = Some t" and same: "same_id t t'"
    and ok: "remove \<longrightarrow> running a m \<or> \<not> handle_valid e t"
  shows "\<exists>m' eff'. after_callback e b a (t', eff, remove) m = Some (m', eff') \<and> touches a m m'"
proof (cases remove)
  case False
  then show ?thesis using touches_set_task [OF inv a same] by (simp add: after_callback_def)
next
  case True
  have t1: "touches a m (set_task a t' m)" by (rule touches_set_task [OF inv a same])
  then have inv1: "gm_inv (set_task a t' m)" by (simp add: touches_def)
  have "running a (set_task a t' m) \<or> \<not> handle_valid e t'" using ok True handle_valid_same [OF same] by simp
  moreover have "task_at a (set_task a t' m) = Some t'" by simp
  ultimately obtain m' eff' where
    "RemoveTorrentOf e b a (set_task a t' m) = Some (m', eff')" "touches a (set_task a t' m) m'"
    using RemoveTorrentOf_touches [OF inv1, of a t' e b] by blast
  then show ?thesis using True touches_trans [OF t1] by (simp add: after_callback_def)
qed

text \<open>A loop over tasks that run, each visited once.\<close>

lemma control_each_ok:
  "gm_inv m \<Longrightarrow> distinct as \<Longrightarrow> \<forall>a \<in> set as. running a m \<Longrightarrow>
   \<exists>m' eff. control_each e type as m = Some (m', eff) \<and> gm_inv m' \<and> spec_step\<^sup>*\<^sup>* (abs_group m) (abs_group m')"
proof (induction "as" arbitrary: m)
  case (Cons a "as")
  obtain t where t: "task_at a m = Some t" using running_task [OF Cons.prems(1), of a] Cons.prems(3) by auto
  obtain t' eff r where c: "ControlTask type t = (t', eff, r)" by (metis prod_cases3)
  obtain m1 eff1 where m1: "after_callback e True a (t', eff, r) m = Some (m1, eff1)" "touches a m m1"
    using after_callback_touches [OF Cons.prems(1) t same_ids(1) [OF c], of r e True eff] Cons.prems(3) by auto
  have "\<forall>x \<in> set as. running x m1" using m1(2) Cons.prems(2,3) by (auto simp: touches_def)
  then obtain m2 eff2 where "control_each e type as m1 = Some (m2, eff2)" "gm_inv m2" "spec_step\<^sup>*\<^sup>* (abs_group m1) (abs_group m2)"
    using Cons.IH [of m1] m1(2) Cons.prems(2) by (auto simp: touches_def)
  moreover have "spec_step\<^sup>*\<^sup>* (abs_group m) (abs_group m1)" using m1(2) by (simp add: touches_def)
  ultimately show ?case using t c m1(1) by (auto intro: rtranclp_trans)
qed simp

lemma hang_check_each_ok:
  "gm_inv m \<Longrightarrow> distinct as \<Longrightarrow> \<forall>a \<in> set as. running a m \<Longrightarrow>
   \<exists>m' eff. hang_check_each e as m = Some (m', eff) \<and> gm_inv m' \<and> spec_step\<^sup>*\<^sup>* (abs_group m) (abs_group m')"
proof (induction "as" arbitrary: m)
  case (Cons a "as")
  obtain t where t: "task_at a m = Some t" using running_task [OF Cons.prems(1), of a] Cons.prems(3) by auto
  let ?h = "HangCheckCallback \<lparr>he_now = ge_now e, he_have_seed = ge_have_seed e, he_rss_mb = ge_rss_mb e\<rparr> (task_ts e t) t"
  obtain t' eff r where c: "?h = (t', eff, r)" by (metis prod_cases3)
  obtain m1 eff1 where m1: "after_callback e False a (t', eff, r) m = Some (m1, eff1)" "touches a m m1"
    using after_callback_touches [OF Cons.prems(1) t same_ids(2) [OF c], of r e False eff] Cons.prems(3) by auto
  have "\<forall>x \<in> set as. running x m1" using m1(2) Cons.prems(2,3) by (auto simp: touches_def)
  then obtain m2 eff2 where "hang_check_each e as m1 = Some (m2, eff2)" "gm_inv m2" "spec_step\<^sup>*\<^sup>* (abs_group m1) (abs_group m2)"
    using Cons.IH [of m1] m1(2) Cons.prems(2) by (auto simp: touches_def)
  moreover have "spec_step\<^sup>*\<^sup>* (abs_group m) (abs_group m1)" using m1(2) by (simp add: touches_def)
  ultimately show ?case using t c m1(1) by (auto intro: rtranclp_trans)
qed simp

lemma running_refs_ok:
  assumes "gm_inv m"
  shows "set (running_refs m) = {a. running a m}" "distinct (running_refs m)"
proof -
  have d: "distinct (map fst (ginfohash_map m))" using assms by (simp add: gm_inv_def)
  have mem: "(i, v) \<in> set (ginfohash_map m) \<longleftrightarrow> map_of (ginfohash_map m) i = Some v" for i v
    using d by simp
  show "set (running_refs m) = {a. running a m}"
    unfolding running_refs_def running_def mem [symmetric] set_eq_iff mem_Collect_eq set_map_filter
    by (metis prod.collapse snd_conv)
  have inj: "i = j" if "(i, Some a) \<in> set (ginfohash_map m)" "(j, Some a) \<in> set (ginfohash_map m)" for i j a
    using that unfolding mem by (metis by_infohashD [OF assms] option.inject)
  have "distinct (List.map_filter snd ps)" if "distinct (map fst ps)" "set ps \<subseteq> set (ginfohash_map m)" for ps
    using that
  proof (induction ps)
    case (Cons p ps)
    obtain i v where p: "p = (i, v)" by force
    have "a \<notin> set (List.map_filter snd ps)" if "v = Some a" for a
    proof
      assume "a \<in> set (List.map_filter snd ps)"
      then obtain j where j: "(j, Some a) \<in> set ps" by (auto simp: set_map_filter)
      then have "i = j" using Cons.prems(2) p that by (intro inj) auto
      then show False using j Cons.prems(1) p by force
    qed
    then show ?case using Cons p by (auto split: option.split)
  qed simp
  then show "distinct (running_refs m)" using d by (simp add: running_refs_def)
qed

subsection \<open>Creation\<close>

lemma create_source_handle:
  "create_source e t = Inr (t', ti, ps, eff) \<Longrightarrow> torrent_handle t' = torrent_handle t"
  by (auto simp: create_source_def SetOrgPieces_def Let_def split: if_splits option.splits)

lemma create_finish_handle: "create_finish e ti t = (ok, t', eff) \<Longrightarrow> same_id t t'"
  by (auto simp: create_finish_def same_id_def Let_def split: if_splits)

lemma CreateGroupTask_handle:
  assumes "CreateGroupTask e p c t = (True, t', eff)"
  shows "\<exists>tp h. ce_add_torrent e tp = Some h \<and> torrent_handle t' = Some h"
  using assms
  by (auto simp: CreateGroupTask_def Let_def same_id_def dest!: create_finish_handle
      split: if_splits option.splits sum.splits prod.splits)

lemma GroupCreateFromResumeFile_handle:
  "GroupCreateFromResumeFile e content t = (True, t', eff) \<Longrightarrow> \<exists>tp h. ce_add_torrent e tp = Some h \<and> torrent_handle t' = Some h"
  by (auto simp: GroupCreateFromResumeFile_def Let_def dest: CreateGroupTask_handle split: option.splits if_splits)

text \<open>The invariant holds after, and the abstract states are linked by steps of the specification.\<close>

definition evolves :: "GroupManager \<Rightarrow> GroupManager \<Rightarrow> bool" where
  "evolves m m' \<longleftrightarrow> gm_inv m' \<and> spec_step\<^sup>*\<^sup>* (abs_group m) (abs_group m')"

lemma evolves_trans: "evolves m m' \<Longrightarrow> evolves m' m'' \<Longrightarrow> evolves m m''"
  unfolding evolves_def by (auto intro: rtranclp_trans)

lemma evolves_same: "gm_inv m' \<Longrightarrow> abs_group m' = abs_group m \<Longrightarrow> evolves m m'"
  by (simp add: evolves_def)

lemma evolves_step: "gm_inv m' \<Longrightarrow> spec_step (abs_group m) (abs_group m') \<Longrightarrow> evolves m m'"
  by (simp add: evolves_def)

lemma touches_evolves: "touches a m m' \<Longrightarrow> evolves m m'"
  by (simp add: touches_def evolves_def)

lemma abs_group_fields [simp]:
  "abs_group (m\<lparr>finished_infohash_list_changed := b\<rparr>) = abs_group m" "abs_group (m\<lparr>config := c\<rparr>) = abs_group m"
  "abs_group (m\<lparr>session := v\<rparr>) = abs_group m" "abs_group (m\<lparr>last_check_timeout := k\<rparr>) = abs_group m"
  "abs_group (m\<lparr>last_conf_file_modify_time := k\<rparr>) = abs_group m" "abs_group (m\<lparr>conf_failed_times := k\<rparr>) = abs_group m"
  "abs_group (m\<lparr>stopped := b\<rparr>) = abs_group m"
  by (simp_all add: abs_group_def find_running_def)

lemma abs_release_task [simp]: "abs_group (fst (release_task opens a m)) = abs_group m"
  by (rule abs_group_cong) (simp_all add: release_task_fields)

lemma AddTaskToMap_abs:
  assumes "AddTaskToMap a t m = (ret, m')"
  shows "abs_group m' = abs_group m \<or> spec_step (abs_group m) (abs_group m')"
proof (cases "m' = m")
  case False
  then have m': "m' = m\<lparr>ginfohash_map := AList.update (g_infohash t) (Some a) (ginfohash_map m),
             gtorrent_map := AList.update (torrent_handle t) a (gtorrent_map m)\<rparr>"
    and new: "map_of (ginfohash_map m) (g_infohash t) = None" and ne: "g_infohash t \<noteq> []"
    using assms by (auto simp: AddTaskToMap_def split: if_splits)
  have f: "find_running j m' = (if j = g_infohash t then Some a else find_running j m)" for j
    by (simp add: find_running_def m')
  have "abs_group m' = (abs_group m)\<lparr>sp_running := (sp_running (abs_group m))(g_infohash t \<mapsto> a)\<rparr>"
    unfolding abs_group_def f using new by (auto simp: fun_eq_iff m')
  moreover have "sp_running (abs_group m) (g_infohash t) = None" "g_infohash t \<notin> sp_reserved (abs_group m)"
    using new by (simp_all add: abs_group_def find_running_def)
  ultimately show ?thesis using sp_add [OF ne] by metis
qed simp

text \<open>The torrent library never hands out the handle of a torrent that is still in the session.\<close>

definition fresh_handles :: "create_env \<Rightarrow> GroupManager \<Rightarrow> bool" where
  "fresh_handles e m \<longleftrightarrow> (\<forall>tp h. ce_add_torrent e tp = Some h \<longrightarrow> map_of (gtorrent_map m) (Some h) = None)"

lemma add_new_task_inv:
  assumes inv: "gm_inv m" and fresh: "map_of (gtorrent_map m) (torrent_handle t) = None"
    and n: "new_ref t m = (a, m1)" and add: "AddTaskToMap a t m1 = (ret, m2)"
  shows "evolves m (fst (release_task opens a m2))"
proof -
  have m1: "m1 = snd (new_ref t m)" "a = next_ref m" using n gm_inv_new_ref(2) [OF inv, of t] by (simp_all add: n)
  note r = gm_inv_new_ref [OF inv, of t, folded m1]
  have "gm_inv (snd (AddTaskToMap a t m1))"
    using r(1,3,4,5) fresh by (intro AddTaskToMap_inv) (simp_all add: r(7))
  then have "gm_inv (fst (release_task opens a m2))" using add by (simp add: release_task_inv)
  moreover have "abs_group m1 = abs_group m" by (rule abs_group_cong) (simp_all add: m1 new_ref_def)
  ultimately show ?thesis
    using AddTaskToMap_abs [OF add] by (auto simp: evolves_def)
qed

lemma drop_new_task_inv:
  assumes inv: "gm_inv m" and n: "new_ref t m = (a, m1)"
  shows "evolves m (fst (release_task opens a m1))"
proof (rule evolves_same)
  show "gm_inv (fst (release_task opens a m1))"
    using gm_inv_new_ref(1) [OF inv, of t] n release_task_inv [of m1 opens a] by simp
  show "abs_group (fst (release_task opens a m1)) = abs_group m"
    using gm_inv_new_ref(6,8) [OF inv, of t] n by (intro abs_group_cong) (simp_all add: release_task_fields)
qed

lemma GroupAddTask_evolves:
  assumes "gm_inv m" "fresh_handles e m" "GroupAddTask e uid p c m = (ret, m', eff)"
  shows "evolves m m'"
proof (cases "\<not> is_allow_all_add (config m) \<and> uc_uid c \<noteq> 0 \<and> uc_uid c \<noteq> group_uid m \<and> uc_uid c \<noteq> uid")
  case True
  then show ?thesis using assms by (simp add: GroupAddTask_def evolves_same)
next
  case False
  obtain ok t eff1 where c: "CreateGroupTask e p c (GroupTask_new (ce_now e)) = (ok, t, eff1)" by (metis prod_cases3)
  obtain a m1 where n: "new_ref t m = (a, m1)" by force
  obtain r m2 where ad: "AddTaskToMap a t m1 = (r, m2)" by force
  have "evolves m (fst (release_task (ce_opens e) a m2))" if ok
  proof (rule add_new_task_inv [OF assms(1) _ n ad])
    have "CreateGroupTask e p c (GroupTask_new (ce_now e)) = (True, t, eff1)" using c that by simp
    from CreateGroupTask_handle [OF this] show "map_of (gtorrent_map m) (torrent_handle t) = None"
      using assms(2) by (auto simp: fresh_handles_def)
  qed
  then show ?thesis
    using assms(3) False c n ad drop_new_task_inv [OF assms(1) n, of "ce_opens e"]
    unfolding GroupAddTask_def Let_def by (auto split: prod.splits if_splits)
qed

lemma resume_one_evolves:
  assumes "gm_inv m" "fresh_handles e m" "resume_one e f m = (m', eff)"
  shows "evolves m m'"
proof (cases "re_name f \<in> {''.'', ''..'', kFinishedResumeFileName} \<or> \<not> re_stat_ok f \<or> \<not> re_regular f")
  case True
  then show ?thesis using assms by (simp add: resume_one_def evolves_same)
next
  case False
  obtain ok t eff1 where c: "GroupCreateFromResumeFile e (re_content f) (GroupTask_new (ce_now e)) = (ok, t, eff1)"
    by (metis prod_cases3)
  obtain a m1 where n: "new_ref t m = (a, m1)" by force
  obtain r m2 where ad: "AddTaskToMap a t m1 = (r, m2)" by force
  have "evolves m (fst (release_task (ce_opens e) a m2))" if ok
  proof (rule add_new_task_inv [OF assms(1) _ n ad])
    have "GroupCreateFromResumeFile e (re_content f) (GroupTask_new (ce_now e)) = (True, t, eff1)" using c that by simp
    from GroupCreateFromResumeFile_handle [OF this] show "map_of (gtorrent_map m) (torrent_handle t) = None"
      using assms(2) by (auto simp: fresh_handles_def)
  qed
  then show ?thesis
    using assms(3) False c n ad drop_new_task_inv [OF assms(1) n, of "ce_opens e"]
    unfolding resume_one_def Let_def by (auto split: prod.splits if_splits)
qed

lemma set_finished_fields:
  "by_infohash (m\<lparr>finished_infohash_list := l\<rparr>) = by_infohash m" "by_handle (m\<lparr>finished_infohash_list := l\<rparr>) = by_handle m"
  "task_at a (m\<lparr>finished_infohash_list := l\<rparr>) = task_at a m" "running a (m\<lparr>finished_infohash_list := l\<rparr>) = running a m"
  "finished_refs (m\<lparr>finished_infohash_list := l\<rparr>) = snd ` set l"
  by (simp_all add: by_infohash_def by_handle_def task_at_def running_def finished_refs_def)

lemma gm_inv_set_finished:
  assumes "gm_inv m" "distinct (map snd l)" "\<forall>a \<in> snd ` set l. task_at a m \<noteq> None \<and> \<not> running a m"
  shows "gm_inv (m\<lparr>finished_infohash_list := l\<rparr>)"
  using assms unfolding gm_inv_def set_finished_fields by simp

lemma gm_inv_push_finished:
  assumes inv: "gm_inv m" and a: "task_at a m \<noteq> None" "\<not> running a m" "a \<notin> finished_refs m"
  shows "gm_inv (m\<lparr>finished_infohash_list := finished_infohash_list m @ [(h, a)]\<rparr>)"
  using gm_inv_distinct(4,6) [OF inv] a by (intro gm_inv_set_finished [OF inv]) (auto simp: finished_refs_def)

lemma load_finished_inv: "gm_inv m \<Longrightarrow> gm_inv (load_finished now fs m)"
proof (induction now fs m rule: load_finished.induct)
  case (2 now h st fs m)
  let ?t = "(GroupTask_new now)\<lparr>task_status := st\<rparr>"
  obtain a m1 where n: "new_ref ?t m = (a, m1)" by force
  have m1: "m1 = snd (new_ref ?t m)" "a = next_ref m" using n gm_inv_new_ref(2) [OF "2.prems", of ?t] by (simp_all add: n)
  have "gm_inv (m1\<lparr>finished_infohash_list := finished_infohash_list m1 @ [(h, a)]\<rparr>)"
    using gm_inv_new_ref [OF "2.prems", of ?t] unfolding m1 by (intro gm_inv_push_finished) simp_all
  then show ?case using "2.IH" [OF n [symmetric] refl] n by simp
qed simp

lemma LoadFromFinishedResume_evolves:
  assumes "gm_inv m" "finished_infohash_list m = []"
  shows "evolves m (snd (LoadFromFinishedResume now content m))"
proof (cases content)
  case None
  then show ?thesis using assms by (simp add: LoadFromFinishedResume_def evolves_same)
next
  case (Some fs)
  let ?m = "load_finished now fs (m\<lparr>finished_infohash_list := []\<rparr>)"
  have inv: "gm_inv ?m" using assms by (intro load_finished_inv gm_inv_set_finished) simp_all
  have map: "ginfohash_map (load_finished now fs x) = ginfohash_map x" for x
    by (induction now fs x rule: load_finished.induct) (simp_all add: new_ref_def Let_def)
  have "abs_group ?m = (abs_group m)\<lparr>sp_finished := finished_infohash_list ?m\<rparr>"
    by (simp add: abs_group_def find_running_def map)
  moreover have "sp_finished (abs_group m) = []" using assms(2) by (simp add: abs_group_def)
  ultimately have "spec_step (abs_group m) (abs_group ?m)" using sp_load by metis
  with inv show ?thesis using Some by (simp add: LoadFromFinishedResume_def evolves_step)
qed

subsection \<open>Timer and shutdown\<close>

lemma expire_loop_evolves:
  "gm_inv m \<Longrightarrow> finished_infohash_list m = kept @ ps \<Longrightarrow> expire_loop e kept ps m = Some (m', eff) \<Longrightarrow> evolves m m'"
proof (induction ps arbitrary: kept m m' eff)
  case (Cons p ps)
  show ?case
  proof (cases "task_at (snd p) m")
    case None
    then show ?thesis using Cons.IH [of m "kept @ [p]" m' eff] Cons.prems by simp
  next
    case (Some t)
    show ?thesis
    proof (cases "finished_expired (ge_now e) (finished_timeout (config m)) t")
      case False
      then show ?thesis using Cons.IH [of m "kept @ [p]" m' eff] Cons.prems Some by simp
    next
      case True
      let ?m = "m\<lparr>finished_infohash_list := kept @ ps, finished_infohash_list_changed := True\<rparr>"
      obtain m1 e1 where r: "release_task (ge_opens e) (snd p) ?m = (m1, e1)" by force
      have "gm_inv (m\<lparr>finished_infohash_list := kept @ ps\<rparr>)"
        using gm_inv_distinct(4,6) [OF Cons.prems(1)] Cons.prems(2)
        by (intro gm_inv_set_finished [OF Cons.prems(1)]) (auto simp: finished_refs_def)
      then have "gm_inv ?m" by simp
      from release_task_inv [OF this, of "ge_opens e" "snd p"] have inv1: "gm_inv m1" using r by simp
      have fin: "finished_infohash_list m1 = kept @ ps"
        using release_task_fields(3) [of "ge_opens e" "snd p" ?m] r by simp
      obtain eff2 where "expire_loop e kept ps m1 = Some (m', eff2)"
        using Cons.prems(3) Some True r by (auto simp: Let_def split: if_splits)
      then have "evolves m1 m'" by (rule Cons.IH [OF inv1 fin])
      moreover have "evolves m m1"
      proof (rule evolves_step [OF inv1])
        have "abs_group m1 = (abs_group m)\<lparr>sp_finished := kept @ ps\<rparr>"
          using release_task_fields(1,3) [of "ge_opens e" "snd p" ?m] r by (simp add: abs_group_def find_running_def)
        moreover have "sp_finished (abs_group m) = kept @ p # ps" using Cons.prems(2) by (simp add: abs_group_def)
        ultimately show "spec_step (abs_group m) (abs_group m1)" using sp_expire by metis
      qed
      ultimately show ?thesis using evolves_trans by blast
    qed
  qed
qed (simp add: evolves_same)

definition heap_ok :: "GroupManager \<Rightarrow> bool" where
  "heap_ok m \<longleftrightarrow> distinct (map fst (theap m)) \<and> (\<forall>a. next_ref m \<le> a \<longrightarrow> task_at a m = None)"

lemma release_task_heap_ok: "heap_ok m \<Longrightarrow> heap_ok (fst (release_task opens a m))"
  by (simp add: heap_ok_def release_task_def task_at_def split: option.split)

lemma release_all_heap_ok: "heap_ok m \<Longrightarrow> heap_ok (fst (release_all opens as m))"
proof (induction "as" arbitrary: m)
  case (Cons a "as")
  obtain m1 e1 where r: "release_task opens a m = (m1, e1)" by force
  then have "heap_ok m1" using release_task_heap_ok [OF Cons.prems, of opens a] by simp
  then show ?case using Cons.IH [of m1] r by (auto split: prod.splits)
qed simp

lemma release_all_fields:
  "ginfohash_map (fst (release_all opens as m)) = ginfohash_map m \<and>
   gtorrent_map (fst (release_all opens as m)) = gtorrent_map m \<and>
   finished_infohash_list (fst (release_all opens as m)) = finished_infohash_list m"
proof (induction "as" arbitrary: m)
  case (Cons a "as")
  obtain m1 e1 where r: "release_task opens a m = (m1, e1)" by force
  then show ?case using Cons.IH [of m1] release_task_fields(1-3) [of opens a m] by (auto split: prod.splits)
qed simp

lemma heap_ok_fields [simp]:
  "heap_ok (m\<lparr>finished_infohash_list := l\<rparr>) = heap_ok m" "heap_ok (m\<lparr>ginfohash_map := i\<rparr>) = heap_ok m"
  "heap_ok (m\<lparr>gtorrent_map := j\<rparr>) = heap_ok m"
  by (simp_all add: heap_ok_def task_at_def)

lemma GenerateFinished_fields:
  "fst (GenerateFinishedListResumeFile opens m) = m \<or>
   fst (GenerateFinishedListResumeFile opens m) = m\<lparr>finished_infohash_list_changed := False\<rparr>"
  by (simp add: GenerateFinishedListResumeFile_def Let_def)

lemma GenerateFinished_evolves: "gm_inv m \<Longrightarrow> evolves m (fst (GenerateFinishedListResumeFile opens m))"
  using GenerateFinished_fields [of opens m] by (metis gm_inv_fields(1) abs_group_fields(1) evolves_same)

lemma gm_inv_empty:
  "heap_ok m \<Longrightarrow> gtorrent_map m = [] \<Longrightarrow> ginfohash_map m = [] \<Longrightarrow> finished_infohash_list m = [] \<Longrightarrow> gm_inv m"
  by (simp add: gm_inv_def heap_ok_def by_infohash_def by_handle_def finished_refs_def)

lemma release_all_parts:
  assumes "release_all opens as m = (m', eff)"
  shows "heap_ok m \<Longrightarrow> heap_ok m'" "ginfohash_map m' = ginfohash_map m" "gtorrent_map m' = gtorrent_map m"
    "finished_infohash_list m' = finished_infohash_list m"
  using assms release_all_heap_ok [of m opens "as"] release_all_fields [of opens "as" m] by simp_all

lemma Shutdown_evolves:
  assumes "gm_inv m"
  shows "evolves m (fst (Shutdown opens m))"
proof -
  obtain m0 e2 where g: "GenerateFinishedListResumeFile opens m = (m0, e2)" by force
  have "gm_inv m0" using GenerateFinished_evolves [OF assms, of opens] g by (simp add: evolves_def)
  then have h0: "heap_ok m0" by (simp add: gm_inv_def heap_ok_def)
  obtain m1 e3 where r1: "release_all opens (map snd (finished_infohash_list m0)) (m0\<lparr>finished_infohash_list := []\<rparr>) = (m1, e3)"
    by force
  obtain m2 e4 where r2: "release_all opens (running_refs m1) (m1\<lparr>ginfohash_map := []\<rparr>) = (m2, e4)" by force
  obtain m3 e5 where r3: "release_all opens (map snd (gtorrent_map m2)) (m2\<lparr>gtorrent_map := []\<rparr>) = (m3, e5)" by force
  note p = release_all_parts [OF r1] release_all_parts [OF r2] release_all_parts [OF r3]
  have "gm_inv m3" by (rule gm_inv_empty) (use p h0 in simp_all)
  moreover have "abs_group m3 = \<lparr>sp_running = (\<lambda>i. None), sp_reserved = {}, sp_finished = []\<rparr>"
    using p by (simp add: abs_group_def find_running_def)
  then have "spec_step (abs_group m) (abs_group m3)" using sp_clear by metis
  ultimately have "evolves m m3" by (rule evolves_step)
  then show ?thesis using g r1 r2 r3 by (simp add: Shutdown_def Let_def evolves_def)
qed

lemma check_conf_file_evolves:
  assumes "gm_inv m" "check_conf_file e f m = Some (m', eff)"
  shows "evolves m m'"
proof -
  have "evolves m (fst (Shutdown (ge_opens e) (m\<lparr>conf_failed_times := conf_failed_times m + 1\<rparr>)))"
    using Shutdown_evolves [of "m\<lparr>conf_failed_times := conf_failed_times m + 1\<rparr>" "ge_opens e"] assms(1)
    by (simp add: evolves_def)
  then show ?thesis
    using assms by (auto simp: check_conf_file_def Let_def evolves_same split: if_splits option.splits prod.splits)
qed

lemma check_group_timeout_evolves: "gm_inv m \<Longrightarrow> evolves m (fst (check_group_timeout e m))"
  using Shutdown_evolves [of "m\<lparr>last_check_timeout := last_check_timeout m + 3\<rparr>" "ge_opens e"]
  by (simp add: check_group_timeout_def Let_def evolves_def)

lemma TimerCallback_evolves:
  assumes inv: "gm_inv m" and t: "TimerCallback e f ec m = Some (m', eff)"
  shows "evolves m m'"
proof (cases ec)
  case True
  then show ?thesis using assms by (simp add: TimerCallback_def evolves_same)
next
  case False
  obtain m1 e1 where m1: "hang_check_each e (running_refs m) m = Some (m1, e1)" "evolves m m1"
    using hang_check_each_ok [OF inv running_refs_ok(2) [OF inv], of e] running_refs_ok(1) [OF inv]
    by (auto simp: evolves_def)
  then have i1: "gm_inv m1" by (simp add: evolves_def)
  obtain m2 e2 where m2: "expire_loop e [] (finished_infohash_list m1) m1 = Some (m2, e2)"
    using t False m1(1) by (auto simp: TimerCallback_def split: option.splits)
  have v2: "evolves m1 m2" by (rule expire_loop_evolves [OF i1 _ m2]) simp
  obtain m3 e3 where m3: "GenerateFinishedListResumeFile (ge_opens e) m2 = (m3, e3)" by force
  have v3: "evolves m2 m3" using v2 GenerateFinished_evolves [of m2 "ge_opens e"] m3 by (simp add: evolves_def)
  obtain m4 e4 where m4: "check_group_timeout e m3 = (m4, e4)" by force
  have v4: "evolves m3 m4" using v3 check_group_timeout_evolves [of m3 e] m4 by (simp add: evolves_def)
  obtain e5 where "check_conf_file e f m4 = Some (m', e5)"
    using t False m1(1) m2 m3 m4 by (auto simp: TimerCallback_def)
  then have "evolves m4 m'" using v4 by (intro check_conf_file_evolves) (simp_all add: evolves_def)
  then show ?thesis using m1(2) v2 v3 v4 evolves_trans by blast
qed

end
