(* ===== verification/GroupManagerProps.thy ===== *)
theory GroupManagerProps
  imports GroupManagerInv
begin

text \<open>
  The group manager as a transition system: a step is one request, one alert of the torrent library or one timer,
  with the answers of the outside world as its labels. Every step keeps the consistency of the maps and is a
  sequence of steps of the abstract specification. What the code does outside the guards is stated at the end.
\<close>

subsection \<open>What the torrent library guarantees\<close>

text \<open>The handle of a torrent that was removed from the session is no longer valid.\<close>

definition env_ok :: "group_env \<Rightarrow> GroupManager \<Rightarrow> bool" where
  "env_ok e m \<longleftrightarrow> (\<forall>(a, t) \<in> set (theap m). running a m \<or> \<not> handle_valid e t)"

lemma env_okD: "env_ok e m \<Longrightarrow> task_at a m = Some t \<Longrightarrow> running a m \<or> \<not> handle_valid e t"
  unfolding env_ok_def task_at_def by (auto dest: map_of_SomeD)

text \<open>
  The metadata of a torrent added by URL arrives once, its info hash has 20 bytes, and the session holds no other
  torrent with that info hash.
\<close>

fun metadata_ok :: "group_alert \<Rightarrow> GroupManager \<Rightarrow> bool" where
  "metadata_ok (MetadataReceived h ti _) m =
    (length (tm_info_hash ti) = 20 \<and>
     (case GetTaskByTorrentHandle h m of
        None \<Rightarrow> True
      | Some a \<Rightarrow>
          (case task_at a m of
             None \<Rightarrow> True
           | Some t \<Rightarrow> is_torrent_url t \<longrightarrow>
               dp_torrent_url (params t) = g_infohash t \<and> g_infohash t \<noteq> [] \<and>
               map_of (ginfohash_map m) (BytesToHex (tm_info_hash ti)) = None)))"
| "metadata_ok _ m = True"

subsection \<open>Requests, alerts and timers evolve the manager\<close>

lemma RemoveTorrent_defined:
  assumes "gm_inv m" "task_at a m = Some t" "same_id t t'" "remove \<longrightarrow> running a m \<or> \<not> handle_valid e t"
  shows "\<exists>m' eff'. after_callback e b a (t', eff, remove) m = Some (m', eff') \<and> evolves m m'"
  using after_callback_touches [OF assms] touches_evolves by blast

lemma ControlTaskByInfohash_evolves:
  assumes "gm_inv m"
  shows "\<exists>ret m' eff. ControlTaskByInfohash e i type c m = Some (ret, m', eff) \<and> evolves m m'"
proof (cases "find_running i m")
  case None
  then show ?thesis using assms by (simp add: ControlTaskByInfohash_def evolves_same)
next
  case (Some a)
  then have run: "running a m" by (auto simp: running_def find_running_eq)
  obtain t where t: "task_at a m = Some t" using running_task [OF assms run] by blast
  obtain t' eff r where c: "ControlTask type t = (t', eff, r)" by (metis prod_cases3)
  obtain m' eff' where "after_callback e True a (t', eff, r) m = Some (m', eff')" "evolves m m'"
    using RemoveTorrent_defined [OF assms t same_ids(1) [OF c], of r e True eff] run by auto
  then show ?thesis using Some t c assms by (simp add: ControlTaskByInfohash_def evolves_same)
qed

lemma GroupControlTask_evolves:
  assumes "gm_inv m"
  shows "\<exists>ret m' eff. GroupControlTask e i is_all type c m = Some (ret, m', eff) \<and> evolves m m'"
proof (cases is_all)
  case True
  let ?as = "filter (\<lambda>a. case task_at a m of None \<Rightarrow> False | Some t \<Rightarrow> CheckTaskCred c t) (running_refs m)"
  have "\<forall>a \<in> set ?as. running a m" "distinct ?as" using running_refs_ok [OF assms] by auto
  from control_each_ok [OF assms this(2,1)] show ?thesis
    using True by (auto simp: GroupControlTask_def ControlAllTasks_def evolves_def)
next
  case False
  then show ?thesis using assms ControlTaskByInfohash_evolves [OF assms, of e i type c]
    by (cases "i = []") (auto simp: GroupControlTask_def evolves_same)
qed

lemma SetTaskOptions_evolves:
  assumes inv: "gm_inv m" and s: "SetTaskOptions opts m = (ret, m', eff)"
  shows "evolves m m'"
proof (cases "to_infohash opts = []")
  case True
  then show ?thesis using assms by (auto simp: SetTaskOptions_def evolves_same split: prod.splits)
next
  case ne: False
  let ?i = "to_infohash opts"
  show ?thesis
  proof (cases "map_of (ginfohash_map m) ?i")
    case None
    let ?m = "m\<lparr>ginfohash_map := AList.update ?i None (ginfohash_map m)\<rparr>"
    have at: "task_at x ?m = task_at x m" for x by (simp add: task_at_def)
    have mp: "map_of (ginfohash_map ?m) j = Some (Some b) \<longleftrightarrow> map_of (ginfohash_map m) j = Some (Some b)" for j b
      using None by auto
    have run: "running x ?m = running x m" "finished_refs ?m = finished_refs m" for x
      unfolding running_def mp by (simp_all add: finished_refs_def)
    have "gm_inv ?m"
    proof (rule gm_invI)
      show "map_of (ginfohash_map ?m) j = Some (Some b) \<Longrightarrow>
        \<exists>t. task_at b ?m = Some t \<and> g_infohash t = j \<and> map_of (gtorrent_map ?m) (torrent_handle t) = Some b" for j b
        unfolding mp at using by_infohashD [OF inv] by simp
      show "map_of (gtorrent_map ?m) h = Some b \<Longrightarrow>
        \<exists>t. task_at b ?m = Some t \<and> torrent_handle t = h \<and> map_of (ginfohash_map ?m) (g_infohash t) = Some (Some b)" for h b
        unfolding mp at using by_handleD [OF inv] by simp
      show "b \<in> finished_refs ?m \<Longrightarrow> task_at b ?m \<noteq> None \<and> \<not> running b ?m" for b
        unfolding run at by (rule gm_inv_distinct(6) [OF inv])
    qed (use inv in \<open>simp_all add: gm_inv_def at\<close>)
    moreover have "spec_step (abs_group m) (abs_group ?m)"
    proof -
      have f: "find_running j ?m = find_running j m" for j using None by (simp add: find_running_def)
      have "abs_group ?m = (abs_group m)\<lparr>sp_reserved := insert ?i (sp_reserved (abs_group m))\<rparr>"
        unfolding abs_group_def f by auto
      moreover have "sp_running (abs_group m) ?i = None" using None by (simp add: abs_group_def find_running_def)
      ultimately show ?thesis using sp_reserve by metis
    qed
    ultimately have "evolves m ?m" by (rule evolves_step)
    moreover have "m' = ?m" using s ne None by (simp add: SetTaskOptions_def find_running_def)
    ultimately show ?thesis by simp
  next
    case (Some v)
    show ?thesis
    proof (cases v)
      case None
      then show ?thesis using s ne Some inv by (simp add: SetTaskOptions_def find_running_def evolves_same)
    next
      case (Some a)
      then have i: "map_of (ginfohash_map m) ?i = Some (Some a)" using \<open>map_of (ginfohash_map m) ?i = Some v\<close> by simp
      obtain t where t: "task_at a m = Some t" using by_infohashD [OF inv i] by blast
      obtain ok t' eff' where o: "GroupSetOptions opts t = (ok, t', eff')" by (metis prod_cases3)
      have "m' = set_task a t' m" using s ne i t o by (simp add: SetTaskOptions_def find_running_def)
      then show ?thesis using touches_set_task [OF inv t same_ids(6) [OF o]] touches_evolves by simp
    qed
  qed
qed

lemma handle_alert_evolves:
  assumes inv: "gm_inv m" and ok: "metadata_ok al m"
  shows "\<exists>m' eff. handle_alert e al m = Some (m', eff) \<and> evolves m m'"
proof -
  have on_task: "\<exists>m' eff. (case GetTaskByTorrentHandle h m of None \<Rightarrow> Some (m, [])
        | Some a \<Rightarrow> (case task_at a m of None \<Rightarrow> Some (m, []) | Some t \<Rightarrow> k a t)) = Some (m', eff) \<and> evolves m m'"
    if k: "\<And>a t. map_of (gtorrent_map m) (Some h) = Some a \<Longrightarrow> task_at a m = Some t \<Longrightarrow> running a m \<Longrightarrow>
      map_of (ginfohash_map m) (g_infohash t) = Some (Some a) \<Longrightarrow> \<exists>m' eff. k a t = Some (m', eff) \<and> evolves m m'" for h k
  proof (cases "GetTaskByTorrentHandle h m")
    case None
    then show ?thesis using inv by (simp add: evolves_same)
  next
    case (Some a)
    then have h: "map_of (gtorrent_map m) (Some h) = Some a" by (simp add: GetTaskByTorrentHandle_def)
    from by_handleD [OF inv this] obtain t where
      t: "task_at a m = Some t" "map_of (ginfohash_map m) (g_infohash t) = Some (Some a)" by blast
    then have "running a m" by (auto simp: running_def)
    from k [OF h t(1) this t(2)] show ?thesis using Some t(1) by simp
  qed
  have set: "evolves m (set_task a t' m)" if "task_at a m = Some t" "same_id t t'" for a t t'
    using touches_evolves touches_set_task [OF inv that] by blast
  show ?thesis
  proof (cases al)
    case (ListenFailed own)
    then show ?thesis using Shutdown_evolves [OF inv, of "ge_opens e"] inv
      by (cases own) (simp_all add: handle_alert_def evolves_same, metis prod.collapse)
  next
    case (TorrentFinished h n b)
    show ?thesis unfolding TorrentFinished handle_alert_def group_alert.case Let_def
      by (rule on_task) (auto split: prod.split intro: set dest: same_ids(4))
  next
    case (StateChanged h st ti so sk)
    show ?thesis unfolding StateChanged handle_alert_def group_alert.case Let_def
    proof (rule on_task)
      fix a t assume t: "task_at a m = Some t" "running a m"
      obtain t' eff r where c: "OnStateChanged (ge_now e) so sk st ti t = (t', eff, r)" by (metis prod_cases3)
      show "\<exists>m' eff. after_callback e False a (OnStateChanged (ge_now e) so sk st ti t) m = Some (m', eff) \<and> evolves m m'"
        unfolding c by (rule RemoveTorrent_defined [OF inv t(1) same_ids(5) [OF c]]) (simp add: t(2))
    qed
  next
    case (MetadataReceived h ti matches)
    show ?thesis unfolding MetadataReceived handle_alert_def group_alert.case Let_def
    proof (rule on_task)
      fix a t assume h: "map_of (gtorrent_map m) (Some h) = Some a" "task_at a m = Some t"
        "map_of (ginfohash_map m) (g_infohash t) = Some (Some a)"
      obtain t' eff where c: "OnMetadataReceived matches (ge_opens e) (ge_now e) ti t = (t', eff)" by force
      have hd: "torrent_handle t' = torrent_handle t" "dp_torrent_url (params t') = dp_torrent_url (params t)"
        "g_infohash t' = (if is_torrent_url t then BytesToHex (tm_info_hash ti) else g_infohash t)"
        using c by (auto simp: OnMetadataReceived_def SetOrgPieces_def Let_def)
      show "\<exists>m' eff. (case OnMetadataReceived matches (ge_opens e) (ge_now e) ti t of (t', eff) \<Rightarrow>
         map_option (\<lambda>m. (m, eff)) (if is_torrent_url t
            then UpdateInfohashByTorrentUrl (dp_torrent_url (params t')) (g_infohash t') (set_task a t' m)
            else Some (set_task a t' m))) = Some (m', eff) \<and> evolves m m'"
      proof (cases "is_torrent_url t")
        case False
        then have "same_id t t'" using hd by (simp add: same_id_def)
        then show ?thesis using False c set [OF h(2)] by simp
      next
        case True
        then have u: "dp_torrent_url (params t) = g_infohash t" "g_infohash t \<noteq> []" "length (tm_info_hash ti) = 20"
            "map_of (ginfohash_map m) (BytesToHex (tm_info_hash ti)) = None"
          using ok h by (simp_all add: MetadataReceived GetTaskByTorrentHandle_def)
        then have "BytesToHex (tm_info_hash ti) \<noteq> g_infohash t" using h(3) by auto
        then obtain m' where "UpdateInfohashByTorrentUrl (g_infohash t) (BytesToHex (tm_info_hash ti)) (set_task a t' m) = Some m'"
            "gm_inv m'" "spec_step (abs_group m) (abs_group m')"
          using UpdateInfohash_inv [OF inv h(3,2) hd(1), of "BytesToHex (tm_info_hash ti)"] hd(3) True u by auto
        then show ?thesis using True c hd u evolves_step by simp
      qed
    qed
  next
    case (StorageMoved h b)
    show ?thesis unfolding StorageMoved handle_alert_def group_alert.case Let_def
      by (rule on_task) (auto split: prod.split intro: set dest: same_ids(3))
  next
    case (HashFailed h piece)
    show ?thesis unfolding HashFailed handle_alert_def group_alert.case Let_def
      by (rule on_task) (simp add: inv evolves_same)
  next
    case (SaveResumeData h bytes)
    show ?thesis unfolding SaveResumeData handle_alert_def group_alert.case Let_def
      by (rule on_task) (simp add: inv evolves_same)
  qed (use inv in \<open>simp add: handle_alert_def evolves_same\<close>)
qed

lemma task_timer_evolves:
  assumes inv: "gm_inv m" and ok: "env_ok e m"
  shows "\<exists>m' eff. task_timer e seeding ec a m = Some (m', eff) \<and> evolves m m'"
proof (cases "task_at a m")
  case None
  then show ?thesis using inv by (simp add: task_timer_def evolves_same)
next
  case (Some t)
  obtain t' r where c: "(if seeding then GroupSeedingTimerCallback ec t else TimeoutTimerCallback ec (task_ts e t) t) = (t', r)"
    by force
  then have "same_id t t'" by (auto dest: same_ids(7,8) split: if_splits)
  from RemoveTorrent_defined [OF inv Some this, of r e False "[]"] show ?thesis
    using env_okD [OF ok Some] Some c by (simp add: task_timer_def)
qed

subsection \<open>The transition system\<close>

inductive group_step :: "GroupManager \<Rightarrow> GroupManager \<Rightarrow> bool" where
  GAdd: "fresh_handles e m \<Longrightarrow> GroupAddTask e self p c m = (ret, m', eff) \<Longrightarrow> group_step m m'"
| GResumeFile: "fresh_handles e m \<Longrightarrow> resume_one e f m = (m', eff) \<Longrightarrow> group_step m m'"
| GLoadFinished: "finished_infohash_list m = [] \<Longrightarrow> LoadFromFinishedResume now content m = (ret, m') \<Longrightarrow> group_step m m'"
| GControl: "GroupControlTask g i is_all type c m = Some (ret, m', eff) \<Longrightarrow> group_step m m'"
| GOptions: "SetTaskOptions opts m = (ret, m', eff) \<Longrightarrow> group_step m m'"
| GAlert: "metadata_ok al m \<Longrightarrow> handle_alert g al m = Some (m', eff) \<Longrightarrow> group_step m m'"
| GTaskTimer: "env_ok g m \<Longrightarrow> task_timer g seeding ec a m = Some (m', eff) \<Longrightarrow> group_step m m'"
| GTimer: "TimerCallback g f ec m = Some (m', eff) \<Longrightarrow> group_step m m'"

definition group_init :: "GroupManager \<Rightarrow> bool" where
  "group_init m \<longleftrightarrow> theap m = [] \<and> ginfohash_map m = [] \<and> gtorrent_map m = [] \<and> finished_infohash_list m = []"

lemma group_init_new [simp]: "group_init (new_GroupManager c s uid)"
  by (simp add: group_init_def new_GroupManager_def)

lemma gm_inv_init: "group_init m \<Longrightarrow> gm_inv m"
  by (simp add: group_init_def gm_inv_empty heap_ok_def task_at_def)

lemma group_step_evolves: "gm_inv m \<Longrightarrow> group_step m m' \<Longrightarrow> evolves m m'"
proof (erule group_step.cases, goal_cases)
  case (1 e n self p c ret n' eff) then show ?case using GroupAddTask_evolves by blast
next
  case (2 e n f n' eff) then show ?case using resume_one_evolves by blast
next
  case (3 now content n ret n') then show ?case using LoadFromFinishedResume_evolves by (metis snd_conv)
next
  case (4 g i is_all type c n ret n' eff)
  then show ?case using GroupControlTask_evolves [of m g i is_all type c] by auto
next
  case (5 opts n ret n' eff) then show ?case using SetTaskOptions_evolves by blast
next
  case (6 al n g n' eff) then show ?case using handle_alert_evolves [of m al g] by auto
next
  case (7 g n seeding ec a n' eff) then show ?case using task_timer_evolves [of m g seeding ec a] by auto
next
  case (8 g f ec n n' eff) then show ?case using TimerCallback_evolves by blast
qed

interpretation group: invariant_system group_init group_step gm_inv
  by unfold_locales (auto intro: gm_inv_init dest: group_step_evolves simp: evolves_def)

subsection \<open>A concrete run\<close>

definition demo_conf :: GroupConfig where
  "demo_conf = \<lparr>limit_of = (\<lambda>_. 1), group_timeout = 0, finished_timeout = 100, max_cluster_thread_num = 1,
     is_allow_all_add = True, suggest_mode = False, disable_os_cache = False, absolute_path = ''/g'',
     group_data_path = ''/g'', resume_dir_name = ''/g/r''\<rparr>"

text \<open>The torrent library of the examples gives the handle \<open>k\<close>.\<close>

definition demo_create :: "nat option \<Rightarrow> create_env" where
  "demo_create k = \<lparr>ce_now = 5, ce_mkdir_r = (\<lambda>_. True), ce_mkdir = (\<lambda>_. True), ce_file_size = (\<lambda>_. 9),
     ce_max_metadata_size = 10, ce_parse_torrent = (\<lambda>_ _. None), ce_matches = (\<lambda>_ _. True), ce_opens = (\<lambda>_. True),
     ce_trackers = (\<lambda>_. []), ce_resume_data = (\<lambda>_. None), ce_add_torrent = (\<lambda>_. k), ce_parse_syms = True,
     ce_resume_dir = ''/g/r''\<rparr>"

definition demo_status :: "group_torrent_status" where
  "demo_status = \<lparr>gs_state = GDownloading, gs_is_finished = False, gs_has_metadata = False, gs_need_save_resume = False,
     gs_progress_ppm = 0, gs_download_rate = 0, gs_upload_rate = 0, gs_total_payload_download = 1,
     gs_total_payload_upload = 0, gs_total_download = 0, gs_uploads_limit = 0, gs_num_peers = 0, gs_num_seeds = 0,
     gs_pieces = []\<rparr>"

definition demo_group_env :: "int \<Rightarrow> (nat \<Rightarrow> bool) \<Rightarrow> group_env" where
  "demo_group_env now valid = \<lparr>ge_now = now, ge_opens = (\<lambda>_. True), ge_status = (\<lambda>_. demo_status), ge_no_status = demo_status,
     ge_valid = valid, ge_have_seed = True, ge_rss_mb = 1\<rparr>"

definition demo_cred :: "int \<Rightarrow> UserCred" where
  "demo_cred u = \<lparr>uc_pid = 1, uc_gid = u, uc_uid = u\<rparr>"

definition url_param :: DownloadParam where
  "url_param = DownloadParam_new\<lparr>dp_torrent_url := ''http://t'', dp_save_path := ''/d''\<rparr>"

definition hash_param :: DownloadParam where
  "hash_param = DownloadParam_new\<lparr>dp_infohash := replicate 40 CHR ''a'', dp_save_path := ''/d''\<rparr>"

definition empty_group :: GroupManager where
  "empty_group = new_GroupManager demo_conf [] 9"

definition url_group :: GroupManager where
  "url_group = fst (snd (GroupAddTask (demo_create (Some 7)) 9 url_param (demo_cred 100) empty_group))"

lemma fresh_empty: "fresh_handles e empty_group"
  by (simp add: fresh_handles_def empty_group_def new_GroupManager_def)

lemma empty_group_reach: "reach group_init group_step empty_group"
  by (rule reach_init) (simp add: empty_group_def)

lemma url_group_reach: "reach group_init group_step url_group"
proof -
  obtain ret eff where "GroupAddTask (demo_create (Some 7)) 9 url_param (demo_cred 100) empty_group = (ret, url_group, eff)"
    unfolding url_group_def by (metis prod.collapse)
  then show ?thesis using reach_step [OF empty_group_reach GAdd [OF fresh_empty]] by blast
qed

lemma url_group_task:
  "map_option (\<lambda>t. (g_infohash t, uc_uid (g_cred t), torrent_handle t)) (task_at 0 url_group) = Some (''http://t'', 100, Some 7)"
  "map_of (ginfohash_map url_group) ''http://t'' = Some (Some 0)" "map_of (gtorrent_map url_group) (Some 7) = Some 0"
  by code_simp+

subsection \<open>Properties\<close>



lemma not_running_unfiled:
  assumes inv: "gm_inv m" and a: "\<not> running a m"
  shows "Some a \<notin> snd ` set (ginfohash_map m) \<and> a \<notin> snd ` set (gtorrent_map m)"
proof -
  have "map_of (ginfohash_map m) i \<noteq> Some (Some a)" for i using a by (simp add: running_def)
  moreover have "map_of (gtorrent_map m) h \<noteq> Some a" for h using a by_handleD [OF inv] by (metis running_def)
  ultimately show ?thesis using gm_inv_distinct(2,3) [OF inv] by (metis imageE map_of_eq_Some_iff prod.collapse)
qed




definition demo_meta :: torrent_meta where
  "demo_meta = meta_of_hash (replicate 20 CHR ''x'')"


subsection \<open>Who may control a task\<close>

lemma control_each_other:
  "gm_inv m \<Longrightarrow> distinct as \<Longrightarrow> \<forall>a \<in> set as. running a m \<Longrightarrow> x \<notin> set as \<Longrightarrow>
   control_each e type as m = Some (m', eff) \<Longrightarrow> task_at x m' = task_at x m \<and> running x m' = running x m"
proof (induction "as" arbitrary: m m' eff)
  case (Cons a "as")
  obtain t where t: "task_at a m = Some t" using running_task [OF Cons.prems(1), of a] Cons.prems(3) by auto
  obtain t' eff' r where c: "ControlTask type t = (t', eff', r)" by (metis prod_cases3)
  obtain m1 eff1 where m1: "after_callback e True a (t', eff', r) m = Some (m1, eff1)" "touches a m m1"
    using after_callback_touches [OF Cons.prems(1) t same_ids(1) [OF c], of r e True eff'] Cons.prems(3) by auto
  then obtain eff2 where m2: "control_each e type as m1 = Some (m', eff2)" using Cons.prems(5) t c by auto
  have "\<forall>x \<in> set as. running x m1" using m1(2) Cons.prems(2,3) by (auto simp: touches_def)
  then have "task_at x m' = task_at x m1 \<and> running x m' = running x m1"
    using Cons.IH [OF _ _ _ _ m2] Cons.prems(2,4) m1(2) by (simp add: touches_def)
  then show ?case using m1(2) Cons.prems(4) by (simp add: touches_def)
qed simp

lemma GroupControlTask_other:
  assumes inv: "gm_inv m" and a: "task_at a m = Some t" and cred: "\<not> CheckTaskCred c t"
    and c: "GroupControlTask g j is_all type c m = Some (ret, m', eff)"
  shows "task_at a m' = task_at a m \<and> running a m' = running a m"
proof (cases is_all)
  case True
  let ?as = "filter (\<lambda>a. case task_at a m of None \<Rightarrow> False | Some t \<Rightarrow> CheckTaskCred c t) (running_refs m)"
  have "\<forall>a \<in> set ?as. running a m" "distinct ?as" "a \<notin> set ?as"
    using running_refs_ok [OF inv] a cred by auto
  moreover obtain eff' where "control_each g type ?as m = Some (m', eff')"
    using c True by (auto simp: GroupControlTask_def ControlAllTasks_def)
  ultimately show ?thesis using control_each_other [OF inv] by blast
next
  case False
  show ?thesis
  proof (cases "find_running j m")
    case None
    then show ?thesis using c False by (auto simp: GroupControlTask_def ControlTaskByInfohash_def split: if_splits)
  next
    case (Some b)
    obtain u where u: "task_at b m = Some u" using by_infohashD [OF inv, of j b] Some by (auto simp: find_running_eq)
    show ?thesis
    proof (cases "j = [] \<or> \<not> CheckTaskCred c u")
      case True
      then show ?thesis using c False Some u
        by (auto simp: GroupControlTask_def ControlTaskByInfohash_def split: if_splits)
    next
      case ok: False
      then have "b \<noteq> a" using u a cred by auto
      obtain u' eff' r where cu: "ControlTask type u = (u', eff', r)" by (metis prod_cases3)
      have "running b m" using Some by (auto simp: running_def find_running_eq)
      then obtain m1 eff1 where m1: "after_callback g True b (u', eff', r) m = Some (m1, eff1)" "touches b m m1"
        using after_callback_touches [OF inv u same_ids(1) [OF cu], of r g True eff'] by auto
      then have "m1 = m'" using c False Some u ok cu by (auto simp: GroupControlTask_def ControlTaskByInfohash_def)
      then show ?thesis using m1(2) \<open>b \<noteq> a\<close> by (simp add: touches_def)
    qed
  qed
qed

text \<open>C15: A task is controlled only by root or its owner: whatever another user asks for, for one info hash or for
  all tasks, the task stays filed under its info hash and unchanged; asked for that one task the answer is the
  credential error and nothing is done.\<close>

theorem group_owner_safety:
  assumes "reach group_init group_step m" "find_running i m = Some a" "task_at a m = Some t"
    and "uc_uid c \<noteq> 0" "uc_uid c \<noteq> uc_uid (g_cred t)"
    and "GroupControlTask g j is_all type c m = Some (ret, m', eff)"
  shows "find_running i m' = Some a \<and> task_at a m' = Some t \<and>
    (if \<not> is_all \<and> j = i \<and> i \<noteq> [] then ret = ClientRpcCredFailed \<and> m' = m \<and> eff = [] else True)"
proof -
  have inv: "gm_inv m" by (rule group.reach_inv [OF assms(1)])
  have run: "running a m" using assms(2) by (auto simp: running_def find_running_eq)
  have cred: "\<not> CheckTaskCred c t" using assms(4,5) by (simp add: CheckTaskCred_def)
  have inv': "gm_inv m'" using GroupControlTask_evolves [OF inv, of g j is_all type c] assms(6) by (auto simp: evolves_def)
  have ih: "g_infohash t = i" using by_infohashD [OF inv, of i a] assms(2,3) by (auto simp: find_running_eq)
  have keep: "task_at a m' = task_at a m \<and> running a m' = running a m"
    by (rule GroupControlTask_other [OF inv assms(3) cred assms(6)])
  then have "running a m'" "task_at a m' = Some t" using run assms(3) by simp_all
  then have "find_running i m' = Some a" using running_task [OF inv', of a] ih by (auto simp: find_running_eq)
  then show ?thesis using keep assms cred by (auto simp: GroupControlTask_def ControlTaskByInfohash_def)
qed

lemma group_owner_safety_witness:
  "\<exists>m' eff t. GroupControlTask (demo_group_env 9 (\<lambda>_. True)) ''http://t'' True CT_CANCEL (demo_cred 200) url_group =
     Some (ClientRpcSuccess, m', eff) \<and> task_at 0 url_group = Some t \<and> task_at 0 m' = Some t \<and> find_running ''http://t'' m' = Some 0"
proof -
  obtain t where t: "task_at 0 url_group = Some t" "uc_uid (g_cred t) = 100" using url_group_task(1) by auto
  have c: "uc_uid (demo_cred 200) = 200" by (simp add: demo_cred_def)
  have f: "find_running ''http://t'' url_group = Some 0" using url_group_task(2) by (simp add: find_running_def)
  have "map_option fst (GroupControlTask (demo_group_env 9 (\<lambda>_. True)) ''http://t'' True CT_CANCEL (demo_cred 200) url_group) =
    Some ClientRpcSuccess" by code_simp
  then obtain m' eff where g: "GroupControlTask (demo_group_env 9 (\<lambda>_. True)) ''http://t'' True CT_CANCEL (demo_cred 200) url_group =
    Some (ClientRpcSuccess, m', eff)" by auto
  from group_owner_safety [OF url_group_reach f t(1) _ _ g] show ?thesis using c t g by auto
qed

text \<open>C25: A cancellation by the owner or root of a task whose torrent is in the session succeeds: the task leaves
  both maps and is appended to the finished list with the end time and its state set to cancelled (or timed out when
  it was), the torrent leaves the session, its resume files are unlinked, and no other entry changes.\<close>

theorem group_cancel:
  assumes "reach group_init group_step m" "find_running i m = Some a" "task_at a m = Some t"
    and "i \<noteq> []" "CheckTaskCred c t" "torrent_handle t = Some h" "ge_valid g h"
  shows "\<exists>m' eff t'. GroupControlTask g i False CT_CANCEL c m = Some (ClientRpcSuccess, m', eff) \<and>
    (\<forall>j. find_running j m' = (if j = i then None else find_running j m)) \<and>
    map_of (gtorrent_map m') (Some h) = None \<and>
    finished_infohash_list m' = finished_infohash_list m @ [(i, a)] \<and> task_at a m' = Some t' \<and>
    control_status t' = CS_CANCELED \<and> tk_end_time (task_status t') = ge_now g \<and>
    tk_state (task_status t') = control_value (if is_timeout t then CS_TIMEOUT else CS_CANCELED) \<and>
    eff = StopClusterTask t @ [GRemoveTorrent h] @ GroupDeleteResumeFile (resume_dir_name (config m)) t \<and>
    (\<forall>b. b \<noteq> a \<longrightarrow> task_at b m' = task_at b m)"
proof -
  have inv: "gm_inv m" by (rule group.reach_inv [OF assms(1)])
  have i: "map_of (ginfohash_map m) i = Some (Some a)" using assms(2) by (simp add: find_running_eq)
  have ih: "g_infohash t = i" using by_infohashD [OF inv i] assms(3) by auto
  let ?t = "remove_before (ge_now g) (task_ts g t) (t\<lparr>control_status := CS_CANCELED\<rparr>)"
  have f: "g_infohash ?t = i" "torrent_handle ?t = Some h" "is_timeout ?t = is_timeout t" "cluster_task_of ?t = cluster_task_of t"
      "resume_file ?t = resume_file t" "tmp_save_path ?t = tmp_save_path t"
    using ih assms(6) by (simp_all add: remove_before_def UpdateTaskStatus_def Let_def)
  let ?t' = "remove_after (ge_now g) True ?t"
  have after: "control_status ?t' = CS_CANCELED" "tk_end_time (task_status ?t') = ge_now g"
      "tk_state (task_status ?t') = control_value (if is_timeout t then CS_TIMEOUT else CS_CANCELED)"
      "g_infohash ?t' = i" "resume_file ?t' = resume_file t" "tmp_save_path ?t' = tmp_save_path t"
    using f by (simp_all add: remove_after_def Let_def)
  let ?m = "set_task a ?t' (set_task a ?t (set_task a (t\<lparr>control_status := CS_CANCELED\<rparr>) m)
      \<lparr>finished_infohash_list := finished_infohash_list m @ [(i, a)], finished_infohash_list_changed := True,
       ginfohash_map := AList.delete i (ginfohash_map m), gtorrent_map := AList.delete (Some h) (gtorrent_map m)\<rparr>)"
  let ?eff = "StopClusterTask t @ [GRemoveTorrent h] @ GroupDeleteResumeFile (resume_dir_name (config m)) t"
  have v: "handle_valid g (t\<lparr>control_status := CS_CANCELED\<rparr>)" using assms(6,7) by (simp add: handle_valid_def)
  have ts: "task_ts g (t\<lparr>control_status := CS_CANCELED\<rparr>) = task_ts g t" by (simp add: task_ts_def)
  have p: "PersistTask d op ?t' = GroupDeleteResumeFile d t" for d op
    using after ih by (simp add: PersistTask_def GroupDeleteResumeFile_def resume_file_name_def)
  have "RemoveTorrentOf g True a (set_task a (t\<lparr>control_status := CS_CANCELED\<rparr>) m) = Some (?m, ?eff)"
    using v f(1,2,4) i p by (simp add: RemoveTorrentOf_def RemoveTorrentTmp_def ts StopClusterTask_def on_torrent_def Let_def)
  then have c: "GroupControlTask g i False CT_CANCEL c m = Some (ClientRpcSuccess, ?m, ?eff)"
    using assms(2-5) by (simp add: GroupControlTask_def ControlTaskByInfohash_def after_callback_def)
  have fields: "\<forall>j. find_running j ?m = (if j = i then None else find_running j m)"
      "map_of (gtorrent_map ?m) (Some h) = None" "finished_infohash_list ?m = finished_infohash_list m @ [(i, a)]"
    by (simp_all add: find_running_def)
  have at: "task_at a ?m = Some ?t'" "\<forall>b. b \<noteq> a \<longrightarrow> task_at b ?m = task_at b m"
    by (simp_all add: task_at_def set_task_def)
  show ?thesis
    by (intro exI conjI, rule c, rule fields(1), rule fields(2), rule fields(3), rule at(1), rule after(1), rule after(2),
      rule after(3), rule refl, rule at(2))
qed

lemma group_cancel_witness:
  "\<exists>m' eff. GroupControlTask (demo_group_env 9 (\<lambda>_. True)) ''http://t'' False CT_CANCEL (demo_cred 100) url_group =
     Some (ClientRpcSuccess, m', eff) \<and> find_running ''http://t'' m' = None \<and> finished_infohash_list m' = [(''http://t'', 0)]"
proof -
  obtain t where t: "task_at 0 url_group = Some t" "uc_uid (g_cred t) = 100" "torrent_handle t = Some 7"
    using url_group_task(1) by auto
  have f: "find_running ''http://t'' url_group = Some 0" using url_group_task(2) by (simp add: find_running_def)
  have cred: "CheckTaskCred (demo_cred 100) t" using t by (simp add: CheckTaskCred_def demo_cred_def)
  have v: "ge_valid (demo_group_env 9 (\<lambda>_. True)) 7" by (simp add: demo_group_env_def)
  obtain m' eff where m': "GroupControlTask (demo_group_env 9 (\<lambda>_. True)) ''http://t'' False CT_CANCEL (demo_cred 100) url_group =
      Some (ClientRpcSuccess, m', eff)" "\<forall>j. find_running j m' = (if j = ''http://t'' then None else find_running j url_group)"
      "finished_infohash_list m' = finished_infohash_list url_group @ [(''http://t'', 0)]"
    using group_cancel [OF url_group_reach f t(1) list.distinct(2) cred t(3) v] by blast
  moreover have "find_running ''http://t'' m' = None" using m'(2) by simp
  moreover have "finished_infohash_list url_group = []" by code_simp
  ultimately show ?thesis by auto
qed

subsection \<open>Adding a task\<close>

lemma create_source_cred: "create_source e t = Inr (t', ti, ps, eff) \<Longrightarrow> g_cred t' = g_cred t"
  by (auto simp: create_source_def SetOrgPieces_def Let_def split: if_splits option.splits)

lemma create_finish_cred: "create_finish e ti t = (ok, t', eff) \<Longrightarrow> g_cred t' = g_cred t"
  by (auto simp: create_finish_def Let_def split: if_splits)

lemma CreateGroupTask_cred: "CreateGroupTask e p c t = (True, t', eff) \<Longrightarrow> g_cred t' = c"
  by (auto simp: CreateGroupTask_def Let_def dest!: create_finish_cred create_source_cred
      split: if_splits option.splits sum.splits prod.splits)

lemma not_referenced_new:
  assumes inv: "gm_inv m" and n: "new_ref t m = (a, m1)"
  shows "a = next_ref m" "\<not> referenced a m1" "gm_inv m1" "task_at a m1 = Some t"
  using gm_inv_new_ref [OF inv, of t] n referenced_running [of m1 a] by simp_all

lemma GroupAddTask_outcome:
  assumes inv: "gm_inv m" and "fresh_handles e m" "GroupAddTask e self p c m = (ret, m', eff)"
  shows "finished_infohash_list m' = finished_infohash_list m \<and>
    (\<forall>b. b \<noteq> next_ref m \<longrightarrow> task_at b m' = task_at b m) \<and>
    (if ret = ClientRpcSuccess
     then \<exists>t h. task_at (next_ref m) m' = Some t \<and> g_cred t = c \<and> torrent_handle t = Some h \<and> g_infohash t \<noteq> [] \<and>
       map_of (ginfohash_map m) (g_infohash t) = None \<and>
       (\<forall>j. find_running j m' = (if j = g_infohash t then Some (next_ref m) else find_running j m))
     else ret \<in> {ClientRpcCredFailed, ClientRpcAddTaskCreateFailed, ClientRpcAddTaskExist} \<and>
       ginfohash_map m' = ginfohash_map m \<and> gtorrent_map m' = gtorrent_map m)"
proof (cases "\<not> is_allow_all_add (config m) \<and> uc_uid c \<noteq> 0 \<and> uc_uid c \<noteq> group_uid m \<and> uc_uid c \<noteq> self")
  case True
  then show ?thesis using assms(3) by (simp add: GroupAddTask_def)
next
  case False
  obtain ok t eff1 where c: "CreateGroupTask e p c (GroupTask_new (ce_now e)) = (ok, t, eff1)" by (metis prod_cases3)
  obtain a m1 where n: "new_ref t m = (a, m1)" by force
  obtain r m2 where ad: "AddTaskToMap a t m1 = (r, m2)" by force
  note a = not_referenced_new [OF inv n]
  have m1: "ginfohash_map m1 = ginfohash_map m" "gtorrent_map m1 = gtorrent_map m"
      "finished_infohash_list m1 = finished_infohash_list m" "b \<noteq> next_ref m \<Longrightarrow> task_at b m1 = task_at b m" for b
    using n by (auto simp: new_ref_def task_at_def)
  have drop: "finished_infohash_list x = finished_infohash_list m \<and> (\<forall>b. b \<noteq> next_ref m \<longrightarrow> task_at b x = task_at b m) \<and>
      ginfohash_map x = ginfohash_map m \<and> gtorrent_map x = gtorrent_map m"
    if "x = fst (release_task (ce_opens e) a m1)" for x
    using that a m1 by (simp add: release_task_def task_at_def)
  show ?thesis
  proof (cases "ok \<and> r = ClientRpcSuccess")
    case True
    then have m2: "m2 = m1\<lparr>ginfohash_map := AList.update (g_infohash t) (Some a) (ginfohash_map m1),
          gtorrent_map := AList.update (torrent_handle t) a (gtorrent_map m1)\<rparr>"
      and free: "g_infohash t \<noteq> []" "map_of (ginfohash_map m) (g_infohash t) = None"
      using ad m1 by (auto simp: AddTaskToMap_def split: if_splits)
    have "Some a \<in> snd ` set (AList.update (g_infohash t) (Some a) (ginfohash_map m1))"
      by (metis al.find_put map_of_SomeD image_eqI snd_conv update_conv' fun_upd_same)
    then have "release_task (ce_opens e) a m2 = (m2, [])" by (simp add: release_task_def referenced_def m2)
    then have "m' = m2" "ret = ClientRpcSuccess" using assms(3) False c n ad True by (simp_all add: GroupAddTask_def)
    moreover obtain h where "torrent_handle t = Some h"
    using CreateGroupTask_handle [of e p c "GroupTask_new (ce_now e)" t eff1] c True by auto
    moreover have "g_cred t = c" using CreateGroupTask_cred [of e p c "GroupTask_new (ce_now e)" t eff1] c True by auto
    moreover have "task_at b m2 = task_at b m1" for b by (simp add: m2 task_at_def)
    moreover have "find_running j m2 = (if j = g_infohash t then Some (next_ref m) else find_running j m)" for j
      using a(1) m1(1) by (simp add: m2 find_running_def)
    moreover have "finished_infohash_list m2 = finished_infohash_list m" by (simp add: m2 m1)
    ultimately show ?thesis using a(1,4) m1(4) free by auto
  next
    case no: False
    have keep: "m2 = m1 \<and> r = ClientRpcAddTaskExist" if "r \<noteq> ClientRpcSuccess"
      using ad that by (auto simp: AddTaskToMap_def split: if_splits)
    have "m' = fst (release_task (ce_opens e) a m1) \<and> ret = (if ok then ClientRpcAddTaskExist else ClientRpcAddTaskCreateFailed)"
      using assms(3) False c n ad no keep by (auto simp: GroupAddTask_def split: prod.splits)
    then show ?thesis using drop [of m'] by simp
  qed
qed

text \<open>C23: Adding succeeds exactly by filing one new task, owned by the requester and with the handle the torrent
  library gave, under an info hash that was free; every other outcome leaves all maps and the existing tasks as they
  were.\<close>

theorem group_add_outcome:
  assumes "reach group_init group_step m" "fresh_handles e m" "GroupAddTask e self p c m = (ret, m', eff)"
  shows "finished_infohash_list m' = finished_infohash_list m \<and>
    (\<forall>b. b \<noteq> next_ref m \<longrightarrow> task_at b m' = task_at b m) \<and>
    (if ret = ClientRpcSuccess
     then \<exists>t h. task_at (next_ref m) m' = Some t \<and> g_cred t = c \<and> torrent_handle t = Some h \<and> g_infohash t \<noteq> [] \<and>
       map_of (ginfohash_map m) (g_infohash t) = None \<and>
       (\<forall>j. find_running j m' = (if j = g_infohash t then Some (next_ref m) else find_running j m))
     else ret \<in> {ClientRpcCredFailed, ClientRpcAddTaskCreateFailed, ClientRpcAddTaskExist} \<and>
       ginfohash_map m' = ginfohash_map m \<and> gtorrent_map m' = gtorrent_map m)"
  by (rule GroupAddTask_outcome [OF group.reach_inv [OF assms(1)] assms(2,3)])

lemma group_add_outcome_witness:
  "\<exists>m' eff. GroupAddTask (demo_create (Some 7)) 9 hash_param (demo_cred 100) empty_group = (ClientRpcSuccess, m', eff) \<and>
     map_option g_cred (task_at 0 m') = Some (demo_cred 100) \<and> finished_infohash_list m' = []"
proof -
  obtain m' eff where a: "GroupAddTask (demo_create (Some 7)) 9 hash_param (demo_cred 100) empty_group = (ClientRpcSuccess, m', eff)"
  proof -
    have "fst (GroupAddTask (demo_create (Some 7)) 9 hash_param (demo_cred 100) empty_group) = ClientRpcSuccess" by code_simp
    then show ?thesis using that by (metis prod.collapse)
  qed
  have "next_ref empty_group = 0" "finished_infohash_list empty_group = []"
    by (simp_all add: empty_group_def new_GroupManager_def)
  then show ?thesis using group_add_outcome [OF empty_group_reach fresh_empty a] a by auto
qed

subsection \<open>What the code does outside the specification's good cases\<close>

definition demo_options :: TaskOptions where
  "demo_options = \<lparr>to_infohash = ''http://t'', to_download_limit = 1, to_upload_limit = 1, to_connections_limit = 1\<rparr>"

text \<open>Asking for the options of an unknown info hash leaves a null entry, and the task can then not be added.\<close>

lemma options_block_add:
  "fst (GroupAddTask (demo_create (Some 7)) 9 url_param (demo_cred 100) empty_group) = ClientRpcSuccess"
  "fst (GroupAddTask (demo_create (Some 7)) 9 url_param (demo_cred 100) (fst (snd (SetTaskOptions demo_options empty_group)))) =
   ClientRpcAddTaskExist"
  by code_simp+

text \<open>A duplicate addition, refused by the torrent library, overwrites the running task's resume file on destruction.\<close>

fun written_uid :: "group_effect \<Rightarrow> (string \<times> int) option" where
  "written_uid (GWriteResume f c) = Some (f, uc_uid (rc_cred c))"
| "written_uid _ = None"

lemma duplicate_add_overwrites:
  "(case GroupAddTask (demo_create None) 9 url_param (demo_cred 200) url_group of (ret, m', eff) \<Rightarrow>
     (ret, List.map_filter written_uid eff)) =
   (ClientRpcAddTaskCreateFailed, [(''/g/r/http://t.resume'', 200)])"
  by code_simp

text \<open>A task that was paused is resumed by a restart, while its control status stays paused.\<close>

definition paused_content :: resume_content where
  "paused_content = \<lparr>rc_cred = demo_cred 100, rc_infohash = ''http://t'', rc_last_check_downloaded = 0,
     rc_last_check_time = 0, rc_control_status = CS_PAUSED, rc_down_param = url_param, rc_task_status = TaskStatus_new\<rparr>"

lemma paused_task_restarts:
  "(case GroupCreateFromResumeFile (demo_create (Some 7)) (Some paused_content) (GroupTask_new 5) of (ok, t, eff) \<Rightarrow>
     (ok, control_status t, filter (\<lambda>e. case e of GResumeHandle h \<Rightarrow> True | _ \<Rightarrow> False) eff)) =
   (True, CS_PAUSED, [GResumeHandle 7])"
  by code_simp

text \<open>When the last entry of the finished list expires the loop reads the end iterator.\<close>

lemma expire_last_undefined:
  "task_at (snd p) m = Some t \<Longrightarrow> finished_expired (ge_now e) (finished_timeout (config m)) t \<Longrightarrow> expire_loop e kept [p] m = None"
  by simp

lemma RemoveTorrentTmp_unknown: "map_of (ginfohash_map m) i = None \<Longrightarrow> RemoveTorrentTmp h i m = None"
  by (simp add: RemoveTorrentTmp_def)

lemma UpdateInfohash_finished_undefined:
  "url \<noteq> [] \<Longrightarrow> length i = 40 \<Longrightarrow> map_of (ginfohash_map m) url = None \<Longrightarrow> GetFinishedTaskByInfohash url m \<noteq> None \<Longrightarrow>
   UpdateInfohashByTorrentUrl url i m = None"
  by (auto simp: UpdateInfohashByTorrentUrl_def)

text \<open>The start time of a task is never set, so the time for checking files is the time of day.\<close>

lemma check_time_is_clock:
  "(case CreateGroupTask (demo_create (Some 7)) url_param (demo_cred 100) (GroupTask_new 5) of (ok, t, eff) \<Rightarrow>
     case OnStateChanged 1000 True True GDownloading None t of (t', r) \<Rightarrow> s_for_check_files (stat t')) = 1000"
  by code_simp

end
