(* ===== verification/AgentClient.thy ===== *)
theory AgentClient
  imports UnixSocket TaskManagerProps
begin

text \<open>
  The client of the agent (\<open>gko-src/src/BBTSClient.cpp\<close> over \<open>UnixSocketClient.cpp\<close>): one request, one connection,
  the bytes of both directions, the retries, and what each call makes of the answer. Protocol buffers are the
  record \<open>wire\<close>; a connection says which of its steps succeed and which bytes the server sends for those it got. The
  last part puts the agent of \<open>TaskManager\<close> at the other end.
\<close>

subsection \<open>Message types\<close>

text \<open>The constants of \<open>constant_def.h\<close>.\<close>

fun req_code :: "request \<Rightarrow> u32" where
  "req_code (REQ_ADD_TASK _ _ _) = 1"
| "req_code (REQ_TASK_GETOPT _ _) = 2"
| "req_code (REQ_TASK_SETOPT _ _) = 3"
| "req_code (REQ_AGENT_GETOPT _ _) = 4"
| "req_code (REQ_AGENT_SETOPT _ _) = 5"
| "req_code (REQ_BATCH_CTRL _ _) = 6"
| "req_code (REQ_ADD_METADATA _ _ _) = 100"
| "req_code (REQ_OTHER ty) = word_of_int ty"

fun res_code :: "response \<Rightarrow> u32" where
  "res_code (ResBase _ _) = 10000"
| "res_code (ResTask _) = 10001"
| "res_code (ResBatchCtrl _) = 10003"
| "res_code (ResBatchList _) = 10004"
| "res_code (ResTaskGetopt _) = 10005"
| "res_code (ResAgentGetopt _) = 10006"

text \<open>\<open>SerializeToArray\<close> and \<open>ParseFromArray\<close>; the parsers are told the type.\<close>

record wire =
  ser_req :: "request \<Rightarrow> string option"
  par_req :: "u32 \<Rightarrow> string \<Rightarrow> request"
  ser_res :: "response \<Rightarrow> string"
  par_res :: "u32 \<Rightarrow> string \<Rightarrow> response option"

subsection \<open>The synchronous socket\<close>

record connection =
  cn_connects :: bool
  cn_cred :: bool
  cn_written :: bool
  cn_reply :: "string \<Rightarrow> string"

text \<open>No data is written for a null pointer. The result is what the socket has taken.\<close>

definition SyncWriteData :: "connection \<Rightarrow> string option \<Rightarrow> bool \<times> string" where
  "SyncWriteData cn data =
    (case data of
       None \<Rightarrow> (True, [])
     | Some d \<Rightarrow> if cn_written cn then (True, WriteMessage (USERDATA, Some d)) else (False, []))"

text \<open>Whatever the type of a valid header, its length of data is read.\<close>

definition SyncReadData :: "string \<Rightarrow> string option" where
  "SyncReadData stream =
    (if length stream < 16 then None
     else
       let header = header_of stream; n = unat (hd_length header) in
       if \<not> IsValid header then None
       else if length (drop 16 stream) < n then None
       else Some (take n (drop 16 stream)))"

subsection \<open>One request\<close>

text \<open>\<open>TellUndefined\<close>: a type of four bytes is read from a message that is shorter.\<close>

datatype tell_result = TellFailed | TellUndefined | TellOk response

text \<open>The result holds the type variable, which the caller passes by pointer.\<close>

definition TellUnixServer :: "wire \<Rightarrow> bool \<Rightarrow> connection \<Rightarrow> request \<Rightarrow> u32 \<Rightarrow> u32 \<times> tell_result" where
  "TellUnixServer w send_ucred cn req ty =
    (if \<not> cn_connects cn then (ty, TellFailed)
     else if send_ucred \<and> \<not> cn_cred cn then (ty, TellFailed)
     else case ser_req w req of
            None \<Rightarrow> (ty, TellFailed)
          | Some body \<Rightarrow>
              (case SyncWriteData cn (Some (word_bytes ty @ body)) of
                 (ok, sent) \<Rightarrow>
                   if \<not> ok then (ty, TellFailed)
                   else case SyncReadData (cn_reply cn sent) of
                          None \<Rightarrow> (ty, TellFailed)
                        | Some data \<Rightarrow>
                            if length data < 4 then (ty, TellUndefined)
                            else
                              let ty = word_of_bytes (take 4 data) in
                              if ty \<notin> {10000, 10001, 10002, 10003, 10004, 10005, 10006} then (ty, TellFailed)
                              else case par_res w ty (drop 4 data) of
                                     None \<Rightarrow> (ty, TellFailed)
                                   | Some r \<Rightarrow> (ty, TellOk r)))"

text \<open>The loop over the attempts from number \<open>i\<close> on, each with its connection; the pauses before them in seconds, with
  the type sent.\<close>

fun tell_loop :: "wire \<Rightarrow> bool \<Rightarrow> connection list \<Rightarrow> request \<Rightarrow> nat \<Rightarrow> u32 \<Rightarrow> u32 \<times> tell_result \<times> (nat \<times> u32) list" where
  "tell_loop w send_ucred [] req i ty = (ty, TellFailed, [])"
| "tell_loop w send_ucred (cn # cns) req i ty =
    (case TellUnixServer w send_ucred cn req ty of
       (ty', TellFailed) \<Rightarrow>
         (case tell_loop w send_ucred cns req (i + 1) ty' of (ty'', r, log) \<Rightarrow> (ty'', r, (i * i, ty) # log))
     | (ty', r) \<Rightarrow> (ty', r, [(i * i, ty)]))"

record BBTSClient =
  send_ucred :: bool
  max_retry_times :: nat

definition BBTSClient_new :: BBTSClient where
  "BBTSClient_new = \<lparr>send_ucred = True, max_retry_times = 1\<rparr>"

definition TellUnixServerWithRetry ::
  "wire \<Rightarrow> BBTSClient \<Rightarrow> (nat \<Rightarrow> connection) \<Rightarrow> request \<Rightarrow> u32 \<Rightarrow> u32 \<times> tell_result \<times> (nat \<times> u32) list" where
  "TellUnixServerWithRetry w b cn req ty = tell_loop w (send_ucred b) (map cn [0 ..< max_retry_times b]) req 0 ty"

definition ask :: "wire \<Rightarrow> BBTSClient \<Rightarrow> (nat \<Rightarrow> connection) \<Rightarrow> request \<Rightarrow> u32 \<times> tell_result" where
  "ask w b cn req = (case TellUnixServerWithRetry w b cn req (req_code req) of (ty, r, log) \<Rightarrow> (ty, r))"

subsection \<open>The calls\<close>

text \<open>The exit code and what the call fills in; \<open>None\<close>: the message is short, an assertion on its type fails, or it is
  read as one of another type.\<close>

definition CreateTask ::
  "wire \<Rightarrow> BBTSClient \<Rightarrow> (nat \<Rightarrow> connection) \<Rightarrow> (string \<Rightarrow> bool) \<Rightarrow> task_message \<Rightarrow> task_options \<Rightarrow> (int \<times> int option) option" where
  "CreateTask w b cn mkdir_r task_info opts =
    (if str_field (m_save_path task_info) = [] \<or> \<not> mkdir_r (str_field (m_save_path task_info)) then Some (1, None)
     else if m_cmd task_info = None \<or> m_seeding_time task_info = None \<or> m_type task_info = None then Some (2, None)
     else if m_torrent_path task_info = None \<and> m_infohash task_info = None then Some (3, None)
     else case ask w b cn (REQ_ADD_TASK True task_info opts) of
            (ty, TellFailed) \<Rightarrow> Some (4, None)
          | (ty, TellUndefined) \<Rightarrow> None
          | (ty, TellOk (ResBase code msg)) \<Rightarrow> Some (5, None)
          | (ty, TellOk (ResTask taskid)) \<Rightarrow> Some (0, Some taskid)
          | (ty, TellOk r) \<Rightarrow> None)"

definition list_request :: "int list \<Rightarrow> ctrl_t \<Rightarrow> request" where
  "list_request ids c = REQ_BATCH_CTRL True \<lparr>ctrl_type = c, ctrl_all = (ids = []), taskids = ids\<rparr>"

definition ClientListTasks ::
  "wire \<Rightarrow> BBTSClient \<Rightarrow> (nat \<Rightarrow> connection) \<Rightarrow> int list \<Rightarrow> (int \<times> task_status_message list option) option" where
  "ClientListTasks w b cn ids =
    (case ask w b cn (list_request ids LIST_CTRL) of
       (ty, TellFailed) \<Rightarrow> Some (1, None)
     | (ty, TellUndefined) \<Rightarrow> None
     | (ty, TellOk (ResBase code msg)) \<Rightarrow> Some (2, None)
     | (ty, TellOk (ResBatchList ts)) \<Rightarrow> Some (0, Some ts)
     | (ty, TellOk r) \<Rightarrow> None)"

definition BatchControl ::
  "wire \<Rightarrow> BBTSClient \<Rightarrow> (nat \<Rightarrow> connection) \<Rightarrow> int list \<Rightarrow> ctrl_t \<Rightarrow> (int \<times> (int \<times> int \<times> string) list option) option" where
  "BatchControl w b cn ids c =
    (case ask w b cn (list_request ids c) of
       (ty, TellFailed) \<Rightarrow> Some (1, None)
     | (ty, TellUndefined) \<Rightarrow> None
     | (ty, TellOk (ResBase code msg)) \<Rightarrow> Some (2, None)
     | (ty, TellOk (ResBatchCtrl ts)) \<Rightarrow> Some (0, Some ts)
     | (ty, TellOk r) \<Rightarrow> None)"

text \<open>The base reply of the two \<open>Set...Options\<close> calls: \<open>failed\<close> is the code when the agent cannot be asked.\<close>

definition base_reply :: "int \<Rightarrow> u32 \<times> tell_result \<Rightarrow> int option" where
  "base_reply failed r =
    (case r of
       (ty, TellFailed) \<Rightarrow> Some failed
     | (ty, TellOk (ResBase code msg)) \<Rightarrow> Some (if code \<noteq> 0 then 3 else 0)
     | (ty, x) \<Rightarrow> None)"

definition SetAgentOptions :: "wire \<Rightarrow> BBTSClient \<Rightarrow> (nat \<Rightarrow> connection) \<Rightarrow> agent_options \<Rightarrow> int option" where
  "SetAgentOptions w b cn opts = base_reply 1 (ask w b cn (REQ_AGENT_SETOPT True opts))"

definition ClientSetTaskOptions :: "wire \<Rightarrow> BBTSClient \<Rightarrow> (nat \<Rightarrow> connection) \<Rightarrow> task_options \<Rightarrow> int option" where
  "ClientSetTaskOptions w b cn opts =
    (if o_taskid opts = None then Some 1 else base_reply 2 (ask w b cn (REQ_TASK_SETOPT True opts)))"

definition GetAgentOptions ::
  "wire \<Rightarrow> BBTSClient \<Rightarrow> (nat \<Rightarrow> connection) \<Rightarrow> agent_options \<Rightarrow> (int \<times> agent_options) option" where
  "GetAgentOptions w b cn opts =
    (case ask w b cn (REQ_AGENT_GETOPT True opts) of
       (ty, TellFailed) \<Rightarrow> Some (2, opts)
     | (ty, TellOk (ResBase code msg)) \<Rightarrow> Some (3, opts)
     | (ty, TellOk (ResAgentGetopt opts')) \<Rightarrow> Some (0, opts')
     | (ty, x) \<Rightarrow> None)"

definition ClientGetTaskOptions ::
  "wire \<Rightarrow> BBTSClient \<Rightarrow> (nat \<Rightarrow> connection) \<Rightarrow> task_options \<Rightarrow> (int \<times> task_options) option" where
  "ClientGetTaskOptions w b cn opts =
    (if o_taskid opts = None then Some (1, opts)
     else case ask w b cn (REQ_TASK_GETOPT True opts) of
       (ty, TellFailed) \<Rightarrow> Some (2, opts)
     | (ty, TellOk (ResBase code msg)) \<Rightarrow> Some (3, opts)
     | (ty, TellOk (ResTaskGetopt opts')) \<Rightarrow> Some (0, opts')
     | (ty, x) \<Rightarrow> None)"

text \<open>Any answer is taken as success.\<close>

definition ClientAddMetadata :: "wire \<Rightarrow> BBTSClient \<Rightarrow> (nat \<Rightarrow> connection) \<Rightarrow> string \<Rightarrow> string \<Rightarrow> int option" where
  "ClientAddMetadata w b cn ih data =
    (case ask w b cn (REQ_ADD_METADATA True ih data) of
       (ty, TellFailed) \<Rightarrow> Some 1
     | (ty, TellUndefined) \<Rightarrow> None
     | (ty, TellOk r) \<Rightarrow> Some 0)"

subsection \<open>The agent at the other end\<close>

text \<open>One message the reader of the connection passes on: it is handled and its replies are written. A message too
  short for its type is outside the model.\<close>

definition reply_frame :: "wire \<Rightarrow> response \<Rightarrow> string" where
  "reply_frame w r = WriteMessage (USERDATA, Some (word_bytes (res_code r) @ ser_res w r))"

definition agent_message :: "wire \<Rightarrow> agent_env \<Rightarrow> ucred \<Rightarrow> string \<Rightarrow> TaskManager \<Rightarrow> TaskManager \<times> string" where
  "agent_message w e c data s =
    (case ProcessMessage e c (par_req w (word_of_bytes (take 4 data)) (drop 4 data)) s of
       (s, es) \<Rightarrow> (s, concat (map (reply_frame w) (replies es))))"

fun agent_serve :: "wire \<Rightarrow> agent_env \<Rightarrow> ucred \<Rightarrow> string list \<Rightarrow> TaskManager \<Rightarrow> TaskManager \<times> string" where
  "agent_serve w e c [] s = (s, [])"
| "agent_serve w e c (d # ds) s =
    (case agent_message w e c d s of (s, out1) \<Rightarrow> case agent_serve w e c ds s of (s, out2) \<Rightarrow> (s, out1 @ out2))"

definition agent_connection :: "wire \<Rightarrow> agent_env \<Rightarrow> ucred \<Rightarrow> TaskManager \<Rightarrow> connection" where
  "agent_connection w e c s = \<lparr>cn_connects = True, cn_cred = True, cn_written = True,
     cn_reply = (\<lambda>sent. snd (agent_serve w e c (fst (read_stream sent)) s))\<rparr>"

text \<open>The agent's state after the first attempt.\<close>

definition agent_after :: "wire \<Rightarrow> agent_env \<Rightarrow> ucred \<Rightarrow> request \<Rightarrow> TaskManager \<Rightarrow> TaskManager" where
  "agent_after w e c req s =
    (case ser_req w req of
       None \<Rightarrow> s
     | Some body \<Rightarrow> fst (agent_serve w e c (fst (read_stream (WriteMessage (USERDATA, Some (word_bytes (req_code req) @ body))))) s))"

subsection \<open>A request and its reply\<close>

text \<open>What protocol buffers promise for a request, written as \<open>body\<close>, and the replies of \<open>es\<close>: each is parsed back,
  and fits a message.\<close>

definition wire_ok :: "wire \<Rightarrow> request \<Rightarrow> string \<Rightarrow> tm_effect list \<Rightarrow> bool" where
  "wire_ok w req body es \<longleftrightarrow>
     (ser_req w req = Some body \<and> par_req w (req_code req) body = req \<and> length body < 2 ^ 32 - 4) \<and>
     list_all (\<lambda>r. par_res w (res_code r) (ser_res w r) = Some r \<and> length (ser_res w r) < 2 ^ 32 - 4) (replies es)"

lemma SyncReadData_frame: "length p < 2 ^ 32 \<Longrightarrow> SyncReadData (WriteMessage (USERDATA, Some p) @ rest) = Some p"
proof -
  assume len: "length p < 2 ^ 32"
  have u: "unat (of_nat (length p) :: u32) = length p" using len by (simp add: unat_of_nat)
  have "header_of (WriteMessage (USERDATA, Some p) @ rest) = Assign 1 (of_nat (length p))"
    by (simp add: WriteMessage_def header_of_append)
  moreover have "hd_length (Assign 1 (of_nat (length p))) = of_nat (length p)" by (simp add: Assign_def)
  moreover have "drop 16 (WriteMessage (USERDATA, Some p) @ rest) = p @ rest" "16 \<le> length (WriteMessage (USERDATA, Some p) @ rest)"
    by (simp_all add: WriteMessage_def)
  ultimately show ?thesis using u by (simp add: SyncReadData_def)
qed

lemma read_one_message: "length p < 2 ^ 32 \<Longrightarrow> fst (read_stream (WriteMessage (USERDATA, Some p))) = [p]"
  using read_stream_message [of "(USERDATA, Some p)" "[]"] by (simp add: sendable_def read_stream.simps)

lemma res_code_known: "res_code r \<in> {10000, 10001, 10002, 10003, 10004, 10005, 10006}"
  by (cases r) simp_all

lemma agent_message_reply:
  assumes "wire_ok w req body es" "ProcessMessage e c req s = (s', es)"
  shows "agent_message w e c (word_bytes (req_code req) @ body) s = (s', concat (map (reply_frame w) (replies es)))"
  using assms by (simp add: agent_message_def wire_ok_def)

lemma TellUnixServer_agent:
  assumes w: "wire_ok w req body es" and pm: "ProcessMessage e c req s = (s', es)" "replies es = [r]"
  shows "TellUnixServer w ucred (agent_connection w e c s) req (req_code req) = (res_code r, TellOk r)"
proof -
  let ?data = "word_bytes (req_code req) @ body" and ?answer = "word_bytes (res_code r) @ ser_res w r"
  have len: "length (ser_res w r) < 2 ^ 32 - 4" and parse: "par_res w (res_code r) (ser_res w r) = Some r"
    using w pm(2) by (simp_all add: wire_ok_def)
  have "length ?data < 2 ^ 32" and req: "ser_req w req = Some body" using w by (simp_all add: wire_ok_def)
  then have "cn_reply (agent_connection w e c s) (WriteMessage (USERDATA, Some ?data)) = reply_frame w r"
    using agent_message_reply [OF w pm(1)] pm(2) by (simp add: agent_connection_def read_one_message)
  moreover have "SyncReadData (reply_frame w r) = Some ?answer"
    using SyncReadData_frame [of ?answer "[]"] len by (simp add: reply_frame_def)
  moreover have "take 4 ?answer = word_bytes (res_code r)" "drop 4 ?answer = ser_res w r" by simp_all
  ultimately show ?thesis
    using res_code_known [of r] req parse
    unfolding TellUnixServer_def SyncWriteData_def Let_def by (simp add: agent_connection_def)
qed

lemma ask_agent:
  assumes "wire_ok w req body es" "parsed req" "0 < max_retry_times b" "ProcessMessage e c req s = (s', es)"
  obtains r where "replies es = [r]"
    "TellUnixServerWithRetry w b (\<lambda>i. agent_connection w e c s) req (req_code req) = (res_code r, TellOk r, [(0, req_code req)])"
proof -
  have "length (replies es) = 1" using ProcessMessage_replies [of e c req s] assms(2,4) by simp
  then obtain r where r: "replies es = [r]" by (metis One_nat_def length_0_conv length_Suc_conv)
  note tell = TellUnixServer_agent [OF assms(1,4) r, of "send_ucred b"]
  have "map (\<lambda>i. agent_connection w e c s) [0 ..< max_retry_times b] =
      agent_connection w e c s # map (\<lambda>i. agent_connection w e c s) [1 ..< max_retry_times b]"
    using assms(3) by (simp add: upt_conv_Cons)
  then show ?thesis using that [OF r] by (simp add: TellUnixServerWithRetry_def tell)
qed

text \<open>C21: a request that reaches the agent. Whatever the request and the agent's state, over a working connection the
  client's bytes are read by the agent as that request, it is handled once, exactly one reply comes back, and the
  client gets that reply with its type at the first attempt.\<close>

theorem agent_round_trip:
  assumes "wire_ok w req body es" "parsed req" "0 < max_retry_times b" "ProcessMessage e c req s = (s', es)"
  shows "agent_after w e c req s = s' \<and>
    (\<exists>r. replies es = [r] \<and>
       TellUnixServerWithRetry w b (\<lambda>i. agent_connection w e c s) req (req_code req) = (res_code r, TellOk r, [(0, req_code req)]))"
proof -
  have "length (word_bytes (req_code req) @ body) < 2 ^ 32" "ser_req w req = Some body" using assms(1) by (simp_all add: wire_ok_def)
  then have "agent_after w e c req s = s'"
    using agent_message_reply [OF assms(1,4)] by (simp add: agent_after_def read_one_message)
  then show ?thesis using ask_agent [OF assms] by blast
qed

subsection \<open>Adding a task\<close>

lemma release_tasks_map: "release e a s = (s', es) \<Longrightarrow> tasks_map s' = tasks_map s"
  by (auto simp: release_def split: if_splits option.splits)

lemma resolve_dup_tasks:
  assumes "resolve_dup e ih path ty s = (ok, s', es)"
  shows "map_of (tasks_map s') i = None \<or> map_of (tasks_map s') i = map_of (tasks_map s) i"
proof (cases "find_dup ih path s")
  case (Some x)
  obtain a t where x: "x = (a, t)" by (cases x)
  obtain s1 es1 where r: "release e a (set_object a (Cancel t) (erase_from_map t s)) = (s1, es1)" by force
  have "tasks_map s1 = AList.delete (task_id t) (tasks_map s)"
    using release_tasks_map [OF r] by (simp add: set_object_def erase_from_map_def)
  then show ?thesis
    using assms by (auto simp: resolve_dup_def Some x r Let_def simp del: map_of_eq_Some_iff split: if_splits)
qed (use assms in \<open>simp add: resolve_dup_def\<close>)

lemma AddTask_outcome:
  assumes "AddTask e c m opts s = (s', es, ec)"
  shows "(ec = None \<longrightarrow> (\<exists>t a. replies es = [ResTask (task_id t)] \<and> map_of (tasks_map s') (task_id t) = Some a \<and>
            map_of (heap s') a = Some t)) \<and>
    (ec \<noteq> None \<longrightarrow> (\<forall>i. map_of (tasks_map s') i = None \<or> map_of (tasks_map s') i = map_of (tasks_map s) i))"
  using assms
proof (cases rule: AddTask_cases)
  case (failed ec')
  then show ?thesis by (simp add: same_tasks_def)
next
  case (found m2 ti path s1 ok s2 es2 cr es3)
  have none: "replies es2 = []" by (rule resolve_dup_replies [OF found(2)])
  have tasks: "\<forall>i. map_of (tasks_map s2) i = None \<or> map_of (tasks_map s2) i = map_of (tasks_map s) i"
    using resolve_dup_tasks [OF found(2)] found(1) by (simp add: same_tasks_def)
  have throws: "cr \<noteq> Throws" using Create_not_throws found(3) by (metis fst_conv)
  show ?thesis
  proof (cases "\<exists>t. ok \<and> cr = Created t")
    case True
    then obtain t where t: "ok" "cr = Created t" by blast
    then have "s' = insert_task t s2" "ec = None" "replies es = [ResTask (task_id t)]" using found(4) none by simp_all
    then show ?thesis by (intro conjI impI exI [of _ t] exI [of _ "next_address s2"]) (simp_all add: insert_task_def alloc_def add_to_map_def)
  next
    case False
    then have "s' = s2 \<and> ec \<noteq> None"
      using found(4) throws by (cases cr) (auto simp: assign_def split: if_splits error_code_t.splits)
    then show ?thesis using tasks by auto
  qed
qed


subsection \<open>On concrete inputs\<close>

text \<open>A wire format that carries one request and its reply.\<close>

definition demo_wire :: "request \<Rightarrow> response \<Rightarrow> wire" where
  "demo_wire req r =
     \<lparr> ser_req = (\<lambda>q. if req_code q = req_code req then Some ''q'' else None), par_req = (\<lambda>ty b. req),
       ser_res = (\<lambda>q. ''r''), par_res = (\<lambda>ty b. if ty = res_code r \<and> b = ''r'' then Some r else None) \<rparr>"

lemma demo_wire_ok: "replies es = [r] \<Longrightarrow> wire_ok (demo_wire req r) req ''q'' es"
  by (simp add: wire_ok_def demo_wire_def)

definition demo_request :: request where
  "demo_request = REQ_BATCH_CTRL True \<lparr> ctrl_type = CANCEL_CTRL, ctrl_all = False, taskids = [5] \<rparr>"

definition demo_result :: "TaskManager \<times> tm_effect list" where
  "demo_result = ProcessMessage (demo_env 0) (user 100) demo_request one_task"

lemma demo_result_replies: "replies (snd demo_result) = [ResBatchCtrl [(5, 0, ''No error'')]]"
  by code_simp

lemma agent_round_trip_witness:
  "let w = demo_wire demo_request (ResBatchCtrl [(5, 0, ''No error'')]); cn = agent_connection w (demo_env 0) (user 100) one_task in
   agent_after w (demo_env 0) (user 100) demo_request one_task = fst demo_result \<and>
   TellUnixServerWithRetry w BBTSClient_new (\<lambda>i. cn) demo_request 6 = (10003, TellOk (ResBatchCtrl [(5, 0, ''No error'')]), [(0, 6)])"
proof -
  have "parsed demo_request" "req_code demo_request = 6" by (simp_all add: demo_request_def)
  moreover have "0 < max_retry_times BBTSClient_new" by (simp add: BBTSClient_new_def)
  moreover have "ProcessMessage (demo_env 0) (user 100) demo_request one_task = (fst demo_result, snd demo_result)"
    by (simp add: demo_result_def)
  ultimately show ?thesis
    using agent_round_trip [OF demo_wire_ok [OF demo_result_replies], of demo_request BBTSClient_new "demo_env 0" "user 100" one_task "fst demo_result"]
      demo_result_replies by (simp add: Let_def)
qed

text \<open>The task of \<open>one_task\<close>, through the client.\<close>

definition demo_task :: task_message where
  "demo_task = empty_task_message\<lparr>m_type := Some NOCHECK_TASK, m_infohash := Some (replicate 40 CHR ''a''), m_data := Some (replicate 40 CHR ''a''),
     m_save_path := Some ''p'', m_cmd := Some ''gko3'', m_seeding_time := Some 0\<rparr>"

definition demo_options :: task_options where
  "demo_options = \<lparr> o_taskid = None, o_upload_limit = None, o_download_limit = None, o_max_conections = None \<rparr>"

definition demo_added :: "TaskManager \<times> tm_effect list" where
  "demo_added = ProcessMessage (demo_env 5) (user 100) (REQ_ADD_TASK True demo_task demo_options) new_TaskManager"

lemma demo_added_replies: "replies (snd demo_added) = [ResTask 5]"
  by code_simp


subsection \<open>What the client makes of other servers\<close>

text \<open>After an answer whose body does not parse, the type variable holds the answer's type, and the retry sends the
  request under it.\<close>

definition garbled :: connection where
  "garbled = \<lparr>cn_connects = True, cn_cred = True, cn_written = True,
     cn_reply = (\<lambda>sent. WriteMessage (USERDATA, Some (word_bytes (10000 :: u32) @ ''?'')))\<rparr>"

lemma retry_sends_reply_type:
  "TellUnixServerWithRetry (demo_wire demo_request (ResTask 5)) (BBTSClient_new\<lparr>max_retry_times := 2\<rparr>) (\<lambda>i. garbled) demo_request 6 =
     (10000, TellFailed, [(0, 6), (1, 10000)])"
  using SyncReadData_frame [of "word_bytes (10000 :: u32) @ ''?''" "[]"]
  by (simp add: TellUnixServerWithRetry_def BBTSClient_new_def upt_rec TellUnixServer_def SyncWriteData_def garbled_def demo_wire_def Let_def)

text \<open>A heartbeat of the server is taken for the answer, and its type read from no bytes.\<close>

lemma heartbeat_read_as_answer:
  "ask (demo_wire demo_request (ResTask 5)) BBTSClient_new
     (\<lambda>i. garbled\<lparr>cn_reply := \<lambda>sent. WriteMessage (HEARTBEAT, None)\<rparr>) demo_request = (6, TellUndefined)"
proof -
  have "SyncReadData (WriteMessage (HEARTBEAT, None)) = Some []"
    using header_of_append [of _ "[]"] by (simp add: SyncReadData_def WriteMessage_def) (simp add: Assign_def)
  then show ?thesis
    by (simp add: ask_def TellUnixServerWithRetry_def BBTSClient_new_def upt_rec TellUnixServer_def SyncWriteData_def garbled_def
        demo_wire_def demo_request_def)
qed

text \<open>The refusal of a metadata request is success.\<close>

lemma add_metadata_ignores_refusal:
  assumes "ask w b cn (REQ_ADD_METADATA True ih data) = (ty, TellOk (ResBase code msg))"
  shows "ClientAddMetadata w b cn ih data = Some 0"
  by (simp add: ClientAddMetadata_def assms)

end
