(* ===== verification/TorrentFiles.thy ===== *)
theory TorrentFiles
  imports GroupTask PathUtil
begin

text \<open>
  What the downloads do to the files of a torrent (\<open>MakeCorrectDir\<close>, \<open>CorrectModeAndSymlinks\<close>,
  \<open>SetOrgPieces\<close> and \<open>PreAllocateThread\<close> in \<open>gko-src/src/Downloader.cpp\<close> and, repeated with
  small differences, in \<open>gko-src/group/group_task.cpp\<close>): directories, modes and symbolic links, and the thread
  that allocates the files and raises the priorities of their pieces. Directories live in the file system of
  \<open>PathUtil\<close>; every other call answers through \<open>io_env\<close>.
\<close>

subsection \<open>Data\<close>

text \<open>A file of the torrent; \<open>tf_first\<close> and \<open>tf_last\<close> are the pieces of its first and last byte.\<close>

record torrent_file =
  tf_path :: string
  tf_size :: int
  tf_mode :: int
  tf_pad :: bool
  tf_first :: nat
  tf_last :: nat

record torrent_layout =
  tl_paths :: "(string \<times> int) list"
  tl_files :: "torrent_file list"
  tl_links :: "(string \<times> string) list"
  tl_num_pieces :: nat
  tl_piece_length :: int

text \<open>\<open>io_fallocate\<close> holds when the result is 0 or \<open>EINVAL\<close>.\<close>

record io_env =
  io_mkdir :: "int \<Rightarrow> string \<Rightarrow> fs \<Rightarrow> fs option"
  io_chmod :: "string \<Rightarrow> int \<Rightarrow> bool"
  io_symlink :: "string \<Rightarrow> string \<Rightarrow> bool"
  io_size :: "string \<Rightarrow> int option"
  io_open :: "string \<Rightarrow> bool"
  io_fallocate :: "string \<Rightarrow> int \<Rightarrow> int \<Rightarrow> bool"

datatype file_effect =
    FChmod string int
  | FUnlink string
  | FSymlink string string
  | FCreate string int
  | FAllocate string int int
  | FShareMode bool
  | FPrioritizeFiles "int list"
  | FPrioritizePieces "int list"

subsection \<open>Directories, modes and links\<close>

definition in_save_path :: "string \<Rightarrow> string \<Rightarrow> string" where
  "in_save_path save_path p = save_path @ ''/'' @ p"

text \<open>\<open>needed\<close> is the choice by regular expressions; the result is the flag, the file system and the effects.\<close>

fun MakeCorrectDir ::
  "io_env \<Rightarrow> (string \<Rightarrow> bool) \<Rightarrow> bool \<Rightarrow> string \<Rightarrow> (string \<times> int) list \<Rightarrow> fs \<Rightarrow> bool \<times> fs \<times> file_effect list" where
  "MakeCorrectDir io needed is_before_download save_path [] fs = (True, fs, [])"
| "MakeCorrectDir io needed is_before_download save_path ((p, mode) # ps) fs =
    (case fs (in_save_path save_path p) of
       None \<Rightarrow>
         if is_before_download \<and> \<not> needed p then MakeCorrectDir io needed is_before_download save_path ps fs
         else
           (case check_and_mkdir_r (io_mkdir io mode) fs (in_save_path save_path p) of
              (ok, fs) \<Rightarrow> if ok then MakeCorrectDir io needed is_before_download save_path ps fs else (False, fs, []))
     | Some Dir \<Rightarrow>
         if io_chmod io (in_save_path save_path p) mode then
           (case MakeCorrectDir io needed is_before_download save_path ps fs of
              (ok, fs, eff) \<Rightarrow> (ok, fs, FChmod (in_save_path save_path p) mode # eff))
         else (False, fs, [])
     | Some NotDir \<Rightarrow> (False, fs, []))"

text \<open>\<open>pads\<close>: padding files are unlinked too. \<open>ps\<close> are the file priorities.\<close>

fun correct_files ::
  "io_env \<Rightarrow> bool \<Rightarrow> string \<Rightarrow> int list \<Rightarrow> nat \<Rightarrow> torrent_file list \<Rightarrow> bool \<times> file_effect list" where
  "correct_files io pads save_path ps i [] = (True, [])"
| "correct_files io pads save_path ps i (f # fs) =
    (let name = in_save_path save_path (tf_path f) in
     if ps ! i = 0 \<or> pads \<and> tf_pad f then
       (case correct_files io pads save_path ps (Suc i) fs of (ok, eff) \<Rightarrow> (ok, FUnlink name # eff))
     else if \<not> io_chmod io name (tf_mode f) then (False, [])
     else (case correct_files io pads save_path ps (Suc i) fs of (ok, eff) \<Rightarrow> (ok, FChmod name (tf_mode f) # eff)))"

fun make_links :: "io_env \<Rightarrow> (string \<Rightarrow> bool) \<Rightarrow> string \<Rightarrow> (string \<times> string) list \<Rightarrow> bool \<times> file_effect list" where
  "make_links io needed save_path [] = (True, [])"
| "make_links io needed save_path ((p, target) # ls) =
    (let path = in_save_path save_path p in
     if \<not> needed p then make_links io needed save_path ls
     else if \<not> io_symlink io target path then (False, [])
     else (case make_links io needed save_path ls of (ok, eff) \<Rightarrow> (ok, FSymlink target path # eff)))"

definition files_and_links ::
  "io_env \<Rightarrow> bool \<Rightarrow> (string \<Rightarrow> bool) \<Rightarrow> string \<Rightarrow> int list \<Rightarrow> torrent_layout \<Rightarrow> bool \<times> file_effect list" where
  "files_and_links io pads needed save_path ps ly =
    (case correct_files io pads save_path ps 0 (tl_files ly) of
       (ok, e1) \<Rightarrow> if \<not> ok then (False, e1)
                   else case make_links io needed save_path (tl_links ly) of (ok, e2) \<Rightarrow> (ok, e1 @ e2))"

text \<open>The download tool ignores the outcome of \<open>MakeCorrectDir\<close> and makes every directory.\<close>

definition CorrectModeAndSymlinks ::
  "io_env \<Rightarrow> (string \<Rightarrow> bool) \<Rightarrow> string \<Rightarrow> int list \<Rightarrow> torrent_layout option \<Rightarrow> fs \<Rightarrow> bool \<times> fs \<times> file_effect list" where
  "CorrectModeAndSymlinks io needed save_path ps ti fs =
    (case ti of
       None \<Rightarrow> (False, fs, [])
     | Some ly \<Rightarrow>
         (case MakeCorrectDir io needed False save_path (tl_paths ly) fs of
            (ok, fs, e1) \<Rightarrow> case files_and_links io True needed save_path ps ly of (ok, e2) \<Rightarrow> (ok, fs, e1 @ e2)))"

text \<open>The group stops when it fails, makes only the directories needed and does not know padding files.\<close>

definition GroupCorrectModeAndSymlinks ::
  "io_env \<Rightarrow> (string \<Rightarrow> bool) \<Rightarrow> string \<Rightarrow> int list \<Rightarrow> torrent_layout option \<Rightarrow> fs \<Rightarrow> bool \<times> fs \<times> file_effect list" where
  "GroupCorrectModeAndSymlinks io needed save_path ps ti fs =
    (case ti of
       None \<Rightarrow> (False, fs, [])
     | Some ly \<Rightarrow>
         (case MakeCorrectDir io needed True save_path (tl_paths ly) fs of
            (ok, fs, e1) \<Rightarrow>
              if \<not> ok then (False, fs, e1)
              else case files_and_links io False needed save_path ps ly of (ok, e2) \<Rightarrow> (ok, fs, e1 @ e2)))"

lemma MakeCorrectDir_spec:
  assumes law: "\<And>mode. mkdir_law (io_mkdir io mode)"
  shows "MakeCorrectDir io needed before save_path ps fs = (ok, fs', eff) \<Longrightarrow>
    fs \<subseteq>\<^sub>m fs' \<and> (ok \<longrightarrow> (\<forall>(p, mode) \<in> set ps. needed p \<or> \<not> before \<longrightarrow> fs' (in_save_path save_path p) = Some Dir))"
proof (induction ps arbitrary: fs eff)
  case (Cons q ps)
  obtain p mode where q: "q = (p, mode)" by force
  let ?path = "in_save_path save_path p"
  have keep: "fs1 ?path = Some Dir \<Longrightarrow> fs1 \<subseteq>\<^sub>m fs' \<Longrightarrow> fs' ?path = Some Dir" for fs1
    by (auto simp: map_le_def dom_def)
  show ?case
  proof (cases "fs ?path")
    case None
    show ?thesis
    proof (cases "before \<and> \<not> needed p")
      case True
      then show ?thesis using Cons.IH [of fs eff] Cons.prems q None by auto
    next
      case False
      obtain ok1 fs1 where m: "check_and_mkdir_r (io_mkdir io mode) fs ?path = (ok1, fs1)" by force
      note made = check_and_mkdir_r_keeps [OF law m]
      show ?thesis
      proof (cases ok1)
        case ok: True
        then have "MakeCorrectDir io needed before save_path ps fs1 = (ok, fs', eff)"
          using Cons.prems q None False m by (auto split: if_splits)
        from Cons.IH [OF this] show ?thesis using made ok keep [of fs1] q map_le_trans by fastforce
      next
        case no: False
        then show ?thesis using Cons.prems q None False m made by (auto split: if_splits)
      qed
    qed
  next
    case (Some k)
    show ?thesis
    proof (cases "k = Dir \<and> io_chmod io ?path mode")
      case True
      obtain e2 where "MakeCorrectDir io needed before save_path ps fs = (ok, fs', e2)"
        using Cons.prems q Some True by (auto split: prod.splits)
      from Cons.IH [OF this] show ?thesis using keep [of fs] Some True q by auto
    next
      case False
      then show ?thesis using Cons.prems q Some by (cases k) (auto split: if_splits)
    qed
  qed
qed simp

subsection \<open>The pieces wanted\<close>

definition raise_pieces :: "nat \<Rightarrow> nat \<Rightarrow> int list \<Rightarrow> int list" where
  "raise_pieces a b ps = foldl (\<lambda>ps i. ps[i := 1]) ps [a ..< Suc b]"

text \<open>The tool's copy of \<open>SetOrgPieces\<close>: \<open>org\<close> is the bit field before.\<close>

fun mark_file :: "bool \<Rightarrow> nat list \<Rightarrow> bool list \<Rightarrow> bool list" where
  "mark_file wanted [] bits = bits"
| "mark_file wanted (j # js) bits = mark_file wanted js (if wanted \<or> bits ! j then bits[j := True] else bits[j := False])"

fun mark_files :: "int list \<Rightarrow> nat \<Rightarrow> torrent_file list \<Rightarrow> bool list \<Rightarrow> bool list" where
  "mark_files ps i [] bits = bits"
| "mark_files ps i (f # fs) bits =
    (if i < length ps then mark_files ps (Suc i) fs (mark_file (ps ! i > 0) [tf_first f ..< Suc (tf_last f)] bits) else bits)"

definition DownloaderSetOrgPieces :: "torrent_layout \<Rightarrow> int list \<Rightarrow> bool list \<Rightarrow> bool list" where
  "DownloaderSetOrgPieces ly ps org =
    mark_files ps 0 (tl_files ly) (resize (if tl_num_pieces ly \<le> 0 then 1 else tl_num_pieces ly) False org)"

lemma length_mark_file [simp]: "length (mark_file w js bits) = length bits"
  by (induction w js bits rule: mark_file.induct) simp_all

lemma nth_mark_file: "mark_file w js bits ! k = (bits ! k \<or> w \<and> k \<in> set js)" if "k < length bits"
  using that
proof (induction w js bits rule: mark_file.induct)
  case (2 w j js bits)
  then show ?case by (cases "j = k") auto
qed simp

lemma nth_mark_files:
  "k < length bits \<Longrightarrow> mark_files ps i fs bits ! k =
    (bits ! k \<or> (\<exists>n < length fs. i + n < length ps \<and> ps ! (i + n) > 0 \<and> tf_first (fs ! n) \<le> k \<and> k \<le> tf_last (fs ! n)))"
proof (induction ps i fs bits rule: mark_files.induct)
  case (2 ps i f fs bits)
  show ?case
  proof (cases "i < length ps")
    case True
    then have "mark_files ps i (f # fs) bits ! k = (bits ! k \<or> (ps ! i > 0 \<and> tf_first f \<le> k \<and> k \<le> tf_last f) \<or>
        (\<exists>n < length fs. Suc i + n < length ps \<and> ps ! (Suc i + n) > 0 \<and> tf_first (fs ! n) \<le> k \<and> k \<le> tf_last (fs ! n)))"
      using "2.IH" "2.prems" by (auto simp: nth_mark_file less_Suc_eq_le simp del: upt_Suc)
    then show ?thesis using True by (simp add: Ex_less_Suc2)
  qed (use 2 in simp)
qed simp

lemma length_mark_files [simp]: "length (mark_files ps i fs bits) = length bits"
  by (induction ps i fs bits rule: mark_files.induct) simp_all

lemma length_raise_pieces [simp]: "length (raise_pieces a b ps) = length ps"
proof -
  have "length (foldl (\<lambda>ps i. ps[i := 1]) ps js) = length ps" for js and ps :: "int list"
    by (induction js arbitrary: ps) simp_all
  then show ?thesis by (simp add: raise_pieces_def)
qed

lemma nth_raise_pieces: "k < length ps \<Longrightarrow> raise_pieces a b ps ! k = (if a \<le> k \<and> k \<le> b then 1 else ps ! k)"
proof -
  have f: "k < length ps \<Longrightarrow> foldl (\<lambda>ps i. ps[i := 1]) ps js ! k = (if k \<in> set js then 1 else ps ! k)" for js and ps :: "int list"
    by (induction js arbitrary: ps) auto
  assume "k < length ps"
  from f [OF this, of "[a ..< Suc b]"] show ?thesis by (simp add: raise_pieces_def less_Suc_eq_le del: upt_Suc)
qed

subsection \<open>Allocating the files\<close>

text \<open>The \<open>while\<close> loop over a file: the index reached, the priorities and the effects.\<close>

partial_function (option) allocate_loop ::
  "io_env \<Rightarrow> string \<Rightarrow> int \<Rightarrow> int \<Rightarrow> int \<Rightarrow> nat \<Rightarrow> int \<Rightarrow> nat \<Rightarrow> int list \<Rightarrow> (nat \<times> int list \<times> file_effect list) option"
where
  "allocate_loop io name each piece_length sz first_piece offset index ps =
    (if \<not> offset < sz then Some (index, ps, [])
     else
       let len = (if offset + each > sz then sz - offset else each) in
       if \<not> io_fallocate io name offset len then Some (index, ps, [])
       else if offset + len \<ge> sz then Some (index, ps, [FAllocate name offset len])
       else
         let cur = nat ((offset + len) div piece_length) + first_piece;
             ps = raise_pieces index cur ps
         in Option.bind (allocate_loop io name each piece_length sz first_piece (offset + len) cur ps)
              (\<lambda>r. Some (fst r, fst (snd r), FAllocate name offset len # FPrioritizePieces ps # snd (snd r))))"

declare allocate_loop.simps [code]

text \<open>One file after the other: the priorities, the last piece handled and whether every file could be opened.\<close>

fun allocate_files ::
  "io_env \<Rightarrow> string \<Rightarrow> int \<Rightarrow> int \<Rightarrow> int list \<Rightarrow> nat \<Rightarrow> torrent_file list \<Rightarrow> int list \<times> nat \<Rightarrow>
   (int list \<times> nat \<times> file_effect list) option" where
  "allocate_files io save_path each piece_length pre i [] (ps, last_download_index) = Some (ps, last_download_index, [])"
| "allocate_files io save_path each piece_length pre i (f # fs) (ps, last_download_index) =
    (let name = in_save_path save_path (tf_path f);
         continue = (\<lambda>e1 ps l. map_option (\<lambda>(ps, l, eff). (ps, l, e1 @ eff))
           (allocate_files io save_path each piece_length pre (Suc i) fs (ps, l)))
     in if pre ! i = 0 \<or> tf_pad f then continue [] ps last_download_index
        else if io_size io name = Some (tf_size f) then
          (let ps = raise_pieces (tf_first f) (tf_last f) ps in continue [FPrioritizePieces ps] ps (tf_last f))
        else if \<not> io_open io name then Some (ps, last_download_index, [])
        else
          (case allocate_loop io name each piece_length (tf_size f) (tf_first f) 0 (tf_first f) ps of
             None \<Rightarrow> None
           | Some (index, ps, e1) \<Rightarrow>
               if index < tf_last f then
                 (let ps = raise_pieces index (tf_last f) ps
                  in continue (FCreate name (tf_mode f) # e1 @ [FPrioritizePieces ps]) ps (tf_last f))
               else continue (FCreate name (tf_mode f) # e1) ps (tf_last f)))"

fun raise_org :: "bool list \<Rightarrow> nat list \<Rightarrow> int list \<Rightarrow> int list" where
  "raise_org org [] ps = ps"
| "raise_org org (i # is) ps = raise_org org is (if org ! i then ps[i := 1] else ps)"

text \<open>\<open>None\<close>: the product of the multiple and the piece length overflows, or a loop does not end.\<close>

definition PreAllocateThread ::
  "io_env \<Rightarrow> (string \<Rightarrow> bool) \<Rightarrow> string \<Rightarrow> int \<Rightarrow> int list \<Rightarrow> bool list \<Rightarrow> torrent_layout \<Rightarrow> fs \<Rightarrow>
   (int list \<times> fs \<times> file_effect list) option" where
  "PreAllocateThread io needed save_path dynamic_allocate pre org ly fs =
    (let n = tl_num_pieces ly;
         multiple = (if dynamic_allocate > 0 then dynamic_allocate else 50)
     in if \<not> fits_int (multiple * tl_piece_length ly) then None
        else
          (case MakeCorrectDir io needed True save_path (tl_paths ly) fs of (ok, fs, e1) \<Rightarrow>
             map_option (\<lambda>(ps, l, e2).
                let ps' = raise_org org [l ..< n] ps
                in (ps', fs, [FShareMode False, FPrioritizeFiles pre, FPrioritizePieces (replicate n 0)] @ e1 @ e2 @
                      (if l < n then [FPrioritizePieces ps'] else [])))
               (allocate_files io save_path (multiple * tl_piece_length ly) (tl_piece_length ly) pre 0 (tl_files ly)
                 (replicate n 0, 0))))"

subsection \<open>Which pieces are raised\<close>

text \<open>\<open>map_file\<close>: a byte of the file lies in one of its pieces.\<close>

definition file_ok :: "int \<Rightarrow> nat \<Rightarrow> torrent_file \<Rightarrow> bool" where
  "file_ok piece_length n f \<longleftrightarrow> tf_first f \<le> tf_last f \<and> tf_last f < n \<and> 0 \<le> tf_size f \<and>
     (tf_size f > 0 \<longrightarrow> tf_first f + nat ((tf_size f - 1) div piece_length) \<le> tf_last f)"

definition layout_ok :: "torrent_layout \<Rightarrow> bool" where
  "layout_ok ly \<longleftrightarrow> 0 < tl_piece_length ly \<and> (\<forall>f \<in> set (tl_files ly). file_ok (tl_piece_length ly) (tl_num_pieces ly) f)"

lemma file_ok_byte:
  assumes "file_ok pl n f" "0 < pl" "0 \<le> b" "b < tf_size f"
  shows "nat (b div pl) + tf_first f \<le> tf_last f"
proof -
  have "b div pl \<le> (tf_size f - 1) div pl" using assms by (intro zdiv_mono1) simp_all
  then have "nat (b div pl) \<le> nat ((tf_size f - 1) div pl)" by (rule nat_mono)
  moreover have "tf_first f + nat ((tf_size f - 1) div pl) \<le> tf_last f" using assms by (simp add: file_ok_def)
  ultimately show ?thesis by linarith
qed

text \<open>Pieces of \<open>S\<close> may have been raised.\<close>

definition raised_in :: "nat set \<Rightarrow> int list \<Rightarrow> int list \<Rightarrow> bool" where
  "raised_in S ps ps' \<longleftrightarrow> length ps' = length ps \<and> (\<forall>k < length ps. ps' ! k = ps ! k \<or> ps' ! k = 1 \<and> k \<in> S)"

lemma raised_in_refl [simp]: "raised_in S ps ps"
  by (simp add: raised_in_def)

lemma raised_in_trans: "raised_in S ps ps' \<Longrightarrow> raised_in S ps' ps'' \<Longrightarrow> raised_in S ps ps''"
  unfolding raised_in_def by metis

lemma raised_in_mono: "raised_in S ps ps' \<Longrightarrow> S \<subseteq> T \<Longrightarrow> raised_in T ps ps'"
  unfolding raised_in_def by blast

lemma raised_in_raise: "raised_in {a..b} ps (raise_pieces a b ps)"
  by (simp add: raised_in_def nth_raise_pieces)

lemma raised_in_keeps: "raised_in S ps ps' \<Longrightarrow> k < length ps \<Longrightarrow> ps ! k = 1 \<Longrightarrow> ps' ! k = 1"
  unfolding raised_in_def by metis

definition all_raised :: "nat \<Rightarrow> nat \<Rightarrow> int list \<Rightarrow> bool" where
  "all_raised a b ps \<longleftrightarrow> (\<forall>k. a \<le> k \<and> k \<le> b \<and> k < length ps \<longrightarrow> ps ! k = 1)"

lemma all_raised_keeps: "raised_in S ps ps' \<Longrightarrow> all_raised a b ps \<Longrightarrow> all_raised a b ps'"
  unfolding all_raised_def by (metis raised_in_def)

lemma all_raised_raise: "all_raised a b (raise_pieces a b ps)"
  by (simp add: all_raised_def nth_raise_pieces)

lemma all_raised_join: "all_raised a b ps \<Longrightarrow> all_raised b c ps \<Longrightarrow> all_raised a c ps"
  unfolding all_raised_def by (metis linear)

lemma allocate_loop_spec:
  assumes each: "0 < each" and pl: "0 < pl" and f: "file_ok pl n f"
  shows "0 \<le> offset \<Longrightarrow> index = nat (offset div pl) + tf_first f \<Longrightarrow> index \<le> tf_last f \<Longrightarrow>
    \<exists>index' ps' eff. allocate_loop io name each pl (tf_size f) (tf_first f) offset index ps = Some (index', ps', eff) \<and>
      index \<le> index' \<and> index' \<le> tf_last f \<and> raised_in {index..tf_last f} ps ps' \<and>
      (index < index' \<longrightarrow> all_raised index index' ps')"
proof (induction "nat (tf_size f - offset)" arbitrary: offset index ps rule: less_induct)
  case less
  let ?len = "if offset + each > tf_size f then tf_size f - offset else each"
  show ?case
  proof (cases "offset < tf_size f \<and> io_fallocate io name offset ?len \<and> \<not> offset + ?len \<ge> tf_size f")
    case False
    then show ?thesis using less.prems by (subst allocate_loop.simps) (auto simp: Let_def)
  next
    case True
    let ?cur = "nat ((offset + ?len) div pl) + tf_first f"
    let ?ps = "raise_pieces index ?cur ps"
    have less_size: "offset + ?len < tf_size f" "0 < ?len" using True each by auto
    have cur: "?cur \<le> tf_last f" using file_ok_byte [OF f pl] less.prems(1) less_size by simp
    have "offset div pl \<le> (offset + ?len) div pl" using pl less_size(2) by (intro zdiv_mono1) simp_all
    then have le: "index \<le> ?cur" using less.prems(2) by (simp add: nat_mono)
    have smaller: "nat (tf_size f - (offset + ?len)) < nat (tf_size f - offset)" using less_size by simp
    have pos: "0 \<le> offset + ?len" using less.prems(1) less_size(2) by simp
    obtain index' ps' eff where r: "allocate_loop io name each pl (tf_size f) (tf_first f) (offset + ?len) ?cur ?ps = Some (index', ps', eff)"
        "?cur \<le> index'" "index' \<le> tf_last f" "raised_in {?cur..tf_last f} ?ps ps'" "?cur < index' \<longrightarrow> all_raised ?cur index' ps'"
      using less.hyps [OF smaller pos refl cur, of ?ps] by blast
    have step: "allocate_loop io name each pl (tf_size f) (tf_first f) offset index ps =
        Some (index', ps', FAllocate name offset ?len # FPrioritizePieces ?ps # eff)"
      by (subst allocate_loop.simps) (use True r(1) in \<open>simp add: Let_def\<close>)
    have "raised_in {index..tf_last f} ps ?ps" by (rule raised_in_mono [OF raised_in_raise]) (use cur in auto)
    moreover have "raised_in {index..tf_last f} ?ps ps'" by (rule raised_in_mono [OF r(4)]) (use le in auto)
    ultimately have in1: "raised_in {index..tf_last f} ps ps'" by (rule raised_in_trans)
    have up: "all_raised index ?cur ps'" by (rule all_raised_keeps [OF r(4) all_raised_raise])
    have "all_raised index index' ps'"
      using up r(2,5) all_raised_join [OF up] by (cases "?cur < index'") auto
    then show ?thesis using step in1 le r(2,3) by auto
  qed
qed

text \<open>The pieces of the files that are downloaded.\<close>

definition wanted_pieces :: "int list \<Rightarrow> nat \<Rightarrow> torrent_file list \<Rightarrow> nat set" where
  "wanted_pieces pre i fs = {k. \<exists>m < length fs. pre ! (i + m) \<noteq> 0 \<and> \<not> tf_pad (fs ! m) \<and> tf_first (fs ! m) \<le> k \<and> k \<le> tf_last (fs ! m)}"

lemma wanted_pieces_Cons:
  "wanted_pieces pre i (f # fs) =
    (if pre ! i \<noteq> 0 \<and> \<not> tf_pad f then {tf_first f..tf_last f} else {}) \<union> wanted_pieces pre (Suc i) fs"
  by (auto simp: wanted_pieces_def Ex_less_Suc2)

lemma wanted_pieces_Nil [simp]: "wanted_pieces pre i [] = {}"
  by (simp add: wanted_pieces_def)

definition opens_split :: "io_env \<Rightarrow> string \<Rightarrow> torrent_file \<Rightarrow> bool" where
  "opens_split io save_path f \<longleftrightarrow> io_open io (in_save_path save_path (tf_path f)) \<and> tf_first f < tf_last f"

text \<open>The loop over the files ends, raising at most their pieces, and all of them when the files are opened and split.\<close>

definition allocates :: "io_env \<Rightarrow> string \<Rightarrow> int \<Rightarrow> int \<Rightarrow> int list \<Rightarrow> nat \<Rightarrow> torrent_file list \<Rightarrow> int list \<Rightarrow> nat \<Rightarrow> bool" where
  "allocates io save_path each pl pre i fs ps l \<longleftrightarrow>
    (\<exists>ps' l' eff. allocate_files io save_path each pl pre i fs (ps, l) = Some (ps', l', eff) \<and>
      raised_in (wanted_pieces pre i fs) ps ps' \<and>
      ((\<forall>f \<in> set fs. opens_split io save_path f) \<longrightarrow> (\<forall>k \<in> wanted_pieces pre i fs. k < length ps \<longrightarrow> ps' ! k = 1)))"

lemma allocates_Cons:
  assumes wanted: "\<not> (pre ! i = 0 \<or> tf_pad f)" and tail: "allocates io save_path each pl pre (Suc i) fs ps1 l1"
    and one: "raised_in {tf_first f..tf_last f} ps ps1" "opens_split io save_path f \<longrightarrow> all_raised (tf_first f) (tf_last f) ps1"
    and eq: "allocate_files io save_path each pl pre i (f # fs) (ps, l) =
      map_option (\<lambda>(ps, l, eff). (ps, l, e1 @ eff)) (allocate_files io save_path each pl pre (Suc i) fs (ps1, l1))"
  shows "allocates io save_path each pl pre i (f # fs) ps l"
proof -
  let ?W = "wanted_pieces pre (Suc i) fs"
  have W: "wanted_pieces pre i (f # fs) = {tf_first f..tf_last f} \<union> ?W" using wanted by (simp add: wanted_pieces_Cons)
  obtain ps' l' eff where r: "allocate_files io save_path each pl pre (Suc i) fs (ps1, l1) = Some (ps', l', eff)"
      "raised_in ?W ps1 ps'" "(\<forall>f \<in> set fs. opens_split io save_path f) \<longrightarrow> (\<forall>k \<in> ?W. k < length ps1 \<longrightarrow> ps' ! k = 1)"
    using tail unfolding allocates_def by blast
  have "raised_in (wanted_pieces pre i (f # fs)) ps ps'"
    unfolding W by (rule raised_in_trans [OF raised_in_mono [OF one(1)] raised_in_mono [OF r(2)]]) auto
  moreover have "\<forall>k \<in> wanted_pieces pre i (f # fs). k < length ps \<longrightarrow> ps' ! k = 1"
    if all: "\<forall>f \<in> set (f # fs). opens_split io save_path f"
  proof -
    have "all_raised (tf_first f) (tf_last f) ps'" by (rule all_raised_keeps [OF r(2)]) (use one(2) all in simp)
    moreover have "length ps' = length ps" "length ps1 = length ps" using one(1) r(2) by (simp_all add: raised_in_def)
    ultimately show ?thesis using r(3) all unfolding W all_raised_def by auto
  qed
  ultimately show ?thesis using eq r(1) unfolding allocates_def by auto
qed

lemma allocate_files_spec:
  assumes each: "0 < each" and pl: "0 < pl"
  shows "\<forall>f \<in> set fs. file_ok pl n f \<Longrightarrow> allocates io save_path each pl pre i fs ps l"
proof (induction fs arbitrary: i ps l)
  case (Cons f fs i ps l)
  let ?name = "in_save_path save_path (tf_path f)"
  let ?W = "wanted_pieces pre (Suc i) fs"
  have f: "file_ok pl n f" "\<forall>f \<in> set fs. file_ok pl n f" using Cons.prems by simp_all
  show ?case
  proof (cases "pre ! i = 0 \<or> tf_pad f")
    case True
    then have "wanted_pieces pre i (f # fs) = ?W" by (auto simp: wanted_pieces_Cons)
    then show ?thesis using True Cons.IH [OF f(2), of "Suc i" ps l] by (simp add: allocates_def opens_split_def Let_def) blast
  next
    case wanted: False
    note rest = allocates_Cons [where ?l1.0 = "tf_last f", OF wanted Cons.IH [OF f(2)]]
    show ?thesis
    proof (cases "io_size io ?name = Some (tf_size f)")
      case True
      show ?thesis
        by (rule rest [where ?e1.0 = "[FPrioritizePieces (raise_pieces (tf_first f) (tf_last f) ps)]", OF raised_in_raise])
          (use True wanted in \<open>auto simp: all_raised_raise Let_def\<close>)
    next
      case False
      show ?thesis
      proof (cases "io_open io ?name")
        case True
        have le: "tf_first f \<le> tf_last f" using f(1) by (simp add: file_ok_def)
        obtain index ps1 e1 where r: "allocate_loop io ?name each pl (tf_size f) (tf_first f) 0 (tf_first f) ps = Some (index, ps1, e1)"
            "tf_first f \<le> index" "index \<le> tf_last f" "raised_in {tf_first f..tf_last f} ps ps1"
            "tf_first f < index \<longrightarrow> all_raised (tf_first f) index ps1"
          using allocate_loop_spec [OF each pl f(1), of 0 "tf_first f" io ?name ps] le by auto
        show ?thesis
        proof (cases "index < tf_last f")
          case more: True
          let ?ps2 = "raise_pieces index (tf_last f) ps1"
          have i2: "raised_in {tf_first f..tf_last f} ps1 ?ps2" by (rule raised_in_mono [OF raised_in_raise]) (use r(2) in auto)
          have "all_raised (tf_first f) (tf_last f) ?ps2"
          proof (cases "tf_first f < index")
            case True
            then have "all_raised (tf_first f) index ?ps2" using all_raised_keeps [OF i2] r(5) by blast
            then show ?thesis using all_raised_join all_raised_raise by blast
          next
            case False
            then show ?thesis using r(2) all_raised_raise [of index "tf_last f" ps1] by simp
          qed
          then show ?thesis
            by (intro rest [where ?e1.0 = "FCreate ?name (tf_mode f) # e1 @ [FPrioritizePieces ?ps2]", OF raised_in_trans [OF r(4) i2]])
              (use True False wanted r(1) more in \<open>auto simp: Let_def\<close>)
        next
          case no: False
          then have "index = tf_last f" using r(3) by simp
          then have "opens_split io save_path f \<longrightarrow> all_raised (tf_first f) (tf_last f) ps1"
            using r(5) by (simp add: opens_split_def)
          then show ?thesis
            by (rule rest [where ?e1.0 = "FCreate ?name (tf_mode f) # e1", OF r(4)]) (use True False wanted r(1) no in \<open>auto simp: Let_def\<close>)
        qed
      next
        case no: False
        then show ?thesis using False wanted by (auto simp: allocates_def opens_split_def Let_def)
      qed
    qed
  qed
qed (simp add: allocates_def)

lemma raised_in_raise_org: "raised_in {k \<in> set is. org ! k} ps (raise_org org is ps)"
proof (induction "is" arbitrary: ps)
  case (Cons i "is" ps)
  let ?ps = "if org ! i then ps[i := 1] else ps"
  have "raised_in {k \<in> set (i # is). org ! k} ps ?ps"
    unfolding raised_in_def by (auto simp: nth_list_update split: if_splits) (metis nth_list_update_eq nth_list_update_neq)+
  moreover have "raised_in {k \<in> set (i # is). org ! k} ?ps (raise_org org is ?ps)"
    by (rule raised_in_mono [OF Cons.IH]) auto
  ultimately show ?case unfolding raise_org.simps by (rule raised_in_trans)
qed simp

lemma DownloaderSetOrgPieces_bit:
  assumes "k < tl_num_pieces ly" "length pre = length (tl_files ly)"
  shows "DownloaderSetOrgPieces ly pre [] ! k \<longleftrightarrow>
    (\<exists>m < length pre. pre ! m > 0 \<and> tf_first (tl_files ly ! m) \<le> k \<and> k \<le> tf_last (tl_files ly ! m))"
  unfolding DownloaderSetOrgPieces_def using assms by (subst nth_mark_files) (auto simp: resize_def)

text \<open>The allocation thread of a dynamically allocated download always ends, and it raises only pieces that some
  wanted file needs. When every file can be opened and spans at least two pieces it raises exactly those.\<close>

theorem PreAllocateThread_pieces:
  assumes "layout_ok ly" "length pre = length (tl_files ly)" "\<forall>p \<in> set pre. 0 \<le> p"
    and "fits_int ((if d > 0 then d else 50) * tl_piece_length ly)"
  shows "case PreAllocateThread io needed save_path d pre (DownloaderSetOrgPieces ly pre []) ly fs of
      None \<Rightarrow> False
    | Some (ps, fs', eff) \<Rightarrow> length ps = tl_num_pieces ly \<and>
        (\<forall>k < tl_num_pieces ly. ps ! k = 1 \<longrightarrow> DownloaderSetOrgPieces ly pre [] ! k) \<and>
        ((\<forall>f \<in> set (tl_files ly). opens_split io save_path f \<and> \<not> tf_pad f) \<longrightarrow>
          (\<forall>k < tl_num_pieces ly. ps ! k = 1 \<longleftrightarrow> DownloaderSetOrgPieces ly pre [] ! k))"
proof -
  let ?n = "tl_num_pieces ly"
  let ?org = "DownloaderSetOrgPieces ly pre []"
  let ?each = "(if d > 0 then d else 50) * tl_piece_length ly"
  have pl: "0 < tl_piece_length ly" and files: "\<forall>f \<in> set (tl_files ly). file_ok (tl_piece_length ly) ?n f"
    using assms(1) by (simp_all add: layout_ok_def)
  have each: "0 < ?each" using pl by simp
  obtain ps l e2 where r: "allocate_files io save_path ?each (tl_piece_length ly) pre 0 (tl_files ly) (replicate ?n 0, 0) = Some (ps, l, e2)"
      "raised_in (wanted_pieces pre 0 (tl_files ly)) (replicate ?n 0) ps"
      "(\<forall>f \<in> set (tl_files ly). opens_split io save_path f) \<longrightarrow> (\<forall>k \<in> wanted_pieces pre 0 (tl_files ly). k < ?n \<longrightarrow> ps ! k = 1)"
    using allocate_files_spec [OF each pl files, of io save_path pre 0 "replicate ?n 0" 0]
    unfolding allocates_def by auto
  let ?ps = "raise_org ?org [l ..< ?n] ps"
  have org: "raised_in {k \<in> set [l ..< ?n]. ?org ! k} ps ?ps" by (rule raised_in_raise_org)
  have len: "length ps = ?n" "length ?ps = ?n" using r(2) org by (simp_all add: raised_in_def)
  have wanted: "k \<in> wanted_pieces pre 0 (tl_files ly) \<Longrightarrow> k < ?n \<Longrightarrow> ?org ! k" for k
    using assms(2,3) by (auto simp: DownloaderSetOrgPieces_bit wanted_pieces_def) (metis less_le nth_mem)
  have only: "?org ! k" if "k < ?n" "?ps ! k = 1" for k
    using that org r(2) wanted [of k] len unfolding raised_in_def by (auto, force)
  have exact: "?ps ! k = 1" if "\<forall>f \<in> set (tl_files ly). opens_split io save_path f \<and> \<not> tf_pad f" "k < ?n" "?org ! k" for k
  proof -
    have "k \<in> wanted_pieces pre 0 (tl_files ly)"
      using that assms(2) by (auto simp: DownloaderSetOrgPieces_bit wanted_pieces_def)
    then have "ps ! k = 1" using r(3) that by blast
    then show ?thesis using raised_in_keeps [OF org] len(1) that(2) by simp
  qed
  obtain ok fs1 e1 where m: "MakeCorrectDir io needed True save_path (tl_paths ly) fs = (ok, fs1, e1)" by (metis prod_cases3)
  obtain eff where "PreAllocateThread io needed save_path d pre ?org ly fs = Some (?ps, fs1, eff)"
    using assms(4) r(1) m by (simp add: PreAllocateThread_def Let_def)
  then show ?thesis using len(2) only exact by auto
qed

definition demo_io :: io_env where
  "demo_io = \<lparr>io_mkdir = (\<lambda>mode p fs. Some (fs(p \<mapsto> Dir))), io_chmod = (\<lambda>p mode. True), io_symlink = (\<lambda>a b. True),
     io_size = (\<lambda>p. None), io_open = (\<lambda>p. True), io_fallocate = (\<lambda>p a b. True)\<rparr>"

definition demo_file :: "string \<Rightarrow> int \<Rightarrow> nat \<Rightarrow> nat \<Rightarrow> torrent_file" where
  "demo_file p sz a b = \<lparr>tf_path = p, tf_size = sz, tf_mode = 420, tf_pad = False, tf_first = a, tf_last = b\<rparr>"

definition two_files :: torrent_layout where
  "two_files = \<lparr>tl_paths = [], tl_files = [demo_file ''a'' 15 0 1, demo_file ''b'' 15 2 3], tl_links = [],
     tl_num_pieces = 4, tl_piece_length = 10\<rparr>"

lemma PreAllocateThread_pieces_witness:
  "\<exists>ps fs' eff. PreAllocateThread demo_io (\<lambda>_. True) ''/d'' 1 [1, 0] (DownloaderSetOrgPieces two_files [1, 0] []) two_files (\<lambda>_. None) =
     Some (ps, fs', eff) \<and> ps ! 1 = 1 \<and> ps ! 2 \<noteq> 1"
proof -
  have ok: "layout_ok two_files" "length [1, 0 :: int] = length (tl_files two_files)" "\<forall>p \<in> set [1, 0 :: int]. 0 \<le> p"
      "fits_int ((if (1 :: int) > 0 then 1 else 50) * tl_piece_length two_files)"
    by (simp_all add: layout_ok_def two_files_def demo_file_def file_ok_def fits_int_def)
  have n: "tl_num_pieces two_files = 4" "\<forall>f \<in> set (tl_files two_files). opens_split demo_io ''/d'' f \<and> \<not> tf_pad f"
    by (simp_all add: two_files_def demo_file_def demo_io_def opens_split_def)
  have "DownloaderSetOrgPieces two_files [1, 0] [] = [True, True, False, False]" by code_simp
  with PreAllocateThread_pieces [where io = demo_io and needed = "\<lambda>_. True" and save_path = "''/d''" and fs = "\<lambda>_. None", OF ok] n show ?thesis
    by (auto split: option.splits)
qed

text \<open>Files of one piece that are not the last: their pieces stay at priority 0, so the task never counts as finished.\<close>

definition small_files :: torrent_layout where
  "small_files = \<lparr>tl_paths = [], tl_files = [demo_file ''a'' 10 0 0, demo_file ''b'' 10 1 1, demo_file ''c'' 10 2 2],
     tl_links = [], tl_num_pieces = 3, tl_piece_length = 10\<rparr>"

lemma one_piece_files_not_raised:
  "map_option fst (PreAllocateThread demo_io (\<lambda>_. True) ''/d'' 1 [1, 1, 1] (DownloaderSetOrgPieces small_files [1, 1, 1] [])
     small_files (\<lambda>_. None)) = Some [0, 0, 1]"
  by code_simp

text \<open>The group changes the mode of padding files, which the torrent library never writes.\<close>

lemma pad_file_fails_group:
  "fst (correct_files (demo_io\<lparr>io_chmod := (\<lambda>p m. False)\<rparr>) True ''/d'' [1] 0 [(demo_file ''pad'' 5 0 0)\<lparr>tf_pad := True\<rparr>])"
  "\<not> fst (correct_files (demo_io\<lparr>io_chmod := (\<lambda>p m. False)\<rparr>) False ''/d'' [1] 0 [(demo_file ''pad'' 5 0 0)\<lparr>tf_pad := True\<rparr>])"
  by code_simp+

subsection \<open>Directories\<close>

text \<open>Whatever fails, making the directories of a torrent loses nothing that existed; when it succeeds every
  directory the download needs - every one at all after the download - is there.\<close>

theorem MakeCorrectDir_creates:
  assumes "\<forall>mode. mkdir_law (io_mkdir io mode)"
    and "MakeCorrectDir io needed is_before_download save_path ps fs = (ok, fs', eff)"
  shows "fs \<subseteq>\<^sub>m fs' \<and>
    (if ok then \<forall>p \<in> fst ` set ps. \<not> needed p \<and> is_before_download \<or> fs' (save_path @ ''/'' @ p) = Some Dir else True)"
  using MakeCorrectDir_spec [of io needed is_before_download save_path ps fs ok fs' eff] assms
  by (fastforce simp: in_save_path_def)

lemma MakeCorrectDir_creates_witness:
  "\<exists>fs' eff. MakeCorrectDir demo_io (\<lambda>_. True) True ''/d'' [(''a'', 493), (''a/b'', 493)] (\<lambda>_. None) = (True, fs', eff) \<and>
     fs' ''/d/a/b'' = Some Dir"
proof -
  obtain ok fs' eff where m: "MakeCorrectDir demo_io (\<lambda>_. True) True ''/d'' [(''a'', 493), (''a/b'', 493)] (\<lambda>_. None) = (ok, fs', eff)"
    by (metis prod_cases3)
  have "fst (MakeCorrectDir demo_io (\<lambda>_. True) True ''/d'' [(''a'', 493), (''a/b'', 493)] (\<lambda>_. None))" by code_simp
  moreover have "\<forall>mode. mkdir_law (io_mkdir demo_io mode)" by (simp add: demo_io_def mkdir_law_def)
  ultimately show ?thesis using MakeCorrectDir_creates [OF _ m] m by auto
qed

end
