(* ===== verification/Downloader.thy ===== *)
theory Downloader
  imports TorrentFiles ThriftTracker AgentTask
begin

text \<open>
  The stand-alone download (\<open>gko-src/src/Downloader.cpp\<close>): preparing the torrent, the timers, the alerts of the
  torrent library, the control socket, and the loop that runs them until the torrent is gone. Its handlers run one
  at a time on one thread. The library, the file system and the clock answer through \<open>dl_env\<close>; \<open>None\<close> as a
  status is the exception the library throws for an invalid handle, and \<open>None\<close> as a result passes it on.
\<close>

subsection \<open>State\<close>

record DownloadConfigure =
  conf_download_limit :: int
  conf_upload_limit :: int
  conf_connection_limit :: int
  conf_max_metadata_size :: int
  conf_ints :: "string \<Rightarrow> int"
  conf_bools :: "string \<Rightarrow> bool"

datatype dl_timer = SeedingTimer | TimeoutTimer | HangTimer | ProgressTimer

record Downloader =
  dl_conf :: DownloadConfigure
  dl_params :: down_params_t
  dl_include :: "string list"
  dl_exclude :: "string list"
  dl_torrent :: "nat option"
  dl_should_stop :: bool
  dl_is_timeout :: bool
  dl_is_mem_exceed :: bool
  dl_cluster :: "(cluster_config_entry \<times> int) option"
  dl_last_check_time :: int
  dl_last_check_downloaded :: int
  dl_low_downrate_times :: int
  dl_tmp_save_path :: string
  dl_resume_file :: string
  dl_meta_msg :: "(string \<times> string option) option"
  dl_org_pieces :: "bool list"
  dl_pre_file_priorities :: "int list"
  dl_has_pre_allocate_thread_start :: bool
  dl_stat :: task_times
  dl_fs :: fs
  dl_ret :: int
  dl_timers :: "dl_timer list"
  dl_posted :: "bool option"

definition Downloader_new :: "int \<Rightarrow> DownloadConfigure \<Rightarrow> down_params_t \<Rightarrow> string list \<Rightarrow> string list \<Rightarrow> fs \<Rightarrow> Downloader" where
  "Downloader_new now conf p inc exc fs = \<lparr>dl_conf = conf, dl_params = p, dl_include = inc, dl_exclude = exc,
     dl_torrent = None, dl_should_stop = False, dl_is_timeout = False, dl_is_mem_exceed = False, dl_cluster = None,
     dl_last_check_time = now, dl_last_check_downloaded = 0, dl_low_downrate_times = 0, dl_tmp_save_path = [],
     dl_resume_file = [], dl_meta_msg = None, dl_org_pieces = [], dl_pre_file_priorities = [],
     dl_has_pre_allocate_thread_start = False,
     dl_stat = \<lparr>s_start_time = 0, s_for_download_metadata = 0, s_for_check_files = 0, s_for_download = 0, s_for_seeding = 0\<rparr>,
     dl_fs = fs, dl_ret = 0, dl_timers = [], dl_posted = None\<rparr>"

record dl_status =
  st_base :: group_torrent_status
  st_error :: string
  st_paused :: bool

record dl_env =
  v_now :: int
  v_status :: "dl_status option"
  v_valid :: bool
  v_have_seed :: bool
  v_rss_mb :: int
  v_opens :: "string \<Rightarrow> bool"
  v_matches :: "string \<Rightarrow> string \<Rightarrow> bool"
  v_io :: io_env
  v_layout :: "torrent_layout option"
  v_file_priorities :: "int list"
  v_syms :: bool
  v_cluster_starts :: bool
  v_cluster_stopped :: bool

datatype dl_reply = BaseReply bool | OptionsReply "int option" "int option" "int option"
  | ListReply string string status_t dl_status

datatype dl_effect =
    Torrent group_effect
  | Files "file_effect list"
  | StopClusterDownload
  | StartClusterDownload
  | CloseControl
  | SendReply dl_reply
  | AddMetadataToAgent "string \<times> string option"

definition on_handle :: "Downloader \<Rightarrow> (nat \<Rightarrow> group_effect) \<Rightarrow> dl_effect list" where
  "on_handle d f = (case dl_torrent d of None \<Rightarrow> [] | Some h \<Rightarrow> [Torrent (f h)])"

definition dl_needed :: "dl_env \<Rightarrow> Downloader \<Rightarrow> string \<Rightarrow> bool" where
  "dl_needed e d path =
    (if c_patition_download (dl_params d) then file_needed (v_matches e) (dl_include d) (dl_exclude d) path else True)"

definition cancel_timer :: "dl_timer \<Rightarrow> Downloader \<Rightarrow> Downloader" where
  "cancel_timer x d = d\<lparr>dl_timers := removeAll x (dl_timers d)\<rparr>"

definition arm_timer :: "dl_timer \<Rightarrow> Downloader \<Rightarrow> Downloader" where
  "arm_timer x d = d\<lparr>dl_timers := x # removeAll x (dl_timers d)\<rparr>"

subsection \<open>Removing the torrent\<close>

type_synonym dl_result = "(Downloader \<times> dl_effect list) option"

definition DownloaderRemoveTorrent :: "dl_env \<Rightarrow> Downloader \<Rightarrow> dl_result" where
  "DownloaderRemoveTorrent e d =
    (case v_status e of
       None \<Rightarrow> None
     | Some ts \<Rightarrow>
         let e1 = (if dl_cluster d \<noteq> None then [StopClusterDownload] else []);
             s = dl_stat d
         in if \<not> v_valid e then Some (d, e1)
            else
              let d = (if s_for_download s \<noteq> 0
                    then d\<lparr>dl_stat := s\<lparr>s_for_seeding := v_now e - s_start_time s - s_for_download_metadata s
                      - s_for_check_files s - s_for_download s\<rparr>\<rparr> else d)
              in Some (cancel_timer ProgressTimer d, e1 @ on_handle d GRemoveTorrent))"

text \<open>Most failures remove the torrent and set the exit code.\<close>

definition remove_with :: "dl_env \<Rightarrow> int \<Rightarrow> Downloader \<Rightarrow> dl_result" where
  "remove_with e ret d = map_option (\<lambda>(d, eff). (d\<lparr>dl_ret := ret\<rparr>, eff)) (DownloaderRemoveTorrent e d)"

subsection \<open>Timers\<close>

definition dl_TimeoutTimerCallback :: "dl_env \<Rightarrow> bool \<Rightarrow> Downloader \<Rightarrow> dl_result" where
  "dl_TimeoutTimerCallback e ec d =
    (if ec then Some (d, [])
     else case v_status e of
            None \<Rightarrow> None
          | Some ts \<Rightarrow> DownloaderRemoveTorrent e (if \<not> gs_is_finished (st_base ts) then d\<lparr>dl_is_timeout := True\<rparr> else d))"

definition dl_HangCheckCallback :: "dl_env \<Rightarrow> bool \<Rightarrow> Downloader \<Rightarrow> dl_result" where
  "dl_HangCheckCallback e ec d =
    (if ec then Some (d, [])
     else case v_status e of
       None \<Rightarrow> None
     | Some st \<Rightarrow>
         let ts = st_base st; p = dl_params d;
             e1 = (if c_need_save_resume p \<and> gs_has_metadata ts \<and> gs_need_save_resume ts
                   then on_handle d GSaveResumeData else []);
             hung = (gs_state ts = GDownloading \<and> gs_total_payload_download ts = dl_last_check_downloaded d \<or>
                     gs_state ts = GDownloadingMetadata \<and> \<not> v_have_seed e)
         in if gs_progress_ppm ts = 1000000 then Some (d, e1)
            else if hung \<and> dl_last_check_time d + c_hang_timeout p - v_now e \<le> 0 then
              map_option (\<lambda>(d, eff). (d, e1 @ eff)) (DownloaderRemoveTorrent e (d\<lparr>dl_is_timeout := True\<rparr>))
            else
              let d = (if \<not> hung then d\<lparr>dl_last_check_time := v_now e, dl_last_check_downloaded := gs_total_payload_download ts\<rparr>
                       else d);
                  (d, e2) =
                    (if conf_download_limit (dl_conf d) > 2048 * 1024 \<and> gs_download_rate ts < 800 * 1024 then
                       let d = d\<lparr>dl_low_downrate_times := dl_low_downrate_times d + 1\<rparr>
                       in if dl_low_downrate_times d > 9
                          then (d\<lparr>dl_low_downrate_times := 0\<rparr>, on_handle d GPauseHandle @ on_handle d GResumeHandle)
                          else (d, [])
                     else (d, []))
              in if c_mem_limit p > 0 \<and> v_rss_mb e > c_mem_limit p then
                   map_option (\<lambda>(d, eff). (d, e1 @ e2 @ eff)) (DownloaderRemoveTorrent e (d\<lparr>dl_is_mem_exceed := True\<rparr>))
                 else Some (arm_timer HangTimer d, e1 @ e2))"

definition dl_ProgressCallback :: "dl_env \<Rightarrow> bool \<Rightarrow> Downloader \<Rightarrow> dl_result" where
  "dl_ProgressCallback e ec d =
    (if ec then Some (d, []) else if v_status e = None then None else Some (arm_timer ProgressTimer d, []))"

definition dl_SeedingTimerCallback :: "dl_env \<Rightarrow> bool \<Rightarrow> Downloader \<Rightarrow> dl_result" where
  "dl_SeedingTimerCallback e ec d = (if ec then Some (d, []) else DownloaderRemoveTorrent e d)"

definition AnnounceCallback :: "dl_env \<Rightarrow> int \<Rightarrow> Downloader \<Rightarrow> dl_result" where
  "AnnounceCallback e ret d =
    (if ret = 26234 then remove_with e 50 d
     else if ret = 10000 \<and> c_quit_by_tracker_failed (dl_params d) then remove_with e 51 d
     else Some (d, []))"

text \<open>The seconds are taken as fitting the \<open>int\<close> they are assigned to, the operands of the divisions as not negative.\<close>

definition dl_ToSeeding :: "dl_env \<Rightarrow> Downloader \<Rightarrow> dl_result" where
  "dl_ToSeeding e d =
    (case v_status e of
       None \<Rightarrow> None
     | Some st \<Rightarrow>
         let ts = st_base st; want = c_seeding_time (dl_params d) in
         if want = -1 then Some (d, [])
         else
           let upload_limit = (if gs_uploads_limit ts > 0 then gs_uploads_limit ts else conf_upload_limit (dl_conf d));
               seeding_time = (gs_num_peers ts + 1) * gs_total_payload_download ts div (1 + gs_num_seeds ts)
                 div (upload_limit + 1) div 2;
               tmp = gs_total_download ts div (gs_download_rate ts + 1)
           in Some (arm_timer SeedingTimer d,
                [Torrent (GSeedingTimer (if want \<ge> 0 then want else if tmp < seeding_time then tmp else seeding_time))]))"

subsection \<open>Alerts\<close>

text \<open>\<open>false\<close> is the flag \<open>False\<close> of the result.\<close>

type_synonym dl_flagged = "(bool \<times> Downloader \<times> dl_effect list) option"

definition dl_OnStorageMoved :: "dl_env \<Rightarrow> Downloader \<Rightarrow> dl_flagged" where
  "dl_OnStorageMoved e d =
    (case CorrectModeAndSymlinks (v_io e) (dl_needed e d) (c_save_path (dl_params d))
            (if c_dynamic_allocate (dl_params d) \<ge> 0 then dl_pre_file_priorities d else v_file_priorities e)
            (v_layout e) (dl_fs d) of
       (ok, fs, eff) \<Rightarrow>
         let d = d\<lparr>dl_fs := fs\<rparr> in
         if \<not> ok then Some (False, d, [Files eff])
         else map_option (\<lambda>(d, eff2). (True, d, [Files eff] @ eff2)) (dl_ToSeeding e d))"

definition dl_OnTorrentFinished :: "dl_env \<Rightarrow> nat \<Rightarrow> Downloader \<Rightarrow> dl_flagged" where
  "dl_OnTorrentFinished e num_pieces d =
    (let finish =
       (let s = dl_stat d;
            d = cancel_timer HangTimer (d\<lparr>dl_stat := s\<lparr>s_for_download := v_now e - s_start_time s
                  - s_for_download_metadata s - s_for_check_files s\<rparr>\<rparr>)
        in if c_need_down_to_tmp_first (dl_params d)
           then Some (True, d, on_handle d (\<lambda>h. GMoveStorage h (c_save_path (dl_params d))))
           else dl_OnStorageMoved e d)
     in if c_dynamic_allocate (dl_params d) \<ge> 0 then
          (case v_status e of
             None \<Rightarrow> None
           | Some st \<Rightarrow>
               if count_bits (gs_pieces (st_base st)) < count_bits (dl_org_pieces d) \<and> num_pieces > 0 then Some (True, d, [])
               else finish)
        else finish)"

text \<open>\<open>ti\<close>: whether the torrent has metadata, and its cluster configuration.\<close>

definition dl_OnStateChanged ::
  "dl_env \<Rightarrow> group_torrent_state \<Rightarrow> cluster_config_entry option \<Rightarrow> Downloader \<Rightarrow> bool \<times> Downloader \<times> dl_effect list" where
  "dl_OnStateChanged e state ti d =
    (let start = (state \<noteq> GDownloadingMetadata \<and> ti \<noteq> None \<and> c_dynamic_allocate (dl_params d) \<ge> 0 \<and>
           \<not> dl_has_pre_allocate_thread_start d);
         e1 = (if start then [Torrent GPreAllocate] else []);
         d = (if start then d\<lparr>dl_has_pre_allocate_thread_start := True\<rparr> else d)
     in if state \<noteq> GDownloading then (True, d, e1)
        else
          let s = dl_stat d;
              d = d\<lparr>dl_stat := s\<lparr>s_for_check_files := v_now e - s_start_time s - s_for_download_metadata s\<rparr>\<rparr>;
              usable = (dl_cluster d = None \<and> (case ti of None \<Rightarrow> False | Some c \<Rightarrow> cluster_usable c))
          in if usable \<and> \<not> v_syms e then (False, d, e1)
             else
               let d = (if usable then d\<lparr>dl_cluster := map_option (\<lambda>c. (c, 0)) ti\<rparr> else d)
               in if dl_cluster d = None then (True, d, e1)
                  else if \<not> v_cluster_starts e then (False, d, e1)
                  else (True, d, e1 @ [StartClusterDownload]))"

definition dl_OnMetadataReceived ::
  "dl_env \<Rightarrow> string list \<Rightarrow> torrent_layout \<Rightarrow> string \<Rightarrow> Downloader \<Rightarrow> Downloader \<times> dl_effect list" where
  "dl_OnMetadataReceived e file_paths ly metadata d =
    (let p = dl_params d; s = dl_stat d;
         d = d\<lparr>dl_stat := s\<lparr>s_for_download_metadata := v_now e - s_start_time s\<rparr>,
               dl_pre_file_priorities := resize (length file_paths) 1 (dl_pre_file_priorities d)\<rparr>;
         ps = ParseNeedDownloadFiles (v_matches e) (dl_include d) (dl_exclude d) file_paths [];
         (d, e1) = (if c_patition_download p
                    then (d\<lparr>dl_pre_file_priorities := ps\<rparr>, on_handle d (\<lambda>h. GPrioritizeFiles h ps)) else (d, []));
         d = d\<lparr>dl_org_pieces := DownloaderSetOrgPieces ly (dl_pre_file_priorities d) (dl_org_pieces d)\<rparr>
     in case dl_meta_msg d of
          None \<Rightarrow> (d, e1)
        | Some (h, data) \<Rightarrow>
            (d\<lparr>dl_meta_msg := (if int (length metadata) > conf_max_metadata_size (dl_conf d) then None else Some (h, Some metadata))\<rparr>,
             e1 @ (if c_save_torrent_path p \<noteq> [] \<and> v_opens e (c_save_torrent_path p)
                   then [Torrent (GTruncateFile (c_save_torrent_path p))] else [])))"

datatype dl_alert =
    ASaveResumeData string
  | AListenFailed bool
  | AStateChanged group_torrent_state "cluster_config_entry option"
  | AMetadataReceived "string list" torrent_layout string
  | ATorrentFinished nat
  | AStorageMoved
  | ATorrentError
  | AHashFailed nat
  | ATorrentRemoved
  | AStorageMovedFailed
  | AOther

text \<open>\<open>AListenFailed\<close> says whether it is a TCP failure on an IPv4 address with a port.\<close>

definition flagged_remove :: "dl_env \<Rightarrow> int \<Rightarrow> dl_flagged \<Rightarrow> dl_result" where
  "flagged_remove e ret r =
    (case r of
       None \<Rightarrow> None
     | Some (ok, d, eff) \<Rightarrow>
         if ok then Some (d, eff) else map_option (\<lambda>(d, eff2). (d, eff @ eff2)) (remove_with e ret d))"

fun process_one :: "dl_env \<Rightarrow> dl_alert \<Rightarrow> Downloader \<Rightarrow> dl_result" where
  "process_one e (ASaveResumeData bytes) d =
    Some (d, if v_opens e (dl_resume_file d) then [Torrent (GWriteResumeData (dl_resume_file d) bytes)] else [])"
| "process_one e (AListenFailed relevant) d = (if relevant then remove_with e (-2) d else Some (d, []))"
| "process_one e (AStateChanged st ti) d = flagged_remove e (-3) (Some (dl_OnStateChanged e st ti d))"
| "process_one e (AMetadataReceived fs ly md) d = Some (dl_OnMetadataReceived e fs ly md d)"
| "process_one e (ATorrentFinished n) d = flagged_remove e (-4) (dl_OnTorrentFinished e n d)"
| "process_one e AStorageMoved d = flagged_remove e (-5) (dl_OnStorageMoved e d)"
| "process_one e ATorrentError d = remove_with e (-6) d"
| "process_one e (AHashFailed i) d = Some (d, if dl_cluster d \<noteq> None then [Torrent (GHashFailed i)] else [])"
| "process_one e ATorrentRemoved d =
    Some (d\<lparr>dl_ret := (if dl_is_timeout d then -7 else if dl_is_mem_exceed d then -9 else dl_ret d), dl_should_stop := True\<rparr>, [])"
| "process_one e AStorageMovedFailed d = remove_with e (-8) d"
| "process_one e AOther d = Some (d, [])"

fun process_alerts :: "dl_env \<Rightarrow> dl_alert list \<Rightarrow> Downloader \<Rightarrow> dl_result" where
  "process_alerts e [] d = Some (d, [])"
| "process_alerts e (a # as) d =
    (case process_one e a d of
       None \<Rightarrow> None
     | Some (d, eff) \<Rightarrow> map_option (\<lambda>(d, eff2). (d, eff @ eff2)) (process_alerts e as d))"

definition check_cluster :: "dl_env \<Rightarrow> Downloader \<Rightarrow> dl_result" where
  "check_cluster e d =
    (case dl_cluster d of
       None \<Rightarrow> Some (d, [])
     | Some (c, retval) \<Rightarrow>
         if \<not> (v_cluster_stopped e \<and> retval \<noteq> 0) then Some (d, [])
         else case v_status e of
                None \<Rightarrow> None
              | Some st \<Rightarrow>
                  if \<not> gs_is_finished (st_base st) then DownloaderRemoveTorrent e (d\<lparr>dl_ret := retval\<rparr>)
                  else Some (d\<lparr>dl_cluster := Some (c, 0)\<rparr>, []))"

definition ProcessAlert :: "dl_env \<Rightarrow> bool \<Rightarrow> dl_alert list \<Rightarrow> bool \<Rightarrow> Downloader \<Rightarrow> dl_result" where
  "ProcessAlert e catch_stop_sigal alerts loop d =
    (case (if catch_stop_sigal then remove_with e 20 d else Some (d, [])) of
       None \<Rightarrow> None
     | Some (d, e1) \<Rightarrow>
         (case process_alerts e alerts d of
            None \<Rightarrow> None
          | Some (d, e2) \<Rightarrow>
              (case check_cluster e d of
                 None \<Rightarrow> None
               | Some (d, e3) \<Rightarrow>
                   let (d, e4) = (if dl_should_stop d then (d\<lparr>dl_timers := []\<rparr>, [CloseControl]) else (d, []));
                       d = d\<lparr>dl_posted := (if loop then Some (\<not> dl_should_stop d) else None)\<rparr>
                   in Some (d, e1 @ e2 @ e3 @ e4))))"

subsection \<open>Preparing\<close>

record prepare_env =
  pe_now :: int
  pe_mkdir_r :: "string \<Rightarrow> bool"
  pe_mkdir :: "string \<Rightarrow> bool"
  pe_file_size :: "string \<Rightarrow> int"
  pe_parse_torrent :: "string \<Rightarrow> string \<Rightarrow> (string \<times> string list \<times> torrent_layout) option"
  pe_matches :: "string \<Rightarrow> string \<Rightarrow> bool"
  pe_opens :: "string \<Rightarrow> bool"
  pe_resume_data :: "string \<Rightarrow> string option"
  pe_add_torrent :: "group_torrent_params \<Rightarrow> nat option"
  pe_parse_syms :: bool
  pe_trackers :: "string \<Rightarrow> (string \<times> int) list"

text \<open>
  Where the torrent comes from: its info hash in bytes, or none for a URL, and the file priorities.
  \<open>pe_parse_torrent\<close> gives the info hash, the file paths and the layout of a torrent file.
\<close>

definition choose_source ::
  "prepare_env \<Rightarrow> Downloader \<Rightarrow> (Downloader \<times> dl_effect list) + (Downloader \<times> string option \<times> int list \<times> dl_effect list)" where
  "choose_source e d =
    (let p = dl_params d in
     if c_torrent_path p \<noteq> [] then
       (let sz = pe_file_size e (c_torrent_path p) in
        if sz \<le> 0 \<or> sz > conf_max_metadata_size (dl_conf d) then Inl (d, [])
        else case pe_parse_torrent e (c_torrent_path p) (c_new_name p) of
               None \<Rightarrow> Inl (d, [])
             | Some (hash, paths, ly) \<Rightarrow>
                 let d = d\<lparr>dl_params := p\<lparr>c_infohash := BytesToHex hash\<rparr>\<rparr>;
                     priorities = (if c_patition_download p
                       then ParseNeedDownloadFiles (pe_matches e) (dl_include d) (dl_exclude d) paths [] else []);
                     pre = (if c_patition_download p then priorities else resize (length paths) 1 (dl_pre_file_priorities d));
                     d = d\<lparr>dl_pre_file_priorities := pre, dl_org_pieces := DownloaderSetOrgPieces ly pre (dl_org_pieces d)\<rparr>
                 in Inr (d, Some hash, priorities, []))
     else if c_torrent_url p \<noteq> [] then
       Inr (d\<lparr>dl_params := p\<lparr>c_need_save_resume := False, c_need_down_to_tmp_first := False\<rparr>\<rparr>, None, [], [])
     else if c_infohash p \<noteq> [] then
       (if c_save_torrent_path p \<noteq> [] \<and> \<not> pe_opens e (c_save_torrent_path p) then Inl (d, [])
        else
          let eff = (if c_save_torrent_path p \<noteq> [] then [Torrent (GTruncateFile (c_save_torrent_path p))] else [])
          in if length (c_infohash p) \<noteq> 40 then Inl (d, eff)
             else case HexstrToBytes (c_infohash p) of
                    None \<Rightarrow> Inl (d, eff)
                  | Some bytes \<Rightarrow> Inr (d\<lparr>dl_meta_msg := Some (c_infohash p, None)\<rparr>, Some bytes, [], eff))
     else Inl (d, []))"

definition dl_path :: "down_params_t \<Rightarrow> string \<Rightarrow> string \<Rightarrow> string" where
  "dl_path p dir suffix = dir @ ''/.gko3_'' @ c_infohash p @ ''_'' @ c_new_name p @ suffix"

definition dl_torrent_params :: "prepare_env \<Rightarrow> string option \<Rightarrow> int list \<Rightarrow> Downloader \<Rightarrow> group_torrent_params" where
  "dl_torrent_params e hash priorities d =
    (let p = dl_params d in
     \<lparr>gp_info_hash = (case hash of None \<Rightarrow> [] | Some h \<Rightarrow> h), gp_url = (if hash = None then c_torrent_url p else []),
      gp_trackers = c_trackers p, gp_save_path = dl_tmp_save_path d,
      gp_resume_data = (if c_need_save_resume p then pe_resume_data e (dl_resume_file d) else None),
      gp_file_priorities = priorities, gp_allocate = c_storage_pre_allocate p, gp_duplicate_is_error = True,
      gp_override_resume_data = True, gp_paused = True, gp_auto_managed = False,
      gp_download_limit = conf_download_limit (dl_conf d), gp_upload_limit = conf_upload_limit (dl_conf d),
      gp_max_connections = conf_connection_limit (dl_conf d), gp_url_seeds = c_web_seeds p\<rparr>)"

definition AddDownloadTask :: "prepare_env \<Rightarrow> Downloader \<Rightarrow> bool \<times> Downloader \<times> dl_effect list" where
  "AddDownloadTask e d =
    (if c_save_path (dl_params d) = [] \<or> \<not> pe_mkdir_r e (c_save_path (dl_params d)) then (False, d, [])
     else case choose_source e d of
            Inl (d, eff) \<Rightarrow> (False, d, eff)
          | Inr (d, hash, priorities, eff) \<Rightarrow>
              let p = dl_params d;
                  p = (if c_trackers p = [] then p\<lparr>c_trackers := pe_trackers e (c_infohash p)\<rparr> else p);
                  tmp = (if c_need_down_to_tmp_first p then dl_path p (c_save_path p) ''.tmp'' else c_save_path p);
                  d = d\<lparr>dl_params := p, dl_tmp_save_path := tmp\<rparr>
              in if c_need_down_to_tmp_first p \<and> \<not> pe_mkdir e tmp then (False, d, eff)
                 else
                   let d = (if c_need_save_resume p then d\<lparr>dl_resume_file := dl_path p tmp ''.resume''\<rparr> else d);
                       tp = dl_torrent_params e hash priorities d;
                       eff = eff @ [Torrent (GAddTorrent tp)]
                   in case pe_add_torrent e tp of
                        None \<Rightarrow> (False, d, eff)
                      | Some h \<Rightarrow>
                          let d = d\<lparr>dl_torrent := Some h\<rparr>;
                              eff = eff @ (if c_dynamic_allocate p \<ge> 0 then [Torrent (GShareMode h True)] else [])
                          in if ce_prefix_path (c_cluster_config p) = [] then (True, d, eff)
                             else if \<not> pe_parse_syms e then (False, d, eff)
                             else (True, d\<lparr>dl_cluster := Some (c_cluster_config p, 0)\<rparr>, eff))"

definition dl_StartDownload :: "prepare_env \<Rightarrow> Downloader \<Rightarrow> Downloader \<times> dl_effect list" where
  "dl_StartDownload e d =
    (let p = dl_params d;
         d = arm_timer HangTimer (d\<lparr>dl_stat := (dl_stat d)\<lparr>s_start_time := pe_now e\<rparr>\<rparr>);
         d = (if c_timeout p > 0 then arm_timer TimeoutTimer d else d);
         d = (if c_print_progress p then arm_timer ProgressTimer d else d)
     in (d, on_handle d GResumeHandle @ on_handle d (\<lambda>h. GAutoManaged h True) @
            (if c_timeout p > 0 then [Torrent (GTimeoutTimer (c_timeout p))] else [])))"

text \<open>The trackers: none are loaded when the user gave some; otherwise the dynamic file, then the one beside the program.\<close>

definition dl_load_trackers ::
  "string \<Rightarrow> TrackerConf option \<Rightarrow> TrackerConf option option \<Rightarrow> Downloader \<Rightarrow> ThriftTracker \<Rightarrow> bool \<times> ThriftTracker" where
  "dl_load_trackers hostname dynamic static d t =
    (if c_trackers (dl_params d) \<noteq> [] then (True, t)
     else case LoadThriftTrackers hostname dynamic t of
            (ok, t) \<Rightarrow>
              if ok then (True, t)
              else case static of None \<Rightarrow> (False, t) | Some conf \<Rightarrow> LoadThriftTrackers hostname conf t)"

subsection \<open>The control socket\<close>

definition DownloaderStatusCode :: "dl_status \<Rightarrow> status_t" where
  "DownloaderStatusCode st =
    (if st_error st \<noteq> [] then ERROR
     else if st_paused st then PAUSED
     else if gs_is_finished (st_base st) then SEEDING_STATUS
     else case gs_state (st_base st) of
            GDownloadingMetadata \<Rightarrow> DTORRENT
          | GCheckingResumeData \<Rightarrow> CHECKQ
          | GQueuedForChecking \<Rightarrow> CHECKQ
          | GCheckingFiles \<Rightarrow> CHECKING
          | _ \<Rightarrow> DOWNLOAD)"

definition dl_ListTask :: "dl_env \<Rightarrow> Downloader \<Rightarrow> dl_reply option" where
  "dl_ListTask e d =
    map_option (\<lambda>st. ListReply (c_infohash (dl_params d)) (c_save_path (dl_params d)) (DownloaderStatusCode st) st) (v_status e)"

text \<open>The flag says whether the message parses; the lists of a control message are not read.\<close>

datatype dl_request =
    ReqSetOpt bool "int option" "int option" "int option"
  | ReqGetOpt bool bool bool bool
  | ReqBatchCtrl bool bool
  | ReqUnknown

definition set_limit_opt :: "int option \<Rightarrow> (int \<Rightarrow> DownloadConfigure \<Rightarrow> DownloadConfigure) \<Rightarrow> limit_kind \<Rightarrow> Downloader \<Rightarrow> Downloader \<times> dl_effect list" where
  "set_limit_opt v upd kind d =
    (case v of None \<Rightarrow> (d, []) | Some v \<Rightarrow> (d\<lparr>dl_conf := upd v (dl_conf d)\<rparr>, on_handle d (\<lambda>h. GSetLimit h kind v)))"

fun ControlHandler :: "dl_env \<Rightarrow> dl_request \<Rightarrow> Downloader \<Rightarrow> dl_result" where
  "ControlHandler e (ReqSetOpt parsed dl ul mc) d =
    (if \<not> parsed then Some (d, [SendReply (BaseReply False)])
     else
       case set_limit_opt dl (\<lambda>v. conf_download_limit_update (\<lambda>_. v)) DownLimit d of (d, e1) \<Rightarrow>
       case set_limit_opt ul (\<lambda>v. conf_upload_limit_update (\<lambda>_. v)) UpLimit d of (d, e2) \<Rightarrow>
       case set_limit_opt mc (\<lambda>v. conf_connection_limit_update (\<lambda>_. v)) ConnLimit d of (d, e3) \<Rightarrow>
         Some (d, e1 @ e2 @ e3 @ [SendReply (BaseReply True)]))"
| "ControlHandler e (ReqGetOpt parsed dl ul mc) d =
    (if \<not> parsed then Some (d, [SendReply (BaseReply False)])
     else Some (d, [SendReply (OptionsReply (if dl then Some (conf_download_limit (dl_conf d)) else None)
       (if ul then Some (conf_upload_limit (dl_conf d)) else None)
       (if mc then Some (conf_connection_limit (dl_conf d)) else None))]))"
| "ControlHandler e (ReqBatchCtrl parsed is_list) d =
    (if is_list then
       (case dl_ListTask e d of
          None \<Rightarrow> None
        | Some r \<Rightarrow> Some (d, [SendReply r] @ (if parsed then [] else [SendReply (BaseReply False)])))
     else Some (d, [SendReply (BaseReply False)]))"
| "ControlHandler e ReqUnknown d = Some (d, [SendReply (BaseReply False)])"

subsection \<open>The loop\<close>

datatype dl_event =
    ETimer dl_timer bool
  | EAnnounce int
  | EAlerts bool "dl_alert list"
  | EControl dl_request
  | EClusterFails int

text \<open>
  One handler of the event loop; a timer that fires is no longer armed. A cluster thread that gives up sets the
  return value the loop reads.
\<close>

fun dl_step :: "dl_env \<Rightarrow> dl_event \<Rightarrow> Downloader \<Rightarrow> dl_result" where
  "dl_step e (ETimer x ec) d =
    (let d = cancel_timer x d in
     case x of SeedingTimer \<Rightarrow> dl_SeedingTimerCallback e ec d | TimeoutTimer \<Rightarrow> dl_TimeoutTimerCallback e ec d
     | HangTimer \<Rightarrow> dl_HangCheckCallback e ec d | ProgressTimer \<Rightarrow> dl_ProgressCallback e ec d)"
| "dl_step e (EAnnounce ret) d = AnnounceCallback e ret d"
| "dl_step e (EAlerts catch alerts) d =
    (case dl_posted d of None \<Rightarrow> Some (d, []) | Some loop \<Rightarrow> ProcessAlert e catch alerts loop d)"
| "dl_step e (EControl r) d = ControlHandler e r d"
| "dl_step e (EClusterFails ret) d =
    Some (d\<lparr>dl_cluster := map_option (\<lambda>(c, _). (c, ret)) (dl_cluster d)\<rparr>, [])"

text \<open>\<open>io_service_.run\<close> over the events that arrive; the flag is an exception, and a handler that throws is taken to
  have had no effect.\<close>

fun dl_run :: "(dl_env \<times> dl_event) list \<Rightarrow> Downloader \<Rightarrow> bool \<times> Downloader \<times> dl_effect list" where
  "dl_run [] d = (False, d, [])"
| "dl_run ((e, ev) # es) d =
    (case dl_step e ev d of
       None \<Rightarrow> (True, d, [])
     | Some (d, eff) \<Rightarrow> (case dl_run es d of (ex, d, eff2) \<Rightarrow> (ex, d, eff @ eff2)))"

text \<open>From the parameters to the exit code; \<open>serves\<close>: the control socket could be opened.\<close>

definition Download :: "bool \<Rightarrow> prepare_env \<Rightarrow> bool \<Rightarrow> (dl_env \<times> dl_event) list \<Rightarrow> Downloader \<Rightarrow> int \<times> dl_effect list" where
  "Download init_ok p serves events d =
    (if \<not> init_ok then (-1, [])
     else case AddDownloadTask p d of
            (ok, d, e1) \<Rightarrow>
              if \<not> ok \<or> c_control_path (dl_params d) \<noteq> [] \<and> \<not> serves then (-1, e1)
              else
                case dl_StartDownload p (d\<lparr>dl_ret := 0\<rparr>) of (d, e2) \<Rightarrow>
                case dl_run events (d\<lparr>dl_posted := Some True\<rparr>) of (ex, d, e3) \<Rightarrow>
                  let ret = (if ex then -1 else dl_ret d)
                  in (ret, e1 @ e2 @ e3 @
                       (if ret \<noteq> 0 then []
                        else [Torrent (GUnlink (dl_resume_file d)), Torrent (GRmdir (dl_tmp_save_path d))] @
                             (case dl_meta_msg d of None \<Rightarrow> [] | Some m \<Rightarrow> [AddMetadataToAgent m]))))"

subsection \<open>A failure is never forgotten\<close>

text \<open>The flag of the state that handlers only set, and the exit code they never clear.\<close>

definition keeps_failure :: "Downloader \<Rightarrow> Downloader \<Rightarrow> bool" where
  "keeps_failure d d' \<longleftrightarrow> (dl_ret d \<noteq> 0 \<longrightarrow> dl_ret d' \<noteq> 0) \<and> (dl_should_stop d \<longrightarrow> dl_should_stop d') \<and>
     dl_posted d' = dl_posted d"

definition cleans_up :: "dl_effect \<Rightarrow> bool" where
  "cleans_up x \<longleftrightarrow> (\<exists>f. x = Torrent (GUnlink f) \<or> x = Torrent (GRmdir f))"

definition ok_result :: "Downloader \<Rightarrow> dl_result \<Rightarrow> bool" where
  "ok_result d r \<longleftrightarrow> (case r of None \<Rightarrow> True | Some (d', eff) \<Rightarrow> keeps_failure d d' \<and> \<not> list_ex cleans_up eff)"

lemma keeps_failure_trans: "keeps_failure d d' \<Longrightarrow> keeps_failure d' d'' \<Longrightarrow> keeps_failure d d''"
  by (simp add: keeps_failure_def)

lemma keeps_failure_simps [simp]:
  "keeps_failure d d" "keeps_failure d (cancel_timer x d') = keeps_failure d d'" "keeps_failure d (arm_timer x d') = keeps_failure d d'"
  "keeps_failure (cancel_timer x d) d' = keeps_failure d d'" "keeps_failure (arm_timer x d) d' = keeps_failure d d'"
  by (auto simp: keeps_failure_def cancel_timer_def arm_timer_def)

lemma on_handle_clean [simp]:
  "(\<And>h. \<not> cleans_up (Torrent (f h))) \<Longrightarrow> \<not> list_ex cleans_up (on_handle d f)"
  by (simp add: on_handle_def split: option.split)

lemma cleans_up_simps [simp]:
  "\<not> cleans_up (Torrent (GRemoveTorrent h))" "\<not> cleans_up (Torrent (GSaveResumeData h))" "\<not> cleans_up (Torrent (GPauseHandle h))"
  "\<not> cleans_up (Torrent (GResumeHandle h))" "\<not> cleans_up (Torrent (GSeedingTimer n))" "\<not> cleans_up (Torrent (GMoveStorage h q))"
  "\<not> cleans_up (Torrent GPreAllocate)" "\<not> cleans_up (Torrent (GPrioritizeFiles h ps))" "\<not> cleans_up (Torrent (GTruncateFile f))"
  "\<not> cleans_up (Torrent (GWriteResumeData f q))" "\<not> cleans_up (Torrent (GHashFailed i))" "\<not> cleans_up (Torrent (GAddTorrent tp))"
  "\<not> cleans_up (Torrent (GShareMode h b))" "\<not> cleans_up (Torrent (GAutoManaged h b))" "\<not> cleans_up (Torrent (GTimeoutTimer n))"
  "\<not> cleans_up (Torrent (GSetLimit h kind v))" "\<not> cleans_up (Files fe)" "\<not> cleans_up StopClusterDownload"
  "\<not> cleans_up StartClusterDownload" "\<not> cleans_up CloseControl" "\<not> cleans_up (SendReply r)" "\<not> cleans_up (AddMetadataToAgent m)"
  by (simp_all add: cleans_up_def)

lemma ok_result_simps [simp]: "ok_result d None" "ok_result d (Some (d', eff)) = (keeps_failure d d' \<and> \<not> list_ex cleans_up eff)"
  by (simp_all add: ok_result_def)

lemma ok_result_RemoveTorrent: "keeps_failure d d' \<Longrightarrow> ok_result d (DownloaderRemoveTorrent e d')"
  by (auto simp: ok_result_def DownloaderRemoveTorrent_def Let_def keeps_failure_def cancel_timer_def split: option.split)

lemma ok_result_remove_with:
  assumes "keeps_failure d d'" "ret \<noteq> 0"
  shows "ok_result d (remove_with e ret d')"
  using ok_result_RemoveTorrent [OF assms(1), of e] assms(2)
  by (auto simp: ok_result_def remove_with_def keeps_failure_def split: option.splits prod.splits)

lemma ok_result_prefix:
  "ok_result d r \<Longrightarrow> \<not> list_ex cleans_up e1 \<Longrightarrow> ok_result d (map_option (\<lambda>(d, eff). (d, e1 @ eff)) r)"
  "ok_result d r \<Longrightarrow> \<not> list_ex cleans_up (e1 @ e2) \<Longrightarrow> ok_result d (map_option (\<lambda>(d, eff). (d, e1 @ e2 @ eff)) r)"
  by (auto simp: ok_result_def split: option.splits)

lemma ok_result_trans:
  "ok_result d (Some (d', eff)) \<Longrightarrow> ok_result d' r \<Longrightarrow> ok_result d r"
  by (auto simp: ok_result_def split: option.splits intro: keeps_failure_trans)

lemma timer_callbacks_ok:
  "ok_result d (dl_TimeoutTimerCallback e ec d)" "ok_result d (dl_ProgressCallback e ec d)"
  "ok_result d (dl_SeedingTimerCallback e ec d)" "ok_result d (AnnounceCallback e ret d)"
proof -
  show "ok_result d (dl_TimeoutTimerCallback e ec d)"
    by (auto simp: dl_TimeoutTimerCallback_def keeps_failure_def split: option.split intro!: ok_result_RemoveTorrent)
  show "ok_result d (dl_ProgressCallback e ec d)" by (auto simp: dl_ProgressCallback_def)
  show "ok_result d (dl_SeedingTimerCallback e ec d)"
    by (auto simp: dl_SeedingTimerCallback_def intro: ok_result_RemoveTorrent)
  show "ok_result d (AnnounceCallback e ret d)"
    by (auto simp: AnnounceCallback_def intro: ok_result_remove_with)
qed

lemma ok_result_cases:
  "(b \<Longrightarrow> ok_result d r) \<Longrightarrow> (\<not> b \<Longrightarrow> ok_result d r') \<Longrightarrow> ok_result d (if b then r else r')"
  "\<not> list_ex cleans_up (snd x) \<Longrightarrow> keeps_failure d (fst x) \<Longrightarrow>
   (\<And>d' eff. keeps_failure d d' \<Longrightarrow> \<not> list_ex cleans_up eff \<Longrightarrow> ok_result d (f d' eff)) \<Longrightarrow> ok_result d (case x of (d', eff) \<Rightarrow> f d' eff)"
  by (auto split: prod.split)

lemma keeps_failure_updates [simp]:
  "keeps_failure d (d'\<lparr>dl_is_timeout := x\<rparr>) = keeps_failure d d'" "keeps_failure d (d'\<lparr>dl_is_mem_exceed := x\<rparr>) = keeps_failure d d'"
  "keeps_failure d (d'\<lparr>dl_low_downrate_times := n\<rparr>) = keeps_failure d d'" "keeps_failure d (d'\<lparr>dl_stat := s\<rparr>) = keeps_failure d d'"
  "keeps_failure d (d'\<lparr>dl_last_check_time := t, dl_last_check_downloaded := i\<rparr>) = keeps_failure d d'"
  "keeps_failure d (d'\<lparr>dl_fs := fs\<rparr>) = keeps_failure d d'" "keeps_failure d (d'\<lparr>dl_has_pre_allocate_thread_start := x\<rparr>) = keeps_failure d d'"
  "keeps_failure d (d'\<lparr>dl_cluster := c\<rparr>) = keeps_failure d d'" "keeps_failure d (d'\<lparr>dl_meta_msg := m\<rparr>) = keeps_failure d d'"
  "keeps_failure d (d'\<lparr>dl_org_pieces := bs\<rparr>) = keeps_failure d d'" "keeps_failure d (d'\<lparr>dl_pre_file_priorities := ps\<rparr>) = keeps_failure d d'"
  "keeps_failure d (d'\<lparr>dl_conf := conf\<rparr>) = keeps_failure d d'"
  by (simp_all add: keeps_failure_def)

lemma HangCheck_ok: "ok_result d (dl_HangCheckCallback e ec d)"
proof (cases "ec \<or> v_status e = None")
  case True
  then show ?thesis by (auto simp: dl_HangCheckCallback_def)
next
  case False
  then obtain st where "\<not> ec" "v_status e = Some st" by auto
  then show ?thesis
    unfolding dl_HangCheckCallback_def Let_def
    by (simp only: if_False option.case)
      (intro ok_result_cases ok_result_prefix ok_result_RemoveTorrent; simp)
qed

definition ok_flagged :: "Downloader \<Rightarrow> dl_flagged \<Rightarrow> bool" where
  "ok_flagged d r = ok_result d (map_option snd r)"

lemma ok_flagged_remove:
  assumes "ok_flagged d r" "ret \<noteq> 0"
  shows "ok_result d (flagged_remove e ret r)"
  using assms
  by (auto simp: ok_flagged_def flagged_remove_def split: option.split prod.split
      intro!: ok_result_prefix ok_result_remove_with)

lemma ToSeeding_ok: "keeps_failure d d' \<Longrightarrow> ok_result d (dl_ToSeeding e d')"
  by (auto simp: dl_ToSeeding_def Let_def cleans_up_def split: option.split)

lemma StorageMoved_ok: "keeps_failure d d' \<Longrightarrow> ok_flagged d (dl_OnStorageMoved e d')"
proof -
  assume keeps: "keeps_failure d d'"
  obtain ok fs eff where "CorrectModeAndSymlinks (v_io e) (dl_needed e d') (c_save_path (dl_params d'))
      (if c_dynamic_allocate (dl_params d') \<ge> 0 then dl_pre_file_priorities d' else v_file_priorities e)
      (v_layout e) (dl_fs d') = (ok, fs, eff)" by (metis prod_cases3)
  then show ?thesis
    using keeps ToSeeding_ok [of d "d'\<lparr>dl_fs := fs\<rparr>" e]
    by (cases "dl_ToSeeding e (d'\<lparr>dl_fs := fs\<rparr>)") (auto simp: dl_OnStorageMoved_def ok_flagged_def Let_def)
qed

lemma TorrentFinished_ok: "ok_flagged d (dl_OnTorrentFinished e n d)"
  by (auto simp: dl_OnTorrentFinished_def Let_def split: option.split intro!: StorageMoved_ok)
    (auto simp: ok_flagged_def on_handle_def split: option.split)

lemma StateChanged_ok: "ok_flagged d (Some (dl_OnStateChanged e st ti d))"
  by (auto simp: dl_OnStateChanged_def ok_flagged_def Let_def)

lemma MetadataReceived_ok: "ok_result d (Some (dl_OnMetadataReceived e fs ly md d))"
  by (auto simp: dl_OnMetadataReceived_def Let_def on_handle_def split: option.split)

lemma TorrentRemoved_ok: "ok_result d (process_one e ATorrentRemoved d)"
  by (auto simp: keeps_failure_def)

lemma process_one_ok: "ok_result d (process_one e a d)"
proof (cases a)
  case (AStateChanged st ti)
  then show ?thesis using ok_flagged_remove [OF StateChanged_ok, of "-3"] by simp
next
  case (AMetadataReceived fs ly md)
  then show ?thesis using MetadataReceived_ok by simp
next
  case (ATorrentFinished n)
  then show ?thesis using ok_flagged_remove [OF TorrentFinished_ok, of "-4"] by simp
next
  case AStorageMoved
  then show ?thesis using ok_flagged_remove [OF StorageMoved_ok, of d d "-5"] by simp
next
  case ATorrentRemoved
  then show ?thesis using TorrentRemoved_ok by blast
qed (auto intro!: ok_result_remove_with)

lemma ok_result_chain:
  "ok_result d r \<Longrightarrow> (\<And>d'. ok_result d' (f d')) \<Longrightarrow>
   ok_result d (case r of None \<Rightarrow> None | Some (d', eff) \<Rightarrow> map_option (\<lambda>(d'', eff2). (d'', eff @ eff2)) (f d'))"
proof (cases r)
  case (Some a)
  assume "ok_result d r" "\<And>d'. ok_result d' (f d')"
  moreover obtain d' eff where "a = (d', eff)" by (cases a)
  ultimately show ?thesis
    using Some by (auto intro!: ok_result_prefix intro: ok_result_trans)
qed simp

lemma process_alerts_ok: "ok_result d (process_alerts e as d)"
  by (induction as arbitrary: d) (simp_all add: ok_result_chain process_one_ok)

lemma check_cluster_ok: "ok_result d (check_cluster e d)"
proof -
  have "ok_result d (DownloaderRemoveTorrent e (d\<lparr>dl_ret := ret\<rparr>))" if "ret \<noteq> 0" for ret
    by (rule ok_result_RemoveTorrent) (simp add: keeps_failure_def that)
  then show ?thesis
    by (auto simp: check_cluster_def split: option.split)
qed

text \<open>One round of alerts: the failure is kept, and the loop goes on exactly when the torrent is still there.\<close>

definition keeps_ret :: "Downloader \<Rightarrow> Downloader \<Rightarrow> bool" where
  "keeps_ret d d' \<longleftrightarrow> (dl_ret d \<noteq> 0 \<longrightarrow> dl_ret d' \<noteq> 0) \<and> (dl_should_stop d \<longrightarrow> dl_should_stop d')"

lemma keeps_failure_ret: "keeps_failure d d' \<Longrightarrow> keeps_ret d d'"
  by (simp add: keeps_failure_def keeps_ret_def)

lemma keeps_ret_trans: "keeps_ret d d' \<Longrightarrow> keeps_ret d' d'' \<Longrightarrow> keeps_ret d d''"
  by (simp add: keeps_ret_def)

fun fatal_alert :: "dl_alert \<Rightarrow> bool" where
  "fatal_alert (AListenFailed relevant) = relevant"
| "fatal_alert ATorrentError = True"
| "fatal_alert AStorageMovedFailed = True"
| "fatal_alert _ = False"

lemma remove_with_ret: "remove_with e ret d = Some (d', eff) \<Longrightarrow> dl_ret d' = ret"
  by (auto simp: remove_with_def)

lemma process_one_fatal:
  assumes "process_one e a d = Some (d', eff)" "fatal_alert a"
  shows "dl_ret d' \<noteq> 0"
  using assms by (cases a) (auto dest: remove_with_ret split: if_splits)

lemma process_one_removed: "process_one e ATorrentRemoved d = Some (d', eff) \<Longrightarrow> dl_should_stop d'"
  by auto

lemma process_alerts_marks:
  assumes "process_alerts e as d = Some (d', eff)"
  shows "list_ex fatal_alert as \<longrightarrow> dl_ret d' \<noteq> 0" "ATorrentRemoved \<in> set as \<longrightarrow> dl_should_stop d'"
proof -
  have "(list_ex fatal_alert as \<longrightarrow> dl_ret d' \<noteq> 0) \<and> (ATorrentRemoved \<in> set as \<longrightarrow> dl_should_stop d')"
    using assms
  proof (induction as arbitrary: d eff)
    case (Cons a as)
    then obtain d1 e1 e2 where one: "process_one e a d = Some (d1, e1)" and rest: "process_alerts e as d1 = Some (d', e2)"
      by (auto split: option.splits)
    have "keeps_failure d1 d'" using process_alerts_ok [of d1 e as] rest by simp
    moreover have "fatal_alert a \<longrightarrow> dl_ret d1 \<noteq> 0" using process_one_fatal [OF one] by simp
    moreover have "a = ATorrentRemoved \<longrightarrow> dl_should_stop d1" using process_one_removed one by blast
    ultimately show ?case using Cons.IH [OF rest] by (auto simp: keeps_failure_def)
  qed simp
  then show "list_ex fatal_alert as \<longrightarrow> dl_ret d' \<noteq> 0" "ATorrentRemoved \<in> set as \<longrightarrow> dl_should_stop d'" by blast+
qed

lemma ProcessAlert_parts:
  assumes "ProcessAlert e c as loop d = Some (d', eff)"
  obtains d1 e1 d2 e2 d3 e3 where
    "(if c then remove_with e 20 d else Some (d, [])) = Some (d1, e1)" "process_alerts e as d1 = Some (d2, e2)"
    "check_cluster e d2 = Some (d3, e3)"
    "d' = (if dl_should_stop d3 then d3\<lparr>dl_timers := []\<rparr> else d3)\<lparr>dl_posted := (if loop then Some (\<not> dl_should_stop d3) else None)\<rparr>"
    "eff = e1 @ e2 @ e3 @ (if dl_should_stop d3 then [CloseControl] else [])"
  using assms by (auto simp: ProcessAlert_def Let_def split: option.splits if_splits)

lemma ProcessAlert_round:
  assumes "ProcessAlert e c as loop d = Some (d', eff)"
  shows "keeps_ret d d' \<and> \<not> list_ex cleans_up eff \<and> (c \<or> list_ex fatal_alert as \<longrightarrow> dl_ret d' \<noteq> 0) \<and>
    (ATorrentRemoved \<in> set as \<longrightarrow> dl_should_stop d') \<and> (dl_should_stop d' \<longrightarrow> dl_timers d' = []) \<and>
    dl_posted d' = (if loop then Some (\<not> dl_should_stop d') else None)"
  using assms
proof (cases rule: ProcessAlert_parts)
  case (1 d1 e1 d2 e2 d3 e3)
  have one: "keeps_failure d d1 \<and> \<not> list_ex cleans_up e1 \<and> (c \<longrightarrow> dl_ret d1 \<noteq> 0)"
    using 1(1) ok_result_remove_with [of d d 20 e] remove_with_ret [of e 20 d] by (auto split: if_splits)
  have two: "keeps_failure d1 d2 \<and> \<not> list_ex cleans_up e2" using process_alerts_ok [of d1 e as] 1(2) by simp
  have three: "keeps_failure d2 d3 \<and> \<not> list_ex cleans_up e3" using check_cluster_ok [of d2 e] 1(3) by simp
  note marks = process_alerts_marks [OF 1(2)]
  have keeps: "keeps_failure d d3" using one two three by (blast intro: keeps_failure_trans)
  have fields: "dl_ret d' = dl_ret d3" "dl_should_stop d' = dl_should_stop d3" "dl_should_stop d3 \<longrightarrow> dl_timers d' = []"
    "dl_posted d' = (if loop then Some (\<not> dl_should_stop d3) else None)"
    by (auto simp: 1(4))
  have clean: "\<not> list_ex cleans_up eff" using one two three by (auto simp: 1(5))
  have "c \<or> list_ex fatal_alert as \<longrightarrow> dl_ret d3 \<noteq> 0" "ATorrentRemoved \<in> set as \<longrightarrow> dl_should_stop d3"
    using one two three marks unfolding keeps_failure_def by blast+
  then show ?thesis using keeps fields clean unfolding keeps_ret_def keeps_failure_def by simp
qed

lemma ControlHandler_ok: "ok_result d (ControlHandler e r d)"
  by (cases r) (auto simp: set_limit_opt_def on_handle_def keeps_failure_def split: option.split)

text \<open>Every handler but the alerts keeps the post of the loop.\<close>

lemma dl_step_ok:
  assumes "\<And>c as. ev \<noteq> EAlerts c as"
  shows "ok_result d (dl_step e ev d)"
proof (cases ev)
  case (ETimer x ec)
  have "ok_result (cancel_timer x d) r \<Longrightarrow> ok_result d r" for r
    by (auto simp: ok_result_def split: option.splits)
  then show ?thesis
    using ETimer timer_callbacks_ok(1-3) [of "cancel_timer x d" e ec] HangCheck_ok [of "cancel_timer x d" e ec]
    by (auto simp: Let_def split: dl_timer.split)
next
  case (EAnnounce ret)
  then show ?thesis using timer_callbacks_ok by simp
next
  case (EControl r)
  then show ?thesis using ControlHandler_ok by simp
qed (use assms in auto)

subsection \<open>What a run promises\<close>

text \<open>The events that must make a download fail.\<close>

fun fatal_event :: "dl_event \<Rightarrow> bool" where
  "fatal_event (EAlerts catch_stop_sigal alerts) = (catch_stop_sigal \<or> list_ex fatal_alert alerts)"
| "fatal_event (EAnnounce ret) = (ret = 26234)"
| "fatal_event _ = False"

text \<open>The events a run handles: a round of alerts only when one is posted, nothing after an exception.\<close>

fun handled :: "(dl_env \<times> dl_event) list \<Rightarrow> Downloader \<Rightarrow> dl_event list" where
  "handled [] d = []"
| "handled ((e, ev) # es) d =
    (case dl_step e ev d of
       None \<Rightarrow> []
     | Some (d', eff) \<Rightarrow> (case ev of EAlerts c as \<Rightarrow> if dl_posted d = None then [] else [ev] | _ \<Rightarrow> [ev]) @ handled es d')"

lemma dl_step_round:
  assumes "dl_step e ev d = Some (d', eff)"
  shows "keeps_ret d d' \<and> \<not> list_ex cleans_up eff \<and>
    ((case ev of EAlerts c as \<Rightarrow> dl_posted d \<noteq> None | _ \<Rightarrow> True) \<and> fatal_event ev \<longrightarrow> dl_ret d' \<noteq> 0)"
proof (cases ev)
  case (EAlerts c as)
  then show ?thesis
    using assms ProcessAlert_round by (cases "dl_posted d") (auto simp: keeps_ret_def)
next
  case (EAnnounce ret)
  then show ?thesis
    using assms dl_step_ok [of ev d e] remove_with_ret [of e 50 d]
    by (auto simp: AnnounceCallback_def intro: keeps_failure_ret)
qed (use assms dl_step_ok [of ev d e] in \<open>auto intro: keeps_failure_ret\<close>)

lemma handled_step:
  "dl_step e ev d = Some (d', eff) \<Longrightarrow> handled ((e, ev) # es) d =
    (case ev of EAlerts c as \<Rightarrow> if dl_posted d = None then [] else [ev] | _ \<Rightarrow> [ev]) @ handled es d'"
  by simp

lemma dl_run_kept:
  "dl_run es d = (ex, d', eff) \<Longrightarrow> keeps_ret d d' \<and> \<not> list_ex cleans_up eff \<and> (list_ex fatal_event (handled es d) \<longrightarrow> dl_ret d' \<noteq> 0)"
proof (induction es arbitrary: d eff)
  case Nil
  then show ?case by (simp add: keeps_ret_def)
next
  case (Cons x es)
  obtain e ev where x: "x = (e, ev)" by (cases x)
  show ?case
  proof (cases "dl_step e ev d")
    case None
    then show ?thesis using Cons.prems by (simp add: x keeps_ret_def)
  next
    case (Some a)
    then obtain d1 e1 where step: "dl_step e ev d = Some (d1, e1)" by (cases a) simp
    obtain e2 where run: "dl_run es d1 = (ex, d', e2)" and eqs: "eff = e1 @ e2"
      using Cons.prems by (auto simp: x step split: prod.splits)
    note kept = Cons.IH [OF run] dl_step_round [OF step]
    have "list_ex fatal_event (handled (x # es) d) \<longrightarrow>
        ((case ev of EAlerts c as \<Rightarrow> dl_posted d \<noteq> None | _ \<Rightarrow> True) \<and> fatal_event ev) \<or> list_ex fatal_event (handled es d1)"
      using handled_step [OF step, of es] by (cases ev) (auto simp: x)
    then show ?thesis using kept by (auto simp: eqs keeps_ret_def)
  qed
qed

lemma choose_source_clean:
  "choose_source e d = Inl (d', eff) \<Longrightarrow> \<not> list_ex cleans_up eff"
  "choose_source e d = Inr (d', h, ps, eff) \<Longrightarrow> \<not> list_ex cleans_up eff"
  by (auto simp: choose_source_def Let_def split: option.splits if_splits)

lemma AddDownloadTask_clean: "AddDownloadTask e d = (ok, d', eff) \<Longrightarrow> \<not> list_ex cleans_up eff"
  using choose_source_clean [of e d]
  by (auto simp: AddDownloadTask_def Let_def split: option.splits if_splits sum.splits)

lemma StartDownload_clean: "dl_StartDownload e d = (d', eff) \<Longrightarrow> \<not> list_ex cleans_up eff"
  by (auto simp: dl_StartDownload_def Let_def on_handle_def split: option.splits if_splits)


lemma dl_run_split:
  "dl_run (xs @ ys) d = (False, d', eff) \<Longrightarrow> \<exists>d1 e1 e2. dl_run xs d = (False, d1, e1) \<and> dl_run ys d1 = (False, d', e2)"
proof (induction xs arbitrary: d eff)
  case (Cons x xs)
  obtain e ev where x: "x = (e, ev)" by (cases x)
  with Cons.prems obtain d1 e1 where step: "dl_step e ev d = Some (d1, e1)" by (auto split: option.splits)
  with Cons.prems obtain e2 where "dl_run (xs @ ys) d1 = (False, d', e2)" by (auto simp: x split: prod.splits)
  from Cons.IH [OF this] show ?case by (auto simp: x step)
qed simp

text \<open>The events that follow the last but one round: aborted timers and control requests.\<close>

fun late_event :: "dl_event \<Rightarrow> bool" where
  "late_event (ETimer x aborted) = aborted"
| "late_event (EControl r) = True"
| "late_event _ = False"

lemma dl_run_late:
  "dl_run es d = (False, d', eff) \<Longrightarrow> list_all (\<lambda>(e, ev). late_event ev) es \<Longrightarrow> keeps_failure d d'"
proof (induction es arbitrary: d eff)
  case (Cons x es)
  obtain e ev where x: "x = (e, ev)" by (cases x)
  with Cons.prems obtain d1 e1 where step: "dl_step e ev d = Some (d1, e1)" by (auto split: option.splits)
  with Cons.prems obtain e2 where run: "dl_run es d1 = (False, d', e2)" by (auto simp: x split: prod.splits)
  have "ev \<noteq> EAlerts c as" for c as using Cons.prems(2) by (auto simp: x)
  then have "keeps_failure d d1" using dl_step_ok [of ev d e] by (simp add: step)
  with Cons.IH [OF run] Cons.prems(2) show ?case by (auto intro: keeps_failure_trans)
qed simp


subsection \<open>A concrete download\<close>

definition demo_down :: Downloader where
  "demo_down = Downloader_new 100
     \<lparr>conf_download_limit = 1000, conf_upload_limit = 10, conf_connection_limit = 5, conf_max_metadata_size = 100,
      conf_ints = (\<lambda>_. 0), conf_bools = (\<lambda>_. False)\<rparr>
     \<lparr>c_seeding_time = 5, c_timeout = 60, c_hang_timeout = 30, c_mem_limit = 0, c_debug = False, c_print_progress = False,
      c_patition_download = False, c_need_save_resume = False, c_need_down_to_tmp_first = False,
      c_quit_by_tracker_failed = False, c_storage_pre_allocate = False, c_dynamic_allocate = -1, c_use_dio_read = False,
      c_use_dio_write = False, c_ignore_hdfs_error = False, c_torrent_path = [], c_infohash = [], c_torrent_url = ''u'',
      c_new_name = [], c_save_path = ''/d'',
      c_cluster_config = \<lparr>ce_host = [], ce_port = 0, ce_user = [], ce_passwd = [], ce_prefix_path = []\<rparr>,
      c_web_seeds = [], c_listen_port_range = (1, 2), c_control_path = [], c_save_torrent_path = [], c_cmd = [],
      c_trackers = [(''t'', 1)]\<rparr> [] [] (\<lambda>_. None)"

definition demo_prepare :: prepare_env where
  "demo_prepare = \<lparr>pe_now = 100, pe_mkdir_r = (\<lambda>_. True), pe_mkdir = (\<lambda>_. True), pe_file_size = (\<lambda>_. 0),
     pe_parse_torrent = (\<lambda>_ _. None), pe_matches = (\<lambda>_ _. False), pe_opens = (\<lambda>_. True), pe_resume_data = (\<lambda>_. None),
     pe_add_torrent = (\<lambda>_. Some 7), pe_parse_syms = True, pe_trackers = (\<lambda>_. [])\<rparr>"

definition demo_env :: "int \<Rightarrow> dl_env" where
  "demo_env now = \<lparr>v_now = now,
     v_status = Some \<lparr>st_base = \<lparr>gs_state = GDownloading, gs_is_finished = False, gs_has_metadata = True,
         gs_need_save_resume = False, gs_progress_ppm = 500000, gs_download_rate = 10, gs_upload_rate = 0,
         gs_total_payload_download = 50, gs_total_payload_upload = 0, gs_total_download = 50, gs_uploads_limit = 0,
         gs_num_peers = 2, gs_num_seeds = 1, gs_pieces = [True, False]\<rparr>, st_error = [], st_paused = False\<rparr>,
     v_valid = True, v_have_seed = True, v_rss_mb = 1, v_opens = (\<lambda>_. True), v_matches = (\<lambda>_ _. False), v_io = demo_io,
     v_layout = Some two_files, v_file_priorities = [1, 1], v_syms = True, v_cluster_starts = True, v_cluster_stopped = False\<rparr>"

definition demo_events :: "(dl_env \<times> dl_event) list" where
  "demo_events =
     [(demo_env 101, EAlerts False [AStateChanged GDownloading None]), (demo_env 103, ETimer HangTimer False),
      (demo_env 110, EAlerts False [ATorrentFinished 4]), (demo_env 115, ETimer SeedingTimer False),
      (demo_env 116, EAlerts False [ATorrentRemoved]), (demo_env 116, ETimer TimeoutTimer True), (demo_env 116, EAlerts False [])]"



text \<open>A stop signal: the exit code is 20 and the resume file stays.\<close>

lemma stop_signal_exit:
  "fst (Download True demo_prepare True [(demo_env 101, EAlerts True []), (demo_env 102, EAlerts False [ATorrentRemoved])] demo_down) = 20"
  by code_simp

end
