(* ===== verification/MakeTorrent.thy ===== *)
theory MakeTorrent
  imports TorrentFiles
begin

text \<open>
  Making a torrent from a path (\<open>gko-src/src/make_torrent.cpp\<close>) and deleting what is not in one
  (\<open>gko-src/src/delete_files.cpp\<close>). Walking directories, reading files, hashing and the regular expressions are
  arguments. The two hashing threads are interleaved access by access, because the lock object they construct is
  not attached to a mutex: the bit field is shared without protection, and setting a bit reads and writes a byte.
\<close>

subsection \<open>Choosing the files\<close>

text \<open>The loop that turns each \<open>*\<close> into \<open>.*\<close>; \<open>pos\<close> is the next occurrence.\<close>

function star_loop :: "nat \<Rightarrow> string \<Rightarrow> string" where
  "star_loop pos s =
    (case find_first_of (\<lambda>c. c = CHR ''*'') s pos of
       None \<Rightarrow> s
     | Some p \<Rightarrow> star_loop (p + 2) (take p s @ ''.*'' @ drop (p + 1) s))"
  by pat_completeness auto
termination
  by (relation "measure (\<lambda>(pos, s). length s - pos)") (auto dest: find_first_of_Some)

declare star_loop.simps [simp del]

text \<open>The expression for the files and the root of the torrent; \<open>None\<close> as the short name: the split of the path fails
  and leaves both parts empty.\<close>

definition torrent_root :: "string \<Rightarrow> string \<times> string" where
  "torrent_root full_path =
    (case (case path_slipt full_path of None \<Rightarrow> ([], []) | Some ps \<Rightarrow> ps) of
       (parent, short_name) \<Rightarrow>
         if find_first_of (\<lambda>c. c = CHR ''*'') short_name 0 = None then (full_path @ ''/.*'', full_path)
         else (parent @ ''/'' @ star_loop 0 short_name, parent))"

text \<open>\<open>re\<close> is the expression for the whole path. \<open>None\<close>: \<open>substr\<close> throws.\<close>

definition FileFilter ::
  "(string \<Rightarrow> bool) \<Rightarrow> (string \<Rightarrow> string \<Rightarrow> bool) \<Rightarrow> string list \<Rightarrow> string list \<Rightarrow> string \<Rightarrow> string \<Rightarrow> bool option" where
  "FileFilter re matches inc exc root_path filename =
    (let prefix_len = length (parent_path root_path) + 1 in
     if filename = root_path then Some True
     else if \<not> re filename then Some False
     else if prefix_len > length filename then None
     else Some (file_needed matches inc exc (drop prefix_len filename)))"

subsection \<open>Hashing the pieces in threads\<close>

text \<open>The torrent being made: a piece is a list of file slices - path, offset, size - and \<open>he_read\<close> opens, seeks and
  reads in full, or fails.\<close>

record hash_env =
  he_num :: nat
  he_piece_length :: nat
  he_piece_size :: "nat \<Rightarrow> nat"
  he_slices :: "nat \<Rightarrow> (string \<times> nat \<times> nat) list"
  he_root :: string
  he_read :: "string \<Rightarrow> nat \<Rightarrow> nat \<Rightarrow> string option"
  he_hash :: "string \<Rightarrow> string"

datatype hash_pc =
    PLoop nat
  | PBit nat
  | PSet nat
  | PStore nat "bool list"
  | PFile nat nat nat
  | PDone

record hash_thread =
  ht_pc :: hash_pc
  ht_buf :: string

record QuickPiecesHashes =
  hs_completed :: "bool list"
  hs_hashes :: "nat \<Rightarrow> string option"
  hs_error :: bool
  hs_threads :: "hash_thread list"

definition read_slice :: "hash_env \<Rightarrow> string \<times> nat \<times> nat \<Rightarrow> string option" where
  "read_slice e sl = (case sl of (path, off, sz) \<Rightarrow> he_read e (he_root e @ ''/'' @ path) off sz)"

definition move :: "nat \<Rightarrow> hash_pc \<Rightarrow> QuickPiecesHashes \<Rightarrow> QuickPiecesHashes" where
  "move t pc s = s\<lparr>hs_threads := (hs_threads s)[t := (hs_threads s ! t)\<lparr>ht_pc := pc\<rparr>]\<rparr>"

text \<open>Writing back the byte of bit \<open>i\<close> as it was read, with the bit set.\<close>

definition store_byte :: "nat \<Rightarrow> bool list \<Rightarrow> bool list \<Rightarrow> bool list" where
  "store_byte i snap bits = map (\<lambda>j. if j div 8 = i div 8 then j = i \<or> snap ! j else bits ! j) [0..<length bits]"

text \<open>One access of thread \<open>t\<close>. \<open>PFile i k ptr\<close> is the loop of \<open>ReadPiece\<close>, which also stops, with success, when
  another thread has failed.\<close>

definition hash_next :: "hash_env \<Rightarrow> nat \<Rightarrow> QuickPiecesHashes \<Rightarrow> QuickPiecesHashes" where
  "hash_next e t s =
    (case ht_pc (hs_threads s ! t) of
       PLoop i \<Rightarrow> move t (if i < he_num e \<and> \<not> hs_error s then PBit i else PDone) s
     | PBit i \<Rightarrow> move t (if hs_completed s ! i then PLoop (i + 1) else PSet i) s
     | PSet i \<Rightarrow> move t (PStore i (hs_completed s)) s
     | PStore i snap \<Rightarrow> move t (PFile i 0 0) (s\<lparr>hs_completed := store_byte i snap (hs_completed s)\<rparr>)
     | PFile i k ptr \<Rightarrow>
         let buf = ht_buf (hs_threads s ! t) in
         if k < length (he_slices e i) \<and> \<not> hs_error s then
           (case read_slice e (he_slices e i ! k) of
              None \<Rightarrow> move t PDone (s\<lparr>hs_error := True\<rparr>)
            | Some bytes \<Rightarrow>
                s\<lparr>hs_threads := (hs_threads s)[t := \<lparr>ht_pc = PFile i (k + 1) (ptr + length bytes),
                    ht_buf = take ptr buf @ bytes @ drop (ptr + length bytes) buf\<rparr>]\<rparr>)
         else move t (PLoop (i + 1)) (s\<lparr>hs_hashes := (hs_hashes s)(i \<mapsto> he_hash e (take (he_piece_size e i) buf))\<rparr>)
     | PDone \<Rightarrow> s)"

inductive hash_step :: "hash_env \<Rightarrow> QuickPiecesHashes \<Rightarrow> QuickPiecesHashes \<Rightarrow> bool" for e where
  "t < length (hs_threads s) \<Longrightarrow> ht_pc (hs_threads s ! t) \<noteq> PDone \<Longrightarrow> hash_step e s (hash_next e t s)"

text \<open>The buffers of the threads are not initialised.\<close>

definition hash_init :: "hash_env \<Rightarrow> QuickPiecesHashes \<Rightarrow> bool" where
  "hash_init e s \<longleftrightarrow> hs_completed s = replicate (he_num e) False \<and> hs_hashes s = Map.empty \<and> \<not> hs_error s \<and>
     hs_threads s \<noteq> [] \<and> (\<forall>th \<in> set (hs_threads s). ht_pc th = PLoop 0 \<and> length (ht_buf th) = he_piece_length e)"

text \<open>After \<open>join_all\<close>.\<close>

definition SetPieceHashes :: "hash_env \<Rightarrow> QuickPiecesHashes \<Rightarrow> bool" where
  "SetPieceHashes e s \<longleftrightarrow> he_num e = 0 \<or> \<not> hs_error s"

lemma star_loop_spec: "star_loop pos s = take pos s @ concat (map (\<lambda>c. if c = CHR ''*'' then ''.*'' else [c]) (drop pos s))"
proof (induction pos s rule: star_loop.induct)
  case (1 pos s)
  let ?f = "\<lambda>c. if c = CHR ''*'' then ''.*'' else [c]"
  have keep: "concat (map ?f xs) = xs" if "CHR ''*'' \<notin> set xs" for xs
    using that by (induction xs) auto
  show ?case
  proof (cases "find_first_of (\<lambda>c. c = CHR ''*'') s pos")
    case None
    then have "CHR ''*'' \<notin> set (drop pos s)" using find_first_of_None [OF None] by (auto simp: in_set_conv_nth)
    then show ?thesis using keep None by (subst star_loop.simps) simp
  next
    case (Some p)
    note found = find_first_of_Some [OF Some]
    have step: "concat (map ?f (xs @ CHR ''*'' # ys)) = xs @ ''.*'' @ concat (map ?f ys)" if "CHR ''*'' \<notin> set xs" for xs ys
      using keep [OF that] by simp
    have mid: "CHR ''*'' \<notin> set (take (p - pos) (drop pos s))" using found by (auto simp: in_set_conv_nth)
    have "drop pos s = take (p - pos) (drop pos s) @ drop p s" using found by (metis append_take_drop_id drop_drop le_add_diff_inverse2)
    also have "drop p s = CHR ''*'' # drop (p + 1) s" using found by (metis Cons_nth_drop_Suc Suc_eq_plus1)
    finally have "concat (map ?f (drop pos s)) = take (p - pos) (drop pos s) @ ''.*'' @ concat (map ?f (drop (p + 1) s))"
      using step [OF mid, of "drop (p + 1) s"] by metis
    moreover have "take pos s @ take (p - pos) (drop pos s) = take p s" using found by (metis le_add_diff_inverse take_add)
    ultimately show ?thesis using 1 [OF Some] found Some by (subst star_loop.simps) simp
  qed
qed

text \<open>The prefix cut off is one byte too long when the torrent's root lies directly under \<open>/\<close>.\<close>

lemma filter_cuts_first_letter:
  "FileFilter (\<lambda>_. True) (=) [''data/a''] [] ''/data'' ''/data/a'' = Some False"
  "FileFilter (\<lambda>_. True) (=) [''data/a''] [] ''/x/data'' ''/x/data/a'' = Some True"
  by code_simp+

subsection \<open>Every piece is hashed\<close>

definition slice_data :: "hash_env \<Rightarrow> string \<times> nat \<times> nat \<Rightarrow> string" where
  "slice_data e sl = (case read_slice e sl of None \<Rightarrow> [] | Some bytes \<Rightarrow> bytes)"

definition piece_data :: "hash_env \<Rightarrow> nat \<Rightarrow> string" where
  "piece_data e i = concat (map (slice_data e) (he_slices e i))"

text \<open>The files stay as they are while the torrent is made, a full read gives as many bytes as asked for, and the
  slices of a piece make up the piece.\<close>

definition hash_env_ok :: "hash_env \<Rightarrow> bool" where
  "hash_env_ok e \<longleftrightarrow> (\<forall>i < he_num e. he_piece_size e i \<le> he_piece_length e \<and>
     sum_list (map (\<lambda>(path, off, sz). sz) (he_slices e i)) = he_piece_size e i \<and>
     (\<forall>(path, off, sz) \<in> set (he_slices e i). \<forall>bytes. read_slice e (path, off, sz) = Some bytes \<longrightarrow> length bytes = sz))"

definition piece_hashed :: "hash_env \<Rightarrow> QuickPiecesHashes \<Rightarrow> nat \<Rightarrow> bool" where
  "piece_hashed e s i \<longleftrightarrow> (\<forall>sl \<in> set (he_slices e i). read_slice e sl \<noteq> None) \<and>
     hs_hashes s i = Some (he_hash e (piece_data e i))"

fun works_on :: "hash_pc \<Rightarrow> nat \<Rightarrow> bool" where
  "works_on (PSet i) j = (j = i)"
| "works_on (PStore i snap) j = (j = i)"
| "works_on (PFile i k ptr) j = (j = i)"
| "works_on _ j = False"

definition claimed :: "hash_env \<Rightarrow> QuickPiecesHashes \<Rightarrow> nat \<Rightarrow> bool" where
  "claimed e s i \<longleftrightarrow> piece_hashed e s i \<or> (\<exists>t < length (hs_threads s). works_on (ht_pc (hs_threads s ! t)) i)"

fun pc_ok :: "hash_env \<Rightarrow> QuickPiecesHashes \<Rightarrow> string \<Rightarrow> hash_pc \<Rightarrow> bool" where
  "pc_ok e s buf (PLoop n) = (\<forall>i < n. i < he_num e \<longrightarrow> claimed e s i)"
| "pc_ok e s buf (PBit n) = (\<forall>i < n. claimed e s i)"
| "pc_ok e s buf (PSet n) = (\<forall>i < n. claimed e s i)"
| "pc_ok e s buf (PStore n snap) = ((\<forall>i < n. claimed e s i) \<and> (\<forall>j < he_num e. snap ! j \<longrightarrow> claimed e s j))"
| "pc_ok e s buf (PFile n k ptr) = ((\<forall>i < n. claimed e s i) \<and>
     (\<forall>sl \<in> set (take k (he_slices e n)). read_slice e sl \<noteq> None) \<and>
     take ptr buf = concat (map (slice_data e) (take k (he_slices e n))) \<and>
     ptr = sum_list (map (\<lambda>(path, off, sz). sz) (take k (he_slices e n))))"
| "pc_ok e s buf PDone = (\<forall>i < he_num e. claimed e s i)"

fun pc_bounds :: "hash_env \<Rightarrow> hash_pc \<Rightarrow> bool" where
  "pc_bounds e (PLoop n) = True"
| "pc_bounds e (PBit n) = (n < he_num e)"
| "pc_bounds e (PSet n) = (n < he_num e)"
| "pc_bounds e (PStore n snap) = (n < he_num e)"
| "pc_bounds e (PFile n k ptr) = (n < he_num e \<and> k \<le> length (he_slices e n))"
| "pc_bounds e PDone = True"

definition hash_inv :: "hash_env \<Rightarrow> QuickPiecesHashes \<Rightarrow> bool" where
  "hash_inv e s \<longleftrightarrow> hs_threads s \<noteq> [] \<and> length (hs_completed s) = he_num e \<and>
     (\<forall>t < length (hs_threads s). pc_bounds e (ht_pc (hs_threads s ! t))) \<and>
     (hs_error s \<or>
       (\<forall>j < he_num e. hs_completed s ! j \<longrightarrow> claimed e s j) \<and>
       (\<forall>t < length (hs_threads s). length (ht_buf (hs_threads s ! t)) = he_piece_length e \<and>
          pc_ok e s (ht_buf (hs_threads s ! t)) (ht_pc (hs_threads s ! t))))"

lemma claimed_mono:
  assumes "claimed e s i" "t < length (hs_threads s)" "hs_threads s' = (hs_threads s)[t := th]"
    and "\<forall>i. works_on (ht_pc (hs_threads s ! t)) i \<longrightarrow> works_on (ht_pc th) i \<or> piece_hashed e s' i"
    and "\<forall>i. piece_hashed e s i \<longrightarrow> piece_hashed e s' i"
  shows "claimed e s' i"
proof (cases "piece_hashed e s i")
  case True
  then show ?thesis using assms(5) by (simp add: claimed_def)
next
  case False
  then obtain u where u: "u < length (hs_threads s)" "works_on (ht_pc (hs_threads s ! u)) i"
    using assms(1) by (auto simp: claimed_def)
  show ?thesis
  proof (cases "u = t")
    case True
    then show ?thesis using u assms(2-4) unfolding claimed_def by (metis length_list_update nth_list_update_eq)
  next
    case False
    then show ?thesis using u assms(3) unfolding claimed_def by (metis length_list_update nth_list_update_neq)
  qed
qed

lemma pc_ok_mono: "(\<And>i. claimed e s i \<Longrightarrow> claimed e s' i) \<Longrightarrow> pc_ok e s buf pc \<Longrightarrow> pc_ok e s' buf pc"
  by (cases pc) auto

lemma hash_inv_error:
  assumes "hash_inv e s" "t < length (hs_threads s)" "hs_threads s' = (hs_threads s)[t := th]" "pc_bounds e (ht_pc th)"
    and "length (hs_completed s') = length (hs_completed s)" "hs_error s'"
  shows "hash_inv e s'"
  using assms by (auto simp: hash_inv_def nth_list_update)

lemma hash_inv_move:
  assumes inv: "hash_inv e s" and t: "t < length (hs_threads s)" and ths: "hs_threads s' = (hs_threads s)[t := th]"
    and works: "\<forall>i. works_on (ht_pc (hs_threads s ! t)) i \<longrightarrow> works_on (ht_pc th) i \<or> piece_hashed e s' i"
    and hashed: "\<forall>i. piece_hashed e s i \<longrightarrow> piece_hashed e s' i"
    and len: "length (hs_completed s') = length (hs_completed s)" and err: "\<not> hs_error s"
    and bits: "\<And>j. j < he_num e \<Longrightarrow> hs_completed s' ! j \<Longrightarrow> hs_completed s ! j \<or> claimed e s' j"
    and own: "pc_bounds e (ht_pc th)" "length (ht_buf th) = he_piece_length e" "pc_ok e s' (ht_buf th) (ht_pc th)"
  shows "hash_inv e s'"
proof -
  have mono: "claimed e s i \<Longrightarrow> claimed e s' i" for i using claimed_mono [OF _ t ths works hashed] .
  have others: "pc_ok e s' (ht_buf (hs_threads s ! u)) (ht_pc (hs_threads s ! u))" if "u < length (hs_threads s)" for u
    using inv err that by (auto simp: hash_inv_def intro: pc_ok_mono [OF mono])
  have "pc_bounds e (ht_pc (hs_threads s' ! u)) \<and> length (ht_buf (hs_threads s' ! u)) = he_piece_length e \<and>
      pc_ok e s' (ht_buf (hs_threads s' ! u)) (ht_pc (hs_threads s' ! u))" if "u < length (hs_threads s')" for u
    using inv err own others that t by (auto simp: hash_inv_def ths nth_list_update)
  moreover have "claimed e s' j" if "j < he_num e" "hs_completed s' ! j" for j
    using inv err bits [OF that] that mono by (auto simp: hash_inv_def)
  ultimately show ?thesis using inv len ths by (simp add: hash_inv_def)
qed

lemma piece_hashed_cong: "hs_hashes s' = hs_hashes s \<Longrightarrow> piece_hashed e s' i = piece_hashed e s i"
  by (simp add: piece_hashed_def)

lemma move_simps [simp]:
  "hs_threads (move t pc s) = (hs_threads s)[t := (hs_threads s ! t)\<lparr>ht_pc := pc\<rparr>]"
  "hs_hashes (move t pc s) = hs_hashes s" "hs_completed (move t pc s) = hs_completed s" "hs_error (move t pc s) = hs_error s"
  by (simp_all add: move_def)

lemma store_byte_simps [simp]:
  "length (store_byte i snap bits) = length bits"
  "j < length bits \<Longrightarrow> store_byte i snap bits ! j = (if j div 8 = i div 8 then j = i \<or> snap ! j else bits ! j)"
  by (simp_all add: store_byte_def)

subsection \<open>One lemma per access\<close>

lemma hash_inv_thread:
  assumes "hash_inv e s" "t < length (hs_threads s)" "\<not> hs_error s"
  shows "length (ht_buf (hs_threads s ! t)) = he_piece_length e"
    "pc_ok e s (ht_buf (hs_threads s ! t)) (ht_pc (hs_threads s ! t))"
    "j < he_num e \<Longrightarrow> hs_completed s ! j \<Longrightarrow> claimed e s j" "length (hs_completed s) = he_num e"
  using assms by (auto simp: hash_inv_def)

lemma hash_inv_bounds: "hash_inv e s \<Longrightarrow> t < length (hs_threads s) \<Longrightarrow> pc_bounds e (ht_pc (hs_threads s ! t))"
  by (simp add: hash_inv_def)

text \<open>A thread that only moves, and works on the pieces it worked on.\<close>

lemma hash_inv_plain:
  assumes inv: "hash_inv e s" and t: "t < length (hs_threads s)" and err: "\<not> hs_error s"
    and works: "\<forall>i. works_on (ht_pc (hs_threads s ! t)) i \<longrightarrow> works_on pc i"
    and own: "pc_bounds e pc" "pc_ok e s (ht_buf (hs_threads s ! t)) pc"
  shows "hash_inv e (move t pc s)"
proof -
  have same: "piece_hashed e (move t pc s) = piece_hashed e s" by (simp add: piece_hashed_def fun_eq_iff)
  have mono: "claimed e s i \<Longrightarrow> claimed e (move t pc s) i" for i
    by (rule claimed_mono [where t = t, OF _ t]) (auto simp: same works)
  have bits: "hs_completed (move t pc s) ! j \<Longrightarrow> hs_completed s ! j \<or> claimed e (move t pc s) j" for j by simp
  have own': "pc_ok e (move t pc s) (ht_buf (hs_threads s ! t)) pc" by (rule pc_ok_mono [OF mono own(2)])
  show ?thesis
    by (rule hash_inv_move [OF inv t, where th = "(hs_threads s ! t)\<lparr>ht_pc := pc\<rparr>"])
      (simp_all add: same works err own(1) own' hash_inv_thread(1) [OF inv t err])
qed

lemma hash_inv_PLoop:
  assumes inv: "hash_inv e s" and t: "t < length (hs_threads s)" and pc: "ht_pc (hs_threads s ! t) = PLoop i"
  shows "hash_inv e (hash_next e t s)"
proof (cases "hs_error s")
  case True
  then show ?thesis using pc t by (auto simp: hash_next_def intro!: hash_inv_error [OF inv t])
next
  case False
  note own = hash_inv_thread(2) [OF inv t False, unfolded pc, simplified]
  show ?thesis
    using pc own False by (auto simp: hash_next_def intro!: hash_inv_plain [OF inv t False])
qed

lemma hash_inv_PBit:
  assumes inv: "hash_inv e s" and t: "t < length (hs_threads s)" and pc: "ht_pc (hs_threads s ! t) = PBit i"
  shows "hash_inv e (hash_next e t s)"
proof (cases "hs_error s")
  case True
  then show ?thesis using pc t hash_inv_bounds [OF inv t] by (auto simp: hash_next_def intro!: hash_inv_error [OF inv t])
next
  case False
  note own = hash_inv_thread(2) [OF inv t False, unfolded pc, simplified]
  have i: "i < he_num e" using hash_inv_bounds [OF inv t] pc by simp
  have "hs_completed s ! i \<Longrightarrow> claimed e s i" using hash_inv_thread(3) [OF inv t False i] .
  then have "hs_completed s ! i \<Longrightarrow> \<forall>j < i + 1. j < he_num e \<longrightarrow> claimed e s j" using own by (auto simp: less_Suc_eq)
  then show ?thesis
    using pc own i by (auto simp: hash_next_def intro!: hash_inv_plain [OF inv t False])
qed

lemma hash_inv_PSet:
  assumes inv: "hash_inv e s" and t: "t < length (hs_threads s)" and pc: "ht_pc (hs_threads s ! t) = PSet i"
  shows "hash_inv e (hash_next e t s)"
proof (cases "hs_error s")
  case True
  then show ?thesis using pc t hash_inv_bounds [OF inv t] by (auto simp: hash_next_def intro!: hash_inv_error [OF inv t])
next
  case False
  note own = hash_inv_thread(2) [OF inv t False, unfolded pc, simplified]
  show ?thesis
    using pc own hash_inv_bounds [OF inv t] hash_inv_thread(3) [OF inv t False]
    by (auto simp: hash_next_def intro!: hash_inv_plain [OF inv t False])
qed

lemma hash_inv_PStore:
  assumes inv: "hash_inv e s" and t: "t < length (hs_threads s)" and pc: "ht_pc (hs_threads s ! t) = PStore i snap"
  shows "hash_inv e (hash_next e t s)"
proof -
  let ?s = "hash_next e t s"
  have next': "?s = move t (PFile i 0 0) (s\<lparr>hs_completed := store_byte i snap (hs_completed s)\<rparr>)"
    using pc by (simp add: hash_next_def)
  have i: "i < he_num e" using hash_inv_bounds [OF inv t] pc by simp
  show ?thesis
  proof (cases "hs_error s")
    case True
    then show ?thesis using i t by (auto simp: next' intro!: hash_inv_error [OF inv t])
  next
    case False
    note own = hash_inv_thread(2) [OF inv t False, unfolded pc, simplified]
    let ?th = "(hs_threads s ! t)\<lparr>ht_pc := PFile i 0 0\<rparr>"
    have ths: "hs_threads ?s = (hs_threads s)[t := ?th]" by (simp add: next')
    have same: "piece_hashed e ?s = piece_hashed e s" by (simp add: piece_hashed_def fun_eq_iff next')
    have works: "\<forall>j. works_on (ht_pc (hs_threads s ! t)) j \<longrightarrow> works_on (ht_pc ?th) j \<or> piece_hashed e ?s j" by (simp add: pc)
    have hashed: "\<forall>j. piece_hashed e s j \<longrightarrow> piece_hashed e ?s j" by (simp add: same)
    have mono: "claimed e s j \<Longrightarrow> claimed e ?s j" for j by (rule claimed_mono [OF _ t ths works hashed])
    have "claimed e ?s i" unfolding claimed_def ths using t by (intro disjI2 exI [of _ t]) simp
    then have bits: "hs_completed s ! j \<or> claimed e ?s j" if "j < he_num e" "hs_completed ?s ! j" for j
      using that own mono hash_inv_thread(4) [OF inv t False] by (simp add: next' split: if_splits) blast
    have own': "pc_ok e ?s (ht_buf ?th) (ht_pc ?th)" using own mono by simp
    have own1: "pc_bounds e (ht_pc ?th)" "length (ht_buf ?th) = he_piece_length e"
      using i hash_inv_thread(1) [OF inv t False] by simp_all
    have len: "length (hs_completed ?s) = length (hs_completed s)" by (simp add: next')
    show ?thesis by (rule hash_inv_move [OF inv t ths works hashed len False bits own1 own'])
  qed
qed

lemma slice_fits:
  assumes "hash_env_ok e" "i < he_num e" "k < length (he_slices e i)" "read_slice e (he_slices e i ! k) = Some bytes"
  defines "offs \<equiv> \<lambda>k. sum_list (map (\<lambda>(path, off, sz). sz) (take k (he_slices e i)))"
  shows "offs (k + 1) = offs k + length bytes" "offs (k + 1) \<le> he_piece_length e"
proof -
  obtain path off sz where sl: "he_slices e i ! k = (path, off, sz)" by (rule prod_cases3)
  have "(path, off, sz) \<in> set (he_slices e i)" using sl assms(3) by (metis nth_mem)
  then have "length bytes = sz" using assms(1,2,4) sl by (fastforce simp: hash_env_ok_def)
  then show one: "offs (k + 1) = offs k + length bytes" using assms(3) sl by (simp add: offs_def take_Suc_conv_app_nth)
  let ?size = "\<lambda>(path, off, sz). sz :: nat"
  have "sum_list (map ?size (take (k + 1) (he_slices e i))) + sum_list (map ?size (drop (k + 1) (he_slices e i))) =
      sum_list (map ?size (he_slices e i))"
    by (simp add: sum_list_append [symmetric] map_append [symmetric] del: sum_list_append map_append)
  then have "offs (k + 1) \<le> sum_list (map ?size (he_slices e i))" unfolding offs_def by linarith
  also have "\<dots> \<le> he_piece_length e" using assms(1,2) by (simp add: hash_env_ok_def)
  finally show "offs (k + 1) \<le> he_piece_length e" .
qed

lemma hash_inv_read:
  assumes inv: "hash_inv e s" and ok: "hash_env_ok e" and t: "t < length (hs_threads s)"
    and pc: "ht_pc (hs_threads s ! t) = PFile i k ptr" and err: "\<not> hs_error s"
    and k: "k < length (he_slices e i)" and r: "read_slice e (he_slices e i ! k) = Some bytes"
  shows "hash_inv e (hash_next e t s)"
proof -
  let ?s = "hash_next e t s" and ?buf = "ht_buf (hs_threads s ! t)"
  let ?th = "\<lparr>ht_pc = PFile i (k + 1) (ptr + length bytes), ht_buf = take ptr ?buf @ bytes @ drop (ptr + length bytes) ?buf\<rparr>"
  have next': "?s = s\<lparr>hs_threads := (hs_threads s)[t := ?th]\<rparr>" using pc k r err by (simp add: hash_next_def Let_def)
  have i: "i < he_num e" using hash_inv_bounds [OF inv t] pc by simp
  note own = hash_inv_thread(2) [OF inv t err, unfolded pc, simplified]
  note fits = slice_fits [OF ok i k r]
  have buf: "length ?buf = he_piece_length e" using hash_inv_thread(1) [OF inv t err] .
  have ths: "hs_threads ?s = (hs_threads s)[t := ?th]" by (simp add: next')
  have same: "piece_hashed e ?s = piece_hashed e s" by (simp add: piece_hashed_def fun_eq_iff next')
  have works: "\<forall>j. works_on (ht_pc (hs_threads s ! t)) j \<longrightarrow> works_on (ht_pc ?th) j \<or> piece_hashed e ?s j" by (simp add: pc)
  have hashed: "\<forall>j. piece_hashed e s j \<longrightarrow> piece_hashed e ?s j" by (simp add: same)
  have mono: "claimed e s j \<Longrightarrow> claimed e ?s j" for j by (rule claimed_mono [OF _ t ths works hashed])
  have ptr: "ptr + length bytes \<le> length ?buf" using own fits buf by simp
  have "take (ptr + length bytes) (take ptr ?buf @ bytes @ drop (ptr + length bytes) ?buf) = take ptr ?buf @ bytes"
    using ptr by simp
  moreover have "take (k + 1) (he_slices e i) = take k (he_slices e i) @ [he_slices e i ! k]" using k by (simp add: take_Suc_conv_app_nth)
  ultimately have own': "pc_ok e ?s (ht_buf ?th) (ht_pc ?th)"
    using own mono r fits by (auto simp: slice_data_def)
  have own1: "pc_bounds e (ht_pc ?th)" "length (ht_buf ?th) = he_piece_length e" using i k ptr buf by simp_all
  have bits: "hs_completed s ! j \<or> claimed e ?s j" if "j < he_num e" "hs_completed ?s ! j" for j using that by (simp add: next')
  have len: "length (hs_completed ?s) = length (hs_completed s)" by (simp add: next')
  show ?thesis by (rule hash_inv_move [OF inv t ths works hashed len err bits own1 own'])
qed

lemma hash_inv_hash:
  assumes inv: "hash_inv e s" and ok: "hash_env_ok e" and t: "t < length (hs_threads s)"
    and pc: "ht_pc (hs_threads s ! t) = PFile i k ptr" and err: "\<not> hs_error s" and k: "\<not> k < length (he_slices e i)"
  shows "hash_inv e (hash_next e t s)"
proof -
  let ?s = "hash_next e t s" and ?buf = "ht_buf (hs_threads s ! t)"
  let ?th = "(hs_threads s ! t)\<lparr>ht_pc := PLoop (i + 1)\<rparr>"
  have next': "?s = move t (PLoop (i + 1)) (s\<lparr>hs_hashes := (hs_hashes s)(i \<mapsto> he_hash e (take (he_piece_size e i) ?buf))\<rparr>)"
    using pc k by (simp add: hash_next_def Let_def)
  have i: "i < he_num e" "k \<le> length (he_slices e i)" using hash_inv_bounds [OF inv t] pc by simp_all
  note own = hash_inv_thread(2) [OF inv t err, unfolded pc, simplified]
  have all: "take k (he_slices e i) = he_slices e i" using k i by simp
  have "ptr = he_piece_size e i" using own all ok i by (simp add: hash_env_ok_def)
  moreover have "take ptr ?buf = piece_data e i" using own unfolding all piece_data_def by blast
  ultimately have data: "take (he_piece_size e i) ?buf = piece_data e i" by simp
  have here: "piece_hashed e ?s i" using own all data by (simp add: piece_hashed_def next')
  have hashed: "\<forall>j. piece_hashed e s j \<longrightarrow> piece_hashed e ?s j" using data by (simp add: piece_hashed_def next')
  have ths: "hs_threads ?s = (hs_threads s)[t := ?th]" by (simp add: next')
  have works: "\<forall>j. works_on (ht_pc (hs_threads s ! t)) j \<longrightarrow> works_on (ht_pc ?th) j \<or> piece_hashed e ?s j" using here by (simp add: pc)
  have mono: "claimed e s j \<Longrightarrow> claimed e ?s j" for j by (rule claimed_mono [OF _ t ths works hashed])
  have "claimed e ?s i" using here by (simp add: claimed_def)
  then have own': "pc_ok e ?s (ht_buf ?th) (ht_pc ?th)" using own mono by (auto simp: less_Suc_eq)
  have own1: "pc_bounds e (ht_pc ?th)" "length (ht_buf ?th) = he_piece_length e" using hash_inv_thread(1) [OF inv t err] by simp_all
  have bits: "hs_completed s ! j \<or> claimed e ?s j" if "j < he_num e" "hs_completed ?s ! j" for j using that by (simp add: next')
  have len: "length (hs_completed ?s) = length (hs_completed s)" by (simp add: next')
  show ?thesis by (rule hash_inv_move [OF inv t ths works hashed len err bits own1 own'])
qed

lemma hash_inv_PFile:
  assumes inv: "hash_inv e s" and ok: "hash_env_ok e" and t: "t < length (hs_threads s)"
    and pc: "ht_pc (hs_threads s ! t) = PFile i k ptr"
  shows "hash_inv e (hash_next e t s)"
proof (cases "hs_error s")
  case True
  show ?thesis
    by (rule hash_inv_error [OF inv t, where th = "(hs_threads s ! t)\<lparr>ht_pc := PLoop (i + 1)\<rparr>"]) (simp_all add: hash_next_def Let_def pc True)
next
  case False
  show ?thesis
  proof (cases "k < length (he_slices e i)")
    case True
    show ?thesis
    proof (cases "read_slice e (he_slices e i ! k)")
      case None
      show ?thesis
        by (rule hash_inv_error [OF inv t, where th = "(hs_threads s ! t)\<lparr>ht_pc := PDone\<rparr>"])
          (simp_all add: hash_next_def Let_def pc True None False)
    qed (rule hash_inv_read [OF inv ok t pc False True])
  qed (rule hash_inv_hash [OF inv ok t pc False])
qed

lemma hash_inv_step:
  assumes "hash_env_ok e" "hash_inv e s" "hash_step e s s'"
  shows "hash_inv e s'"
  using assms(3)
proof cases
  case (1 t)
  show ?thesis
  proof (cases "ht_pc (hs_threads s ! t)")
    case (PLoop i)
    then show ?thesis using 1 hash_inv_PLoop assms(2) by blast
  next
    case (PBit i)
    then show ?thesis using 1 hash_inv_PBit assms(2) by blast
  next
    case (PSet i)
    then show ?thesis using 1 hash_inv_PSet assms(2) by blast
  next
    case (PStore i snap)
    then show ?thesis using 1 hash_inv_PStore assms(2) by blast
  next
    case (PFile i k ptr)
    then show ?thesis using 1 hash_inv_PFile assms(1,2) by blast
  qed (use 1 in simp)
qed

lemma hash_inv_init: "hash_init e s \<Longrightarrow> hash_inv e s"
proof -
  assume init: "hash_init e s"
  then have "ht_pc (hs_threads s ! t) = PLoop 0 \<and> length (ht_buf (hs_threads s ! t)) = he_piece_length e"
    if "t < length (hs_threads s)" for t
    using that by (simp add: hash_init_def)
  then show ?thesis using init by (auto simp: hash_inv_def hash_init_def)
qed

text \<open>The steps of an environment that keeps the contract; what it does otherwise is not a step.\<close>

interpretation hashing: invariant_system "\<lambda>s. hash_env_ok e \<and> hash_init e s" "\<lambda>s s'. hash_env_ok e \<and> hash_step e s s'" "hash_inv e" for e
  by unfold_locales (auto intro: hash_inv_init hash_inv_step)

subsection \<open>The threads end\<close>

text \<open>The accesses a thread has left at most: \<open>pieces_left e i\<close> for the pieces from \<open>i\<close> on.\<close>

definition pieces_left :: "hash_env \<Rightarrow> nat \<Rightarrow> nat" where
  "pieces_left e i = 1 + sum_list (map (\<lambda>j. length (he_slices e j) + 6) [i ..< he_num e])"

fun work_left :: "hash_env \<Rightarrow> hash_pc \<Rightarrow> nat" where
  "work_left e (PLoop i) = pieces_left e i"
| "work_left e (PBit i) = pieces_left e i - 1"
| "work_left e (PSet i) = pieces_left e i - 2"
| "work_left e (PStore i snap) = pieces_left e i - 3"
| "work_left e (PFile i k ptr) = pieces_left e (i + 1) + (length (he_slices e i) - k) + 1"
| "work_left e PDone = 0"

definition hash_work :: "hash_env \<Rightarrow> QuickPiecesHashes \<Rightarrow> nat" where
  "hash_work e s = sum_list (map (\<lambda>th. work_left e (ht_pc th)) (hs_threads s))"

lemma pieces_left_step: "i < he_num e \<Longrightarrow> pieces_left e i = pieces_left e (i + 1) + length (he_slices e i) + 6"
  by (simp add: pieces_left_def upt_conv_Cons)

lemma pieces_left_pos: "0 < pieces_left e i"
  by (simp add: pieces_left_def)

lemma work_left_decreases:
  assumes "pc_bounds e (ht_pc (hs_threads s ! t))" "ht_pc (hs_threads s ! t) \<noteq> PDone" "t < length (hs_threads s)"
  shows "\<exists>th. hs_threads (hash_next e t s) = (hs_threads s)[t := th] \<and> work_left e (ht_pc th) < work_left e (ht_pc (hs_threads s ! t))"
proof (cases "ht_pc (hs_threads s ! t)")
  case (PLoop i)
  then show ?thesis using pieces_left_pos [of e i]
    by (intro exI [of _ "(hs_threads s ! t)\<lparr>ht_pc := (if i < he_num e \<and> \<not> hs_error s then PBit i else PDone)\<rparr>"]) (simp add: hash_next_def)
next
  case (PBit i)
  then show ?thesis using assms(1) pieces_left_step [of i e]
    by (intro exI [of _ "(hs_threads s ! t)\<lparr>ht_pc := (if hs_completed s ! i then PLoop (i + 1) else PSet i)\<rparr>"]) (simp add: hash_next_def)
next
  case (PSet i)
  then show ?thesis using assms(1) pieces_left_step [of i e]
    by (intro exI [of _ "(hs_threads s ! t)\<lparr>ht_pc := PStore i (hs_completed s)\<rparr>"]) (simp add: hash_next_def)
next
  case (PStore i snap)
  then show ?thesis using assms(1) pieces_left_step [of i e]
    by (intro exI [of _ "(hs_threads s ! t)\<lparr>ht_pc := PFile i 0 0\<rparr>"]) (simp add: hash_next_def)
next
  case (PFile i k ptr)
  show ?thesis
  proof (cases "k < length (he_slices e i) \<and> \<not> hs_error s")
    case True
    then show ?thesis using PFile by (cases "read_slice e (he_slices e i ! k)") (auto simp: hash_next_def Let_def)
  next
    case False
    then show ?thesis using PFile
      by (intro exI [of _ "(hs_threads s ! t)\<lparr>ht_pc := PLoop (i + 1)\<rparr>"]) (auto simp: hash_next_def Let_def)
  qed
qed (use assms in simp)

lemma sum_list_update_less:
  fixes f :: "'a \<Rightarrow> nat"
  assumes "t < length xs" "f x < f (xs ! t)"
  shows "sum_list (map f (xs[t := x])) < sum_list (map f xs)"
  using assms by (induction xs arbitrary: t) (auto split: nat.splits)

lemma hash_work_decreases: "hash_inv e s \<Longrightarrow> hash_step e s s' \<Longrightarrow> hash_work e s' < hash_work e s"
proof -
  assume inv: "hash_inv e s" and "hash_step e s s'"
  then obtain t where t: "t < length (hs_threads s)" "ht_pc (hs_threads s ! t) \<noteq> PDone" "s' = hash_next e t s"
    by (auto elim: hash_step.cases)
  obtain th where "hs_threads s' = (hs_threads s)[t := th]" "work_left e (ht_pc th) < work_left e (ht_pc (hs_threads s ! t))"
    using work_left_decreases [OF hash_inv_bounds [OF inv t(1)] t(2,1)] t(3) by blast
  then show ?thesis
    using sum_list_update_less [OF t(1), where f = "\<lambda>th. work_left e (ht_pc th)" and x = th] by (simp add: hash_work_def)
qed

lemma hash_runs_bounded:
  assumes "hash_env_ok e"
  shows "hash_inv e s \<Longrightarrow> (hash_step e ^^ n) s s' \<Longrightarrow> n \<le> hash_work e s"
proof (induction n arbitrary: s)
  case (Suc n)
  obtain s1 where step: "hash_step e s s1" and rest: "(hash_step e ^^ n) s1 s'"
    using Suc.prems(2) by (metis relpowp_Suc_E2)
  have "n \<le> hash_work e s1" using Suc.IH [OF hash_inv_step [OF assms Suc.prems(1) step] rest] .
  then show ?case using hash_work_decreases [OF Suc.prems(1) step] by simp
qed simp

text \<open>C20: although the two hashing threads share the bit field of claimed pieces without a lock - a bit set by one can be
  lost when the other writes its byte back - making a torrent hashes every piece: however the accesses interleave the
  threads end, and when they have ended either the call fails, or every file could be read and every piece has the
  hash of its data.\<close>

theorem quick_hashes_complete:
  assumes "hash_env_ok e" "hash_init e s0" "(hash_step e)\<^sup>*\<^sup>* s0 s"
  shows "(\<forall>n s'. (hash_step e ^^ n) s s' \<longrightarrow> n \<le> hash_work e s) \<and>
    ((\<nexists>s'. hash_step e s s') \<and> SetPieceHashes e s \<longrightarrow>
      (\<forall>i < he_num e. (\<forall>sl \<in> set (he_slices e i). read_slice e sl \<noteq> None) \<and>
         hs_hashes s i = Some (he_hash e (concat (map (\<lambda>sl. the (read_slice e sl)) (he_slices e i))))))"
proof -
  have "(\<lambda>s s'. hash_env_ok e \<and> hash_step e s s')\<^sup>*\<^sup>* s0 s" using assms(1,3) by simp
  then have inv: "hash_inv e s" using hashing.steps_inv hash_inv_init [OF assms(2)] by blast
  moreover have "(\<forall>sl \<in> set (he_slices e i). read_slice e sl \<noteq> None) \<and>
      hs_hashes s i = Some (he_hash e (concat (map (\<lambda>sl. the (read_slice e sl)) (he_slices e i))))"
    if done': "\<nexists>s'. hash_step e s s'" and ok: "SetPieceHashes e s" and i: "i < he_num e" for i
  proof -
    have err: "\<not> hs_error s" using ok i by (simp add: SetPieceHashes_def)
    have all: "ht_pc (hs_threads s ! t) = PDone" if "t < length (hs_threads s)" for t using done' that hash_step.intros by blast
    have ne: "0 < length (hs_threads s)" using inv by (simp add: hash_inv_def)
    have "claimed e s i" using hash_inv_thread(2) [OF inv ne err] all [OF ne] i by simp
    then have hashed: "piece_hashed e s i" using all by (auto simp: claimed_def)
    then have same: "map (slice_data e) (he_slices e i) = map (\<lambda>sl. the (read_slice e sl)) (he_slices e i)"
      by (intro map_cong) (auto simp: piece_hashed_def slice_data_def)
    show ?thesis using hashed unfolding piece_hashed_def piece_data_def same by blast
  qed
  ultimately show ?thesis using hash_runs_bounded [OF assms(1)] by blast
qed

text \<open>A run by a given schedule.\<close>

definition hash_run :: "hash_env \<Rightarrow> nat list \<Rightarrow> QuickPiecesHashes \<Rightarrow> QuickPiecesHashes" where
  "hash_run e ts s = foldl (\<lambda>s t. hash_next e t s) s ts"

lemma hash_next_length: "length (hs_threads (hash_next e t s)) = length (hs_threads s)"
  by (auto simp: hash_next_def Let_def split: hash_pc.split option.split)

lemma hash_run_steps:
  "list_all (\<lambda>t. t < length (hs_threads s)) ts \<Longrightarrow> (hash_step e)\<^sup>*\<^sup>* s (hash_run e ts s)"
proof (induction ts arbitrary: s)
  case (Cons t ts)
  have "(hash_step e)\<^sup>*\<^sup>* s (hash_next e t s)"
  proof (cases "ht_pc (hs_threads s ! t) = PDone")
    case True
    then show ?thesis by (simp add: hash_next_def)
  next
    case False
    then show ?thesis using Cons.prems hash_step.intros [of t s e] by simp
  qed
  moreover have "(hash_step e)\<^sup>*\<^sup>* (hash_next e t s) (hash_run e ts (hash_next e t s))"
    using Cons.IH [of "hash_next e t s"] Cons.prems by (simp add: hash_next_length)
  ultimately show ?case by (simp add: hash_run_def)
qed (simp add: hash_run_def)

lemma hash_stuck: "list_all (\<lambda>th. ht_pc th = PDone) (hs_threads s) \<Longrightarrow> \<nexists>s'. hash_step e s s'"
  by (auto elim!: hash_step.cases simp: list_all_length)

text \<open>Two pieces of one file; both threads find both pieces unclaimed, and the second one's byte undoes the first one's bit.\<close>

definition demo_hash :: hash_env where
  "demo_hash = \<lparr>he_num = 2, he_piece_length = 2, he_piece_size = (\<lambda>i. if i = 0 then 2 else 1),
     he_slices = (\<lambda>i. if i = 0 then [(''f'', 0, 2)] else [(''f'', 2, 1)]), he_root = ''/d'',
     he_read = (\<lambda>path off sz. if path = ''/d/f'' then Some (take sz (drop off ''abc'')) else None), he_hash = rev\<rparr>"

definition demo_threads :: QuickPiecesHashes where
  "demo_threads = \<lparr>hs_completed = [False, False], hs_hashes = Map.empty, hs_error = False,
     hs_threads = [\<lparr>ht_pc = PLoop 0, ht_buf = ''xy''\<rparr>, \<lparr>ht_pc = PLoop 0, ht_buf = ''zw''\<rparr>]\<rparr>"

definition demo_schedule :: "nat list" where
  "demo_schedule = [0, 0, 1, 1, 0, 1, 0, 0, 0, 0, 0, 0, 0, 1] @ replicate 20 0 @ replicate 20 1"

theorem quick_hashes_complete_witness:
  "let s = hash_run demo_hash demo_schedule demo_threads in
     list_all (\<lambda>th. ht_pc th = PDone) (hs_threads s) \<and> SetPieceHashes demo_hash s \<and>
     hs_hashes s 0 = Some ''ba'' \<and> hs_hashes s 1 = Some ''c''"
proof -
  let ?s = "hash_run demo_hash demo_schedule demo_threads"
  have ok: "hash_env_ok demo_hash" by (auto simp: hash_env_ok_def demo_hash_def read_slice_def less_Suc_eq numeral_2_eq_2)
  have init: "hash_init demo_hash demo_threads" by (simp add: hash_init_def demo_hash_def demo_threads_def numeral_2_eq_2)
  have run: "(hash_step demo_hash)\<^sup>*\<^sup>* demo_threads ?s"
    by (rule hash_run_steps) code_simp
  have done': "list_all (\<lambda>th. ht_pc th = PDone) (hs_threads ?s) \<and> SetPieceHashes demo_hash ?s" by code_simp
  have reads: "read_slice demo_hash (''f'', 0, 2) = Some ''ab''" "read_slice demo_hash (''f'', 2, 1) = Some ''c''"
    by code_simp+
  have "\<forall>i < he_num demo_hash. hs_hashes ?s i =
      Some (he_hash demo_hash (concat (map (\<lambda>sl. the (read_slice demo_hash sl)) (he_slices demo_hash i))))"
    using quick_hashes_complete [OF ok init run] hash_stuck done' by blast
  moreover have "he_num demo_hash = 2" "he_slices demo_hash 0 = [(''f'', 0, 2)]" "he_slices demo_hash 1 = [(''f'', 2, 1)]"
    "he_hash demo_hash = rev" by (simp_all add: demo_hash_def)
  ultimately show ?thesis using done' reads by (simp add: Let_def)
qed

text \<open>The bit of piece 0 is lost on the way, and the piece is hashed twice.\<close>

lemma bit_is_lost:
  "hs_completed (hash_run demo_hash [0, 0, 1, 1, 0, 1, 0, 0, 0, 0, 0, 0, 0] demo_threads) = [True, True] \<and>
   hs_completed (hash_run demo_hash [0, 0, 1, 1, 0, 1, 0, 0, 0, 0, 0, 0, 0, 1] demo_threads) = [True, False]"
  by code_simp

subsection \<open>The torrent\<close>

record make_torrent_args_t =
  ma_piece_size :: int
  ma_flags :: "32 word"
  ma_full_path :: string
  ma_cluster_config :: cluster_config_entry
  ma_web_seeds :: "string list"
  ma_include :: "string list"
  ma_exclude :: "string list"

text \<open>
  What the regular expressions and the torrent library answer. \<open>me_add_files\<close> walks the root with the filter - its
  result is \<open>None\<close> when the filter throws -, \<open>me_set_hashes\<close> is the library's own hashing, \<open>me_quick\<close> the
  end of the two threads, \<open>me_generate\<close> the info hash in bytes and the encoded torrent.
\<close>

record make_env =
  me_compiles :: "string \<Rightarrow> bool"
  me_full_match :: "string \<Rightarrow> string \<Rightarrow> bool"
  me_matches :: "string \<Rightarrow> string \<Rightarrow> bool"
  me_add_files :: "string \<Rightarrow> (string \<Rightarrow> bool option) \<Rightarrow> bool \<Rightarrow> string list option"
  me_set_hashes :: bool
  me_quick :: "hash_env \<times> QuickPiecesHashes"
  me_generate :: "string list \<Rightarrow> int \<Rightarrow> bool \<Rightarrow> bool \<Rightarrow> cluster_config_entry option \<Rightarrow> string list \<Rightarrow> string \<times> string"

text \<open>The bits \<open>BEST_HASH\<close>, \<open>SYMLINKS\<close> and \<open>FILE_HASH\<close> of the flags. The outer \<open>None\<close> is an exception, the inner
  one the result \<open>false\<close>.\<close>

definition make_torrent :: "make_env \<Rightarrow> make_torrent_args_t \<Rightarrow> (string \<times> string) option option" where
  "make_torrent e a =
    (case torrent_root (ma_full_path a) of
       (reg_path, root_path) \<Rightarrow>
         if \<not> me_compiles e reg_path then Some None
         else
           let best_hash = bit (ma_flags a) 0; symlinks = bit (ma_flags a) 1; file_hash = bit (ma_flags a) 2 in
           case me_add_files e root_path (FileFilter (me_full_match e reg_path) (me_matches e) (ma_include a) (ma_exclude a) root_path) symlinks of
             None \<Rightarrow> None
           | Some files \<Rightarrow>
               if files = [] then Some None
               else if \<not> (if best_hash then SetPieceHashes (fst (me_quick e)) (snd (me_quick e)) else me_set_hashes e) then Some None
               else case me_generate e files (ma_piece_size a) symlinks file_hash
                           (if ce_prefix_path (ma_cluster_config a) \<noteq> [] then Some (ma_cluster_config a) else None) (ma_web_seeds a) of
                      (hash, torrent) \<Rightarrow> Some (Some (BytesToHex hash, torrent)))"

subsection \<open>Deleting what is not in a torrent\<close>

datatype ftw_type = FTW_F | FTW_D | FTW_DNR | FTW_DP | FTW_NS | FTW_SL | FTW_SLN

record delete_torrent =
  dt_name :: string
  dt_files :: "string list"
  dt_links :: "string list"
  dt_paths :: "string list"

record delete_files_args_t =
  da_flags :: "32 word"
  da_save_path :: string
  da_torrent_path :: string
  da_new_name :: string

datatype delete_effect = DUnlink string | DRmdir string

text \<open>Whether the walk goes on; a deletion that fails is only printed. \<open>regular\<close>: the mode has \<open>S_IFREG\<close>.\<close>

fun DeleteFileCallback :: "delete_torrent \<Rightarrow> nat \<Rightarrow> string \<Rightarrow> ftw_type \<Rightarrow> bool \<Rightarrow> bool \<times> delete_effect list" where
  "DeleteFileCallback ti base path FTW_F regular =
    (True, if \<not> regular \<or> drop base path \<in> set (dt_files ti) then [] else [DUnlink path])"
| "DeleteFileCallback ti base path FTW_SL regular =
    (True, if drop base path \<in> set (dt_links ti) then [] else [DUnlink path])"
| "DeleteFileCallback ti base path FTW_SLN regular =
    (True, if drop base path \<in> set (dt_links ti) then [] else [DUnlink path])"
| "DeleteFileCallback ti base path FTW_DP regular =
    (True, if drop base path @ ''/'' \<in> set (dt_paths ti) then [] else [DRmdir path])"
| "DeleteFileCallback ti base path FTW_DNR regular = (False, [])"
| "DeleteFileCallback ti base path FTW_NS regular = (False, [])"
| "DeleteFileCallback ti base path FTW_D regular = (False, [])"

text \<open>\<open>nftw\<close> over the entries it finds, in its order, until the callback stops it or, at the end, it fails itself.\<close>

fun delete_walk :: "delete_torrent \<Rightarrow> nat \<Rightarrow> (string \<times> ftw_type \<times> bool) list \<Rightarrow> bool \<Rightarrow> bool \<times> delete_effect list" where
  "delete_walk ti base [] fails = (\<not> fails, [])"
| "delete_walk ti base ((path, type, regular) # es) fails =
    (case DeleteFileCallback ti base path type regular of
       (go, eff) \<Rightarrow>
         if \<not> go then (False, eff)
         else case delete_walk ti base es fails of (ok, eff2) \<Rightarrow> (ok, eff @ eff2))"

text \<open>\<open>walk\<close> gives the entries under a root, with or without following links, and whether \<open>nftw\<close> fails.\<close>

definition DeleteFilesOutTorrent ::
  "(string \<Rightarrow> bool \<Rightarrow> (string \<times> ftw_type \<times> bool) list \<times> bool) \<Rightarrow> delete_torrent \<Rightarrow> string \<Rightarrow> string \<Rightarrow> bool \<Rightarrow>
   bool \<times> delete_effect list" where
  "DeleteFilesOutTorrent walk ti save_path new_name symlinks =
    (case walk (save_path @ ''/'' @ (if new_name = [] then dt_name ti else new_name)) symlinks of
       (entries, fails) \<Rightarrow> delete_walk ti (length save_path + 1) entries fails)"

definition DeleteFilesInTorrent :: "bool \<times> delete_effect list" where
  "DeleteFilesInTorrent = (True, [])"

text \<open>\<open>sz\<close> and \<open>parse\<close>: the size and the contents of the torrent file. The bits are \<open>DELETE_IN_TORRENT\<close> and \<open>SYMLINKS\<close>.\<close>

definition DeleteFilesByTorrent ::
  "(string \<Rightarrow> int) \<Rightarrow> (string \<Rightarrow> string \<Rightarrow> delete_torrent option) \<Rightarrow>
   (string \<Rightarrow> bool \<Rightarrow> (string \<times> ftw_type \<times> bool) list \<times> bool) \<Rightarrow> delete_files_args_t \<Rightarrow> bool \<times> delete_effect list" where
  "DeleteFilesByTorrent sz parse walk a =
    (if sz (da_torrent_path a) > 50 * 1024 * 1024 \<or> sz (da_torrent_path a) \<le> 0 then (False, [])
     else case parse (da_torrent_path a) (da_new_name a) of
            None \<Rightarrow> (False, [])
          | Some ti \<Rightarrow>
              if bit (da_flags a) 0 then DeleteFilesInTorrent
              else DeleteFilesOutTorrent walk ti (da_save_path a) (da_new_name a) (bit (da_flags a) 1))"

text \<open>The request to delete the torrent's own files does nothing and succeeds.\<close>

lemma delete_in_torrent_nothing:
  "bit (da_flags a) 0 \<Longrightarrow> snd (DeleteFilesByTorrent sz parse walk a) = []"
  by (auto simp: DeleteFilesByTorrent_def DeleteFilesInTorrent_def split: option.split)

text \<open>What the callback may delete.\<close>

definition foreign :: "delete_torrent \<Rightarrow> nat \<Rightarrow> string \<times> ftw_type \<times> bool \<Rightarrow> delete_effect option" where
  "foreign ti base x =
    (case x of
       (path, FTW_F, regular) \<Rightarrow> if regular \<and> drop base path \<notin> set (dt_files ti) then Some (DUnlink path) else None
     | (path, FTW_SL, regular) \<Rightarrow> if drop base path \<notin> set (dt_links ti) then Some (DUnlink path) else None
     | (path, FTW_SLN, regular) \<Rightarrow> if drop base path \<notin> set (dt_links ti) then Some (DUnlink path) else None
     | (path, FTW_DP, regular) \<Rightarrow> if drop base path @ ''/'' \<notin> set (dt_paths ti) then Some (DRmdir path) else None
     | _ \<Rightarrow> None)"

lemma DeleteFileCallback_foreign:
  "DeleteFileCallback ti base path type regular =
    (type \<notin> {FTW_DNR, FTW_NS, FTW_D}, case foreign ti base (path, type, regular) of None \<Rightarrow> [] | Some x \<Rightarrow> [x])"
  by (cases type) (auto simp: foreign_def)

lemma delete_walk_spec:
  "delete_walk ti base es fails = (ok, eff) \<Longrightarrow>
    \<exists>pre rest. es = pre @ rest \<and> eff = List.map_filter (foreign ti base) pre \<and> (ok \<longrightarrow> rest = [] \<and> \<not> fails)"
proof (induction es arbitrary: eff)
  case Nil
  then show ?case by (auto simp: List.map_filter_def)
next
  case (Cons x es)
  obtain path type regular where x: "x = (path, type, regular)" by (rule prod_cases3)
  obtain ok' eff2 where rest: "delete_walk ti base es fails = (ok', eff2)" by force
  show ?case
  proof (cases "type \<in> {FTW_DNR, FTW_NS, FTW_D}")
    case True
    then have "eff = [] \<and> \<not> ok" using Cons.prems by (auto simp: x)
    then show ?thesis by (intro exI [of _ "[]"] exI [of _ "x # es"]) (simp add: List.map_filter_def)
  next
    case False
    then have eqs: "ok' = ok" "eff = (case foreign ti base x of None \<Rightarrow> [] | Some y \<Rightarrow> [y]) @ eff2"
      using Cons.prems rest by (auto simp: x DeleteFileCallback_foreign)
    obtain pre r where "es = pre @ r" "eff2 = List.map_filter (foreign ti base) pre" "ok' \<longrightarrow> r = [] \<and> \<not> fails"
      using Cons.IH [OF rest [unfolded eqs(1)]] eqs(1) by blast
    then show ?thesis using eqs
      by (intro exI [of _ "x # pre"] exI [of _ r]) (auto simp: List.map_filter_def split: option.split)
  qed
qed

lemma foreign_unlink:
  "foreign ti n (path, type, r) = Some (DUnlink q) \<longleftrightarrow> q = path \<and>
    (type = FTW_F \<and> r \<and> drop n path \<notin> set (dt_files ti) \<or> type \<in> {FTW_SL, FTW_SLN} \<and> drop n path \<notin> set (dt_links ti))"
  by (cases type) (auto simp: foreign_def)

lemma foreign_rmdir:
  "foreign ti n (path, type, r) = Some (DRmdir q) \<longleftrightarrow> q = path \<and> type = FTW_DP \<and> drop n path @ ''/'' \<notin> set (dt_paths ti)"
  by (cases type) (auto simp: foreign_def)

text \<open>Deleting removes only entries that are not in the torrent, and all of them when it succeeds.\<close>

theorem delete_files_outside:
  assumes "DeleteFilesByTorrent sz parse walk a = (ok, eff)" "\<not> bit (da_flags a) 0"
    and "parse (da_torrent_path a) (da_new_name a) = Some ti"
    and "walk (da_save_path a @ ''/'' @ (if da_new_name a = [] then dt_name ti else da_new_name a)) (bit (da_flags a) 1) = (entries, fails)"
  defines "rel \<equiv> drop (length (da_save_path a) + 1)"
  shows "(\<forall>path. DUnlink path \<in> set eff \<longrightarrow> (\<exists>type r. (path, type, r) \<in> set entries \<and>
           (type = FTW_F \<and> r \<and> rel path \<notin> set (dt_files ti) \<or> type \<in> {FTW_SL, FTW_SLN} \<and> rel path \<notin> set (dt_links ti)))) \<and>
    (\<forall>path. DRmdir path \<in> set eff \<longrightarrow> (\<exists>r. (path, FTW_DP, r) \<in> set entries \<and> rel path @ ''/'' \<notin> set (dt_paths ti))) \<and>
    (ok \<longrightarrow> (\<forall>path. (path, FTW_F, True) \<in> set entries \<and> rel path \<notin> set (dt_files ti) \<longrightarrow> DUnlink path \<in> set eff))"
proof -
  let ?path = "da_save_path a @ ''/'' @ (if da_new_name a = [] then dt_name ti else da_new_name a)"
  let ?sz = "sz (da_torrent_path a)"
  have "DeleteFilesByTorrent sz parse walk a =
      (if ?sz > 50 * 1024 * 1024 \<or> ?sz \<le> 0 then (False, [])
       else DeleteFilesOutTorrent walk ti (da_save_path a) (da_new_name a) (bit (da_flags a) 1))"
    by (simp only: DeleteFilesByTorrent_def assms(2,3) option.case if_False)
  moreover have "DeleteFilesOutTorrent walk ti (da_save_path a) (da_new_name a) (bit (da_flags a) 1) =
      delete_walk ti (length (da_save_path a) + 1) entries fails"
    by (simp only: DeleteFilesOutTorrent_def assms(4) prod.case)
  ultimately consider (none) "eff = []" "\<not> ok" | (walk) "delete_walk ti (length (da_save_path a) + 1) entries fails = (ok, eff)"
    using assms(1) by (metis Pair_inject)
  then show ?thesis
  proof cases
    case walk
    obtain pre rest where pre: "entries = pre @ rest"
      "eff = List.map_filter (foreign ti (length (da_save_path a) + 1)) pre" "ok \<longrightarrow> rest = [] \<and> \<not> fails"
      using delete_walk_spec [OF walk] by blast
    have mem: "y \<in> set eff \<longleftrightarrow> (\<exists>x \<in> set pre. foreign ti (length (da_save_path a) + 1) x = Some y)" for y
      by (simp only: pre(2) set_map_filter)
    have "\<forall>path. DUnlink path \<in> set eff \<longrightarrow> (\<exists>type r. (path, type, r) \<in> set entries \<and>
        (type = FTW_F \<and> r \<and> rel path \<notin> set (dt_files ti) \<or> type \<in> {FTW_SL, FTW_SLN} \<and> rel path \<notin> set (dt_links ti)))"
    proof (intro allI impI)
      fix path
      assume "DUnlink path \<in> set eff"
      then obtain x where x: "x \<in> set pre" "foreign ti (length (da_save_path a) + 1) x = Some (DUnlink path)" unfolding mem by blast
      obtain q type r where "x = (q, type, r)" by (rule prod_cases3)
      then show "\<exists>type r. (path, type, r) \<in> set entries \<and>
        (type = FTW_F \<and> r \<and> rel path \<notin> set (dt_files ti) \<or> type \<in> {FTW_SL, FTW_SLN} \<and> rel path \<notin> set (dt_links ti))"
        using x pre(1) unfolding rel_def by (intro exI [of _ type] exI [of _ r]) (simp add: foreign_unlink)
    qed
    moreover have "\<forall>path. DRmdir path \<in> set eff \<longrightarrow> (\<exists>r. (path, FTW_DP, r) \<in> set entries \<and> rel path @ ''/'' \<notin> set (dt_paths ti))"
    proof (intro allI impI)
      fix path
      assume "DRmdir path \<in> set eff"
      then obtain x where x: "x \<in> set pre" "foreign ti (length (da_save_path a) + 1) x = Some (DRmdir path)" unfolding mem by blast
      obtain q type r where "x = (q, type, r)" by (rule prod_cases3)
      then show "\<exists>r. (path, FTW_DP, r) \<in> set entries \<and> rel path @ ''/'' \<notin> set (dt_paths ti)"
        using x pre(1) unfolding rel_def by (intro exI [of _ r]) (simp add: foreign_rmdir)
    qed
    moreover have "ok \<longrightarrow> (\<forall>path. (path, FTW_F, True) \<in> set entries \<and> rel path \<notin> set (dt_files ti) \<longrightarrow> DUnlink path \<in> set eff)"
    proof (intro allI impI)
      fix path
      assume "ok" and path: "(path, FTW_F, True) \<in> set entries \<and> rel path \<notin> set (dt_files ti)"
      then have "(path, FTW_F, True) \<in> set pre" using pre(1,3) by simp
      then show "DUnlink path \<in> set eff" unfolding mem using path by (intro bexI) (simp_all add: foreign_unlink rel_def)
    qed
    ultimately show ?thesis by blast
  qed simp
qed

end
