(* ===== verification/GroupRpc.thy ===== *)
theory GroupRpc
  imports GroupManagerProps AgentUtil
begin

text \<open>
  The client of the group daemon (\<open>gko-src/group/group_client.cpp\<close>) and the daemon's service handler
  (\<open>group_manager_service_handler.cpp\<close>). Thrift and the socket decide, per attempt, whether a request reaches the
  daemon and whether its reply comes back; the daemon is the model of \<open>GroupManager\<close>. Lines printed per task are not
  modelled, only which tasks are shown.
\<close>

subsection \<open>The service handler\<close>

type_synonym general_response = "int \<times> string"

definition AddGroupTaskHandler ::
  "create_env \<Rightarrow> int \<Rightarrow> DownloadParam \<Rightarrow> UserCred \<Rightarrow> GroupManager \<Rightarrow> general_response \<times> GroupManager \<times> group_effect list" where
  "AddGroupTaskHandler e self_uid p cred m =
    (case GroupAddTask e self_uid p cred m of
       (ret, m, eff) \<Rightarrow> ((rpc_code ret, ClientRpcRetCodeToString ret (GeneralParamString p) ''add''), m, eff))"

definition ControlTaskHandler ::
  "group_env \<Rightarrow> string \<Rightarrow> bool \<Rightarrow> ControlTaskType \<Rightarrow> UserCred \<Rightarrow> GroupManager \<Rightarrow>
   (general_response \<times> GroupManager \<times> group_effect list) option" where
  "ControlTaskHandler e infohash is_all type cred m =
    map_option (\<lambda>(ret, m, eff). ((rpc_code ret, ClientRpcRetCodeToString ret infohash ''control''), m, eff))
      (GroupControlTask e infohash is_all type cred m)"

definition SetTaskOptionHandler :: "TaskOptions \<Rightarrow> GroupManager \<Rightarrow> general_response \<times> GroupManager \<times> group_effect list" where
  "SetTaskOptionHandler opts m =
    (case SetTaskOptions opts m of
       (ret, m, eff) \<Rightarrow> ((rpc_code ret, ClientRpcRetCodeToString ret (to_infohash opts) ''set task option''), m, eff))"

text \<open>The return value -1 of the two queries is not looked at: the answer is then an empty list.\<close>

definition GetTaskStatusHandler :: "string \<Rightarrow> bool \<Rightarrow> GroupManager \<Rightarrow> TaskStatus list" where
  "GetTaskStatusHandler infohash is_full m = (case GetTaskStatus infohash is_full m of None \<Rightarrow> [] | Some ts \<Rightarrow> ts)"

definition GetTaskOptionHandler :: "(nat \<Rightarrow> int \<times> int \<times> int) \<Rightarrow> string \<Rightarrow> GroupManager \<Rightarrow> TaskOptions list" where
  "GetTaskOptionHandler limits infohash m = (case GetTaskOptions limits infohash m of None \<Rightarrow> [] | Some os \<Rightarrow> os)"

subsection \<open>One call with its retries\<close>

text \<open>What becomes of an attempt: the request does not reach the daemon, the reply does not come back, or both do.\<close>

datatype rpc_fault = Unsent | Unanswered | Answered

definition kDefaultRpcRetry :: nat where
  "kDefaultRpcRetry = 2"

text \<open>An attempt comes with the daemon's environment at that time. The reply, the daemon's state and what it did; \<open>None\<close>
  when the handler has no value in the model.\<close>

fun rpc_loop :: "('x \<Rightarrow> 's \<Rightarrow> ('r \<times> 's \<times> 'e list) option) \<Rightarrow> (rpc_fault \<times> 'x) list \<Rightarrow> 's \<Rightarrow> ('r option \<times> 's \<times> 'e list) option" where
  "rpc_loop f [] s = Some (None, s, [])"
| "rpc_loop f ((Unsent, x) # as) s = rpc_loop f as s"
| "rpc_loop f ((Unanswered, x) # as) s =
    (case f x s of
       None \<Rightarrow> None
     | Some (r, s, eff) \<Rightarrow> map_option (\<lambda>(r, s, eff2). (r, s, eff @ eff2)) (rpc_loop f as s))"
| "rpc_loop f ((Answered, x) # as) s = map_option (\<lambda>(r, s, eff). (Some r, s, eff)) (f x s)"

definition rpc_call ::
  "('x \<Rightarrow> 's \<Rightarrow> ('r \<times> 's \<times> 'e list) option) \<Rightarrow> (nat \<Rightarrow> rpc_fault \<times> 'x) \<Rightarrow> 's \<Rightarrow> ('r option \<times> 's \<times> 'e list) option" where
  "rpc_call f as s = rpc_loop f (map as [0 ..< kDefaultRpcRetry]) s"

subsection \<open>The client\<close>

record GroupClient =
  gcl_config :: GroupConfig
  gcl_cred :: UserCred

text \<open>\<open>parsed\<close>: the configuration file; \<open>chdir\<close>: whether the directory can be entered. \<open>None\<close>: a limit overflows.\<close>

definition GroupClient_Initialize ::
  "string \<Rightarrow> GroupConfig option \<Rightarrow> (string \<Rightarrow> bool) \<Rightarrow> UserCred \<Rightarrow> string \<Rightarrow> GroupClient \<Rightarrow> (int \<times> GroupClient) option" where
  "GroupClient_Initialize cwd parsed chdir self conf_file gc =
    (if conf_file = [] then Some (-1, gc)
     else case LoadGroupConfig cwd conf_file parsed (gcl_config gc) of
            None \<Rightarrow> None
          | Some (ret, conf) \<Rightarrow>
              let gc = gc\<lparr>gcl_config := conf\<rparr> in
              if ret \<noteq> 0 then Some (-1, gc)
              else if \<not> chdir (absolute_path conf @ group_data_path conf) then Some (-1, gc)
              else Some (0, gc\<lparr>gcl_cred := self\<rparr>))"

definition general_result :: "(general_response option \<times> 's \<times> 'e list) option \<Rightarrow> (int \<times> 's \<times> 'e list) option" where
  "general_result r =
    map_option (\<lambda>(reply, s, eff). ((case reply of None \<Rightarrow> -1 | Some (code, msg) \<Rightarrow> if code \<noteq> 0 then -1 else 0), s, eff)) r"

definition ProcessAdd ::
  "(nat \<Rightarrow> rpc_fault \<times> create_env) \<Rightarrow> int \<Rightarrow> DownloadParam \<Rightarrow> GroupClient \<Rightarrow> GroupManager \<Rightarrow>
   (int \<times> GroupManager \<times> group_effect list) option" where
  "ProcessAdd as self_uid p gc m =
    general_result (rpc_call (\<lambda>e m. Some (AddGroupTaskHandler e self_uid p (gcl_cred gc) m)) as m)"

definition ProcessSetOption ::
  "(nat \<Rightarrow> rpc_fault \<times> unit) \<Rightarrow> TaskOptions \<Rightarrow> GroupManager \<Rightarrow> (int \<times> GroupManager \<times> group_effect list) option" where
  "ProcessSetOption as opts m = general_result (rpc_call (\<lambda>x m. Some (SetTaskOptionHandler opts m)) as m)"

definition ProcessControl ::
  "(nat \<Rightarrow> rpc_fault \<times> group_env) \<Rightarrow> string \<Rightarrow> ControlTaskType \<Rightarrow> bool \<Rightarrow> GroupClient \<Rightarrow> GroupManager \<Rightarrow>
   (int \<times> GroupManager \<times> group_effect list) option" where
  "ProcessControl as infohash type is_all gc m =
    general_result (rpc_call (\<lambda>e m. ControlTaskHandler e infohash is_all type (gcl_cred gc) m) as m)"

text \<open>The queries do not change the daemon: the reply, if any.\<close>

fun query_loop :: "('x \<Rightarrow> 'r) \<Rightarrow> (rpc_fault \<times> 'x) list \<Rightarrow> 'r option" where
  "query_loop f [] = None"
| "query_loop f ((Answered, x) # as) = Some (f x)"
| "query_loop f ((fault, x) # as) = query_loop f as"

definition ProcessGetOption :: "(nat \<Rightarrow> rpc_fault \<times> (nat \<Rightarrow> int \<times> int \<times> int)) \<Rightarrow> string \<Rightarrow> GroupManager \<Rightarrow> int \<times> TaskOptions list" where
  "ProcessGetOption as infohash m =
    (case query_loop (\<lambda>limits. GetTaskOptionHandler limits infohash m) (map as [0 ..< kDefaultRpcRetry]) of
       None \<Rightarrow> (-1, [])
     | Some os \<Rightarrow> (0, os))"

definition ClientGetTaskStatus :: "(nat \<Rightarrow> rpc_fault \<times> GroupManager) \<Rightarrow> string \<Rightarrow> bool \<Rightarrow> int \<times> TaskStatus list" where
  "ClientGetTaskStatus as infohash is_full =
    (case query_loop (GetTaskStatusHandler infohash is_full) (map as [0 ..< kDefaultRpcRetry]) of
       None \<Rightarrow> (-1, [])
     | Some ts \<Rightarrow> (0, ts))"

subsection \<open>Listing\<close>

definition shown :: "bool \<Rightarrow> TaskStatus list \<Rightarrow> TaskStatus list" where
  "shown is_show_history ts = filter (\<lambda>t. is_show_history \<or> \<not> tk_is_task_finished t) ts"

definition has_not_finished :: "TaskStatus list \<Rightarrow> bool" where
  "has_not_finished ts = list_ex (\<lambda>t. \<not> tk_is_task_finished t \<or> tk_state t = -1) ts"

text \<open>The totals over the tasks that are not finished: rates down and up, amounts down and up.\<close>

definition GetAllTaskSumInfo :: "(real \<Rightarrow> string) \<Rightarrow> TaskStatus list \<Rightarrow> string list" where
  "GetAllTaskSumInfo print2 ts =
    (let run = filter (\<lambda>t. \<not> tk_is_task_finished t) ts; total = (\<lambda>f. BytesToReadable print2 (sum_list (map f run))) in
     [total tk_download_rate @ ''/s'', total tk_upload_rate @ ''/s'', total tk_payload_downloaded, total tk_payload_uploaded])"

text \<open>The first call uses the attempts \<open>polls 0\<close>, the next round \<open>polls 1\<close> and so on: what each round shows, with the
  lines it takes, and the end of the loop; fuel bounds the rounds, \<open>None\<close> when it runs out.\<close>

fun list_daemon :: "nat \<Rightarrow> (nat \<Rightarrow> nat \<Rightarrow> rpc_fault \<times> GroupManager) \<Rightarrow> string \<Rightarrow> bool \<Rightarrow> bool \<Rightarrow> nat \<Rightarrow> (TaskStatus list \<times> nat) list option" where
  "list_daemon 0 polls infohash is_full is_show_history i = None"
| "list_daemon (Suc fuel) polls infohash is_full is_show_history i =
    (case ClientGetTaskStatus (polls i) infohash is_full of
       (ret, ts) \<Rightarrow>
         if ret \<noteq> 0 then Some []
         else
           let view = shown is_show_history ts; round = (view, 2 * length view + 2) in
           if \<not> has_not_finished ts then Some [round]
           else map_option (Cons round) (list_daemon fuel polls infohash is_full is_show_history (i + 1)))"

definition ProcessList ::
  "nat \<Rightarrow> (nat \<Rightarrow> nat \<Rightarrow> rpc_fault \<times> GroupManager) \<Rightarrow> string \<Rightarrow> bool \<Rightarrow> bool \<Rightarrow> bool \<Rightarrow> (int \<times> TaskStatus list list) option" where
  "ProcessList fuel polls infohash is_full is_show_history is_daemon =
    (if \<not> is_daemon then
       (case ClientGetTaskStatus (polls 0) infohash is_full of
          (ret, ts) \<Rightarrow> if ret \<noteq> 0 then Some (-1, []) else Some (0, [shown is_show_history ts]))
     else map_option (\<lambda>rounds. (0, map fst rounds)) (list_daemon fuel polls infohash is_full is_show_history 0))"

text \<open>The loop ends with the first round that cannot ask the daemon or finds nothing unfinished.\<close>

lemma list_daemon_ends:
  assumes "case ClientGetTaskStatus (polls (i + k)) infohash is_full of (ret, ts) \<Rightarrow> ret \<noteq> 0 \<or> \<not> has_not_finished ts" "k < fuel"
  shows "list_daemon fuel polls infohash is_full history i \<noteq> None"
  using assms
proof (induction fuel arbitrary: i k)
  case (Suc fuel)
  show ?case
  proof (cases k)
    case 0
    then show ?thesis using Suc.prems(1) by (auto simp: Let_def split: prod.splits)
  next
    case (Suc j)
    then have "list_daemon fuel polls infohash is_full history (i + 1) \<noteq> None"
      using Suc.IH [of "i + 1" j] Suc.prems by simp
    then show ?thesis by (auto simp: Let_def split: prod.splits)
  qed
qed simp

subsection \<open>Adding through the client\<close>

text \<open>The info hash a request is filed under depends on the request and the torrent file only.\<close>

definition param_infohash :: "(string \<Rightarrow> string \<Rightarrow> torrent_meta option) \<Rightarrow> DownloadParam \<Rightarrow> string" where
  "param_infohash parse p =
    (if dp_torrent_path p \<noteq> [] then
       (case parse (dp_torrent_path p) (dp_new_name p) of None \<Rightarrow> [] | Some ti \<Rightarrow> BytesToHex (tm_info_hash ti))
     else if dp_torrent_url p \<noteq> [] then dp_torrent_url p
     else case HexstrToBytes (dp_infohash p) of None \<Rightarrow> [] | Some bytes \<Rightarrow> BytesToHex bytes)"

lemma create_source_infohash:
  assumes "create_source e t = Inr (t', ti, ps, eff)" "\<not> is_torrent_url t"
  shows "param_infohash (ce_parse_torrent e) (params t) =
    (case ti of None \<Rightarrow> dp_torrent_url (params t') | Some ti \<Rightarrow> BytesToHex (tm_info_hash ti)) \<and> is_torrent_url t' = (ti = None)"
  using assms
  by (auto simp: create_source_def param_infohash_def SetOrgPieces_def meta_of_hash_def Let_def split: if_splits option.splits)

lemma create_finish_infohash: "create_finish e ti t = (ok, t', eff) \<Longrightarrow> g_infohash t' = g_infohash t"
  by (auto simp: create_finish_def Let_def split: if_splits)

lemma CreateGroupTask_infohash:
  assumes "CreateGroupTask e p c t = (True, t', eff)" "\<not> is_torrent_url t"
  shows "g_infohash t' = param_infohash (ce_parse_torrent e) p"
proof -
  let ?t = "t\<lparr>params := p, g_cred := c, task_status := (task_status t)\<lparr>tk_uid := uc_uid c, tk_save_path := dp_save_path p\<rparr>\<rparr>"
  obtain t1 ti ps eff1 where src: "create_source e ?t = Inr (t1, ti, ps, eff1)"
    using assms(1) by (auto simp: CreateGroupTask_def Let_def split: if_splits sum.splits)
  then show ?thesis
    using create_source_infohash [OF src] assms
    by (auto simp: CreateGroupTask_def Let_def dest!: create_finish_infohash split: if_splits option.splits prod.splits)
qed

text \<open>The tasks that run, by info hash. A request files one of its owner under an info hash that was free, or changes
  nothing.\<close>

definition running_task_of :: "GroupManager \<Rightarrow> string \<Rightarrow> GroupTask option" where
  "running_task_of m i = Option.bind (find_running i m) (\<lambda>a. task_at a m)"

definition filed :: "string \<Rightarrow> UserCred \<Rightarrow> GroupManager \<Rightarrow> GroupManager \<Rightarrow> bool" where
  "filed i c m m' \<longleftrightarrow> running_task_of m i = None \<and>
     (\<exists>t. g_cred t = c \<and> g_infohash t = i \<and> running_task_of m' = (running_task_of m)(i \<mapsto> t))"

lemma add_success_infohash:
  assumes "GroupAddTask e self p c m = (ClientRpcSuccess, m', eff)" "task_at (next_ref m) m' = Some t"
  shows "g_infohash t = param_infohash (ce_parse_torrent e) p"
proof -
  obtain ok t1 eff1 where c: "CreateGroupTask e p c (GroupTask_new (ce_now e)) = (ok, t1, eff1)" by (metis prod_cases3)
  obtain a m1 where n: "new_ref t1 m = (a, m1)" by force
  obtain r m2 where ad: "AddTaskToMap a t1 m1 = (r, m2)" by force
  have ok: ok and m': "m' = fst (release_task (ce_opens e) a m2)"
    using assms(1) c n ad by (auto simp: GroupAddTask_def split: if_splits prod.splits)
  have "a = next_ref m" "task_at a m1 = Some t1" using n by (auto simp: new_ref_def task_at_def)
  moreover have "task_at a m2 = task_at a m1" using ad by (auto simp: AddTaskToMap_def task_at_def split: if_splits)
  ultimately have "t = t1" using assms(2) m' by (auto simp: release_task_def task_at_def split: if_splits)
  moreover have "\<not> is_torrent_url (GroupTask_new (ce_now e))" by (simp add: GroupTask_new_def)
  ultimately show ?thesis using CreateGroupTask_infohash [of e p c "GroupTask_new (ce_now e)" t1 eff1] c ok by simp
qed

lemma running_of_cong:
  assumes "gm_inv m" "\<forall>b. b \<noteq> next_ref m \<longrightarrow> task_at b m' = task_at b m" "find_running j m' = find_running j m"
  shows "running_task_of m' j = running_task_of m j"
proof (cases "find_running j m")
  case (Some a)
  then have "task_at a m \<noteq> None" using by_infohashD [OF assms(1), of j a] by (auto simp: find_running_eq)
  then have "a \<noteq> next_ref m" using assms(1) by (auto simp: gm_inv_def)
  then show ?thesis using assms Some by (simp add: running_task_of_def)
qed (use assms in \<open>simp add: running_task_of_def\<close>)

lemma AddGroupTask_files:
  assumes "gm_inv m" "fresh_handles e m" "AddGroupTaskHandler e self p c m = ((code, msg), m', eff)"
  shows "gm_inv m' \<and>
    (if code = 0 then filed (param_infohash (ce_parse_torrent e) p) c m m' else running_task_of m' = running_task_of m)"
proof -
  obtain ret where add: "GroupAddTask e self p c m = (ret, m', eff)" and code: "code = rpc_code ret"
    using assms(3) by (auto simp: AddGroupTaskHandler_def split: prod.splits)
  have zero: "rpc_code ret = 0 \<longleftrightarrow> ret = ClientRpcSuccess" by (cases ret) simp_all
  have inv: "gm_inv m'" using GroupAddTask_evolves [OF assms(1,2) add] by (simp add: evolves_def)
  note o = GroupAddTask_outcome [OF assms(1,2) add]
  have same: "find_running j m' = find_running j m \<Longrightarrow> running_task_of m' j = running_task_of m j" for j
    using running_of_cong [OF assms(1)] o by blast
  show ?thesis
  proof (cases "ret = ClientRpcSuccess")
    case True
    then obtain t where t: "task_at (next_ref m) m' = Some t" "g_cred t = c" "map_of (ginfohash_map m) (g_infohash t) = None"
        and maps: "\<forall>j. find_running j m' = (if j = g_infohash t then Some (next_ref m) else find_running j m)"
      using o by auto
    have i: "g_infohash t = param_infohash (ce_parse_torrent e) p" using add_success_infohash add True t(1) by blast
    have "running_task_of m' = (running_task_of m)(g_infohash t \<mapsto> t)"
    proof
      show "running_task_of m' j = ((running_task_of m)(g_infohash t \<mapsto> t)) j" for j
        using maps t(1) same [of j] by (simp add: running_task_of_def)
    qed
    moreover have "running_task_of m (g_infohash t) = None" using t(3) by (simp add: running_task_of_def find_running_def)
    ultimately have "filed (param_infohash (ce_parse_torrent e) p) c m m'" using t(2) i by (auto simp: filed_def)
    then show ?thesis using inv True zero code by simp
  next
    case False
    then have "find_running j m' = find_running j m" for j using o by (auto simp: find_running_def)
    then have "running_task_of m' = running_task_of m" using same by blast
    then show ?thesis using inv False zero code by simp
  qed
qed

lemma not_filed_twice: "filed i c m m1 \<Longrightarrow> \<not> filed i c m1 m2"
  by (auto simp: filed_def)

lemma filed_after: "filed i c m m1 \<Longrightarrow> running_task_of m2 = running_task_of m1 \<Longrightarrow> filed i c m m2"
  by (simp add: filed_def)

lemma filed_before: "running_task_of m1 = running_task_of m \<Longrightarrow> filed i c m1 m2 \<Longrightarrow> filed i c m m2"
  by (simp add: filed_def)

text \<open>C24: adding through the client, whatever is lost on the way. At most one task is filed, under the info hash of the
  request and for the user who asked; the client reports success only when it was filed, and a failure with nothing
  filed unless a reply was lost.\<close>

theorem client_add_once:
  assumes "reach group_init group_step m" "fresh_handles (snd (as 0)) m"
    and "\<forall>m1. m1 = m \<or> m1 = fst (snd (AddGroupTaskHandler (snd (as 0)) self p (gcl_cred gc) m)) \<longrightarrow> fresh_handles (snd (as 1)) m1"
    and "ce_parse_torrent (snd (as 0)) = parse" "ce_parse_torrent (snd (as 1)) = parse"
  shows "case ProcessAdd as self p gc m of
      None \<Rightarrow> False
    | Some (ret, m', eff) \<Rightarrow> ret \<in> {0, -1} \<and>
        (filed (param_infohash parse p) (gcl_cred gc) m m' \<or> running_task_of m' = running_task_of m) \<and>
        (ret = 0 \<longrightarrow> filed (param_infohash parse p) (gcl_cred gc) m m') \<and>
        (ret = -1 \<and> Unanswered \<notin> fst ` as ` {0, 1} \<longrightarrow> running_task_of m' = running_task_of m)"
proof -
  let ?c = "gcl_cred gc" and ?i = "param_infohash parse p"
  have inv: "gm_inv m" by (rule group.reach_inv [OF assms(1)])
  obtain f0 e0 f1 e1 where as: "as 0 = (f0, e0)" "as 1 = (f1, e1)" by (metis prod.collapse)
  obtain k0 s0 m0 x0 where h0: "AddGroupTaskHandler e0 self p ?c m = ((k0, s0), m0, x0)" by (metis prod.collapse)
  obtain k1 s1 m1 x1 where h1: "AddGroupTaskHandler e1 self p ?c m = ((k1, s1), m1, x1)" by (metis prod.collapse)
  obtain k2 s2 m2 x2 where h2: "AddGroupTaskHandler e1 self p ?c m0 = ((k2, s2), m2, x2)" by (metis prod.collapse)
  have fresh: "fresh_handles e0 m" "fresh_handles e1 m" "fresh_handles e1 m0" and parse: "ce_parse_torrent e0 = parse" "ce_parse_torrent e1 = parse"
    using assms(2-5) as h0 by simp_all
  have a0: "gm_inv m0" "if k0 = 0 then filed ?i ?c m m0 else running_task_of m0 = running_task_of m"
    using AddGroupTask_files [OF inv fresh(1) h0] unfolding parse by blast+
  have a1: "if k1 = 0 then filed ?i ?c m m1 else running_task_of m1 = running_task_of m"
    using AddGroupTask_files [OF inv fresh(2) h1] unfolding parse by blast
  have a2: "if k2 = 0 then filed ?i ?c m0 m2 else running_task_of m2 = running_task_of m0"
    using AddGroupTask_files [OF a0(1) fresh(3) h2] unfolding parse by blast
  have a3: "filed ?i ?c m m2 \<or> running_task_of m2 = running_task_of m" "k2 = 0 \<Longrightarrow> filed ?i ?c m m2"
    using a0(2) a2 not_filed_twice filed_after filed_before by (metis (no_types))+
  have calls: "map as [0 ..< kDefaultRpcRetry] = [(f0, e0), (f1, e1)]" using as by (simp add: kDefaultRpcRetry_def upt_rec)
  show ?thesis
    using a0(2) a1 a3
    by (cases f0; cases f1)
      (simp_all add: ProcessAdd_def rpc_call_def calls general_result_def h0 h1 h2 as as(2) [unfolded One_nat_def] del: fun_upd_apply split: if_split_asm)
qed

subsection \<open>On concrete runs\<close>

definition demo_client :: GroupClient where
  "demo_client = \<lparr>gcl_config = demo_conf, gcl_cred = demo_cred 100\<rparr>"

text \<open>The torrent library gives the handle 7 at the first attempt, then 8.\<close>

definition demo_attempts :: "rpc_fault \<Rightarrow> nat \<Rightarrow> rpc_fault \<times> create_env" where
  "demo_attempts first i = (if i = 0 then (first, demo_create (Some 7)) else (Answered, demo_create (Some 8)))"

definition add_result :: "rpc_fault \<Rightarrow> (int \<times> GroupManager \<times> group_effect list) option" where
  "add_result first = ProcessAdd (demo_attempts first) 9 url_param demo_client empty_group"

lemma client_add_once_witness:
  "case add_result Unsent of
      None \<Rightarrow> False
    | Some (ret, m', eff) \<Rightarrow> ret = 0 \<and> filed ''http://t'' (demo_cred 100) empty_group m'"
proof -
  let ?m1 = "fst (snd (AddGroupTaskHandler (demo_create (Some 7)) 9 url_param (demo_cred 100) empty_group))"
  have "list_all (\<lambda>p. fst p \<noteq> Some 8) (gtorrent_map ?m1)" by code_simp
  then have "map_of (gtorrent_map ?m1) (Some 8) = None" by (auto simp: list_all_iff map_of_eq_None_iff)
  then have fresh: "fresh_handles (demo_create (Some 8)) ?m1" by (simp add: fresh_handles_def demo_create_def)
  have "map_option fst (add_result Unsent) = Some 0" by code_simp
  then obtain m' eff where r: "add_result Unsent = Some (0, m', eff)" by auto
  have "param_infohash (ce_parse_torrent (demo_create (Some 7))) url_param = ''http://t''" by code_simp
  moreover have "ce_parse_torrent (demo_create (Some 8)) = ce_parse_torrent (demo_create (Some 7))" by (simp add: demo_create_def)
  ultimately show ?thesis
    using client_add_once [OF empty_group_reach, of "demo_attempts Unsent" 9 url_param demo_client "ce_parse_torrent (demo_create (Some 7))"]
      fresh fresh_empty r by (simp add: add_result_def demo_attempts_def demo_client_def)
qed

text \<open>The reply of the first attempt is lost: the task was filed, but the second attempt is refused.\<close>

lemma lost_reply_reports_failure:
  "map_option (\<lambda>(ret, m', eff). (ret, find_running ''http://t'' m')) (add_result Unanswered) = Some (-1, Some 0)"
  by code_simp

text \<open>The list of a daemon that cannot be asked ends like that of a group whose tasks have all finished.\<close>

lemma list_failure_is_success:
  "ProcessList 1 (\<lambda>i j. (Unsent, m)) infohash is_full history True = Some (0, [])"
  by (simp add: ProcessList_def ClientGetTaskStatus_def kDefaultRpcRetry_def upt_rec)

end
