(* ===== verification/ClusterDownloader.thy ===== *)
theory ClusterDownloader
  imports GroupCluster
begin

text \<open>
  The cluster threads of the stand-alone download (\<open>gko-src/src/ClusterDownloader.cpp\<close>): the same search for a
  piece as the group's (theory \<open>GroupCluster\<close>), and here the mutex and the condition variable in steps small
  enough to show the order of a check and the wait after it. A thread at \<open>Checked\<close> holds the mutex between the
  condition of the inner \<open>while\<close> and the wait that releases it; \<open>should_stop_\<close> is written without the mutex.
  The torrent, the file system and the random number are arguments.
\<close>

subsection \<open>State\<close>

record cluster_downloader =
  cd_connected :: bool
  cd_threads_num :: int
  cd_complete_threads_num :: int
  cd_pieces_have :: "bool list"
  cd_pieces_downloading :: "bool list"
  cd_last_p2p_total_downloaded :: int
  cd_hash_failed_pieces :: "nat list"
  cd_should_stop :: bool
  cd_retval :: int
  cd_cluster_total_download :: int
  cd_start_time :: int
  cd_ignore_error :: bool

definition ClusterDownloader_new :: "int \<Rightarrow> bool \<Rightarrow> cluster_downloader" where
  "ClusterDownloader_new n ign = \<lparr>cd_connected = False, cd_threads_num = n, cd_complete_threads_num = 0,
     cd_pieces_have = [], cd_pieces_downloading = [], cd_last_p2p_total_downloaded = 0, cd_hash_failed_pieces = [],
     cd_should_stop = False, cd_retval = 0, cd_cluster_total_download = 0, cd_start_time = 0, cd_ignore_error = ign\<rparr>"

datatype cd_pc = AtLoop | Choosing | Checked | Asleep | Chosen | AtRead | Counting | Hashing | Added | AtStats
  | Failing | AtEnd | Gone

record cd_worker =
  cw_pc :: cd_pc
  cw_piece :: "nat option"
  cw_from_failed :: bool

definition cd_worker_new :: cd_worker where
  "cd_worker_new = \<lparr>cw_pc = AtLoop, cw_piece = None, cw_from_failed = False\<rparr>"

text \<open>The object, its threads, and the pieces given to the torrent so far.\<close>

record cd_system =
  cs_obj :: cluster_downloader
  cs_threads :: "cd_worker list"
  cs_added :: "nat list"

subsection \<open>Operations\<close>

text \<open>\<open>priorities\<close>: those of the pieces; the third component is the threads created.\<close>

definition cd_StartDownload ::
  "bool \<Rightarrow> bool \<Rightarrow> int list \<Rightarrow> int \<Rightarrow> cluster_downloader \<Rightarrow> bool \<times> cluster_downloader \<times> cd_worker list" where
  "cd_StartDownload connected parsed priorities now s =
    (if \<not> connected then (False, s\<lparr>cd_connected := False\<rparr>, [])
     else
       let s = s\<lparr>cd_connected := True\<rparr>
       in if \<not> parsed then (False, s, [])
          else
            let n = length priorities;
                s = s\<lparr>cd_pieces_have := map (\<lambda>p. p = 0) priorities, cd_pieces_downloading := replicate n False\<rparr>;
                s = (if int n < cd_threads_num s then s\<lparr>cd_threads_num := (if n < 3 then 3 else int n)\<rparr> else s);
                s = s\<lparr>cd_start_time := now\<rparr>
            in (True, s, replicate (nat (cd_threads_num s)) cd_worker_new))"

definition cd_IsStoped :: "cluster_downloader \<Rightarrow> bool" where
  "cd_IsStoped s \<longleftrightarrow> cd_complete_threads_num s = cd_threads_num s"

definition cd_StopDownload :: "cluster_downloader \<Rightarrow> cluster_downloader" where
  "cd_StopDownload s = s\<lparr>cd_should_stop := True\<rparr>"

definition cd_set_retval :: "int \<Rightarrow> cluster_downloader \<Rightarrow> cluster_downloader" where
  "cd_set_retval r s = s\<lparr>cd_retval := r\<rparr>"

definition cd_GetUndownloadedPiece ::
  "(nat \<Rightarrow> bool) \<Rightarrow> nat \<Rightarrow> cluster_downloader \<Rightarrow> (nat option \<times> cluster_downloader) option" where
  "cd_GetUndownloadedPiece have_piece random s =
    (let num_pieces = length (cd_pieces_downloading s) in
     if num_pieces = 0 then None
     else
       let start = random mod num_pieces
       in map_option (\<lambda>(has, piece_downloading, piece_index).
            (if piece_index = None then piece_downloading else piece_index, s\<lparr>cd_pieces_have := has\<rparr>))
          (undownloaded_loop have_piece (cd_pieces_downloading s) start (start mod num_pieces) (cd_pieces_have s, None)))"

definition cd_mark :: "nat \<Rightarrow> bool \<Rightarrow> cluster_downloader \<Rightarrow> cluster_downloader" where
  "cd_mark i b s = s\<lparr>cd_pieces_downloading := (cd_pieces_downloading s)[i := b]\<rparr>"

definition cd_pop_hash_failed :: "cluster_downloader \<Rightarrow> nat option \<times> cluster_downloader" where
  "cd_pop_hash_failed s = (case cd_hash_failed_pieces s of [] \<Rightarrow> (None, s)
     | i # is \<Rightarrow> (Some i, s\<lparr>cd_hash_failed_pieces := is\<rparr>))"

definition cd_GetPieceToDownload ::
  "(nat \<Rightarrow> bool) \<Rightarrow> nat \<Rightarrow> nat option \<Rightarrow> bool \<Rightarrow> cluster_downloader \<Rightarrow> (nat option \<times> bool \<times> cluster_downloader) option"
where
  "cd_GetPieceToDownload have_piece random last_piece from_failed s =
    (if \<not> from_failed then
       let s = (case last_piece of None \<Rightarrow> s | Some l \<Rightarrow> cd_mark l False s)
       in case cd_GetUndownloadedPiece have_piece random s of
            None \<Rightarrow> None
          | Some (Some i, s) \<Rightarrow> Some (Some i, False, cd_mark i True s)
          | Some (None, s) \<Rightarrow> (case cd_pop_hash_failed s of (p, s) \<Rightarrow> Some (p, True, s))
     else case cd_pop_hash_failed s of (p, s) \<Rightarrow> Some (p, True, s))"

subsection \<open>The download thread\<close>

record cd_env =
  ce_have_piece :: "nat \<Rightarrow> bool"
  ce_random :: nat
  ce_read_fails :: bool
  ce_piece_size :: int
  ce_hash_ok :: bool
  ce_total_download :: int

definition lock_held :: "cd_worker list \<Rightarrow> bool" where
  "lock_held ws \<longleftrightarrow> list_ex (\<lambda>w. cw_pc w = Checked) ws"

fun needs_lock :: "cd_pc \<Rightarrow> bool" where
  "needs_lock Choosing = True"
| "needs_lock Counting = True"
| "needs_lock AtStats = True"
| "needs_lock AtEnd = True"
| "needs_lock _ = False"

definition wake :: "cd_worker \<Rightarrow> cd_worker" where
  "wake w = (if cw_pc w = Asleep then w\<lparr>cw_pc := Choosing\<rparr> else w)"

text \<open>The condition of the inner \<open>while\<close>, evaluated under the mutex.\<close>

definition cd_choose :: "cd_env \<Rightarrow> cd_worker \<Rightarrow> cluster_downloader \<Rightarrow> (cd_worker \<times> cluster_downloader) option" where
  "cd_choose e w s =
    (case cd_GetPieceToDownload (ce_have_piece e) (ce_random e) (cw_piece w) (cw_from_failed w) s of
       None \<Rightarrow> None
     | Some (p, ff, s) \<Rightarrow>
         Some (w\<lparr>cw_piece := p, cw_from_failed := ff,
                 cw_pc := (if p = None \<and> \<not> cd_should_stop s then Checked else Chosen)\<rparr>, s))"

text \<open>A failed read or a wrong hash: the end with a return value, or the next round after a sleep.\<close>

definition cd_fail :: "int \<Rightarrow> cd_worker \<Rightarrow> cluster_downloader \<Rightarrow> cd_worker \<times> cluster_downloader" where
  "cd_fail r w s =
    (if \<not> cd_ignore_error s then (w\<lparr>cw_pc := Failing\<rparr>, s\<lparr>cd_should_stop := True, cd_retval := r\<rparr>)
     else (w\<lparr>cw_pc := AtLoop\<rparr>, s))"

definition goto_if_stop :: "cd_pc \<Rightarrow> cd_pc \<Rightarrow> cd_worker \<Rightarrow> cluster_downloader \<Rightarrow> cd_worker \<times> cluster_downloader" where
  "goto_if_stop a b w s = (w\<lparr>cw_pc := (if cd_should_stop s then a else b)\<rparr>, s)"

text \<open>One step of a thread on itself and the object; \<open>None\<close>: it sleeps, has ended, or divides by zero.\<close>

fun cd_local :: "cd_env \<Rightarrow> cd_worker \<Rightarrow> cluster_downloader \<Rightarrow> (cd_worker \<times> cluster_downloader) option" where
  "cd_local e w s =
    (case cw_pc w of
       AtLoop \<Rightarrow> Some (goto_if_stop AtEnd Choosing w s)
     | Choosing \<Rightarrow> cd_choose e w s
     | Checked \<Rightarrow> Some (w\<lparr>cw_pc := Asleep\<rparr>, s)
     | Asleep \<Rightarrow> None
     | Chosen \<Rightarrow> Some (goto_if_stop AtEnd AtRead w s)
     | AtRead \<Rightarrow> Some (if ce_read_fails e then cd_fail (-1) w s else (w\<lparr>cw_pc := Counting\<rparr>, s))
     | Counting \<Rightarrow>
         Some (w\<lparr>cw_pc := Hashing\<rparr>, s\<lparr>cd_cluster_total_download := cd_cluster_total_download s + ce_piece_size e\<rparr>)
     | Hashing \<Rightarrow> Some (if \<not> ce_hash_ok e then cd_fail (-2) w s else (w\<lparr>cw_pc := Added\<rparr>, s))
     | Added \<Rightarrow> Some (goto_if_stop AtEnd AtStats w s)
     | AtStats \<Rightarrow> Some (w\<lparr>cw_pc := AtLoop\<rparr>, s\<lparr>cd_last_p2p_total_downloaded := ce_total_download e\<rparr>)
     | Failing \<Rightarrow> Some (w\<lparr>cw_pc := AtEnd\<rparr>, s)
     | AtEnd \<Rightarrow> Some (w\<lparr>cw_pc := Gone\<rparr>, s\<lparr>cd_complete_threads_num := cd_complete_threads_num s + 1\<rparr>)
     | Gone \<Rightarrow> None)"

declare cd_local.simps [simp del]

text \<open>The step in the system: the mutex must be free if it is needed, \<open>notify_all\<close> wakes the sleepers, and a good
  piece goes to the torrent.\<close>

definition cd_thread :: "cd_env \<Rightarrow> nat \<Rightarrow> cd_system \<Rightarrow> cd_system option" where
  "cd_thread e i st =
    (let ws = cs_threads st; w = ws ! i in
     if \<not> i < length ws then None
     else if needs_lock (cw_pc w) \<and> lock_held ws then None
     else case cd_local e w (cs_obj st) of
       None \<Rightarrow> None
     | Some (w', s') \<Rightarrow>
         Some (st\<lparr>cs_obj := s',
           cs_threads := (if cw_pc w = Failing then map wake ws else ws)[i := w'],
           cs_added := (if cw_pc w' = Added then cs_added st @ (case cw_piece w of None \<Rightarrow> [] | Some p \<Rightarrow> [p])
                        else cs_added st)\<rparr>))"

text \<open>\<open>notify_one\<close> wakes the sleeper \<open>j\<close>, if there is one.\<close>

definition add_hash_failed_piece :: "nat \<Rightarrow> nat \<Rightarrow> cd_system \<Rightarrow> cd_system" where
  "add_hash_failed_piece p j st =
    (let s = cs_obj st; ws = cs_threads st in
     st\<lparr>cs_obj := s\<lparr>cd_hash_failed_pieces := cd_hash_failed_pieces s @ [p]\<rparr>,
        cs_threads := (if j < length ws then ws[j := wake (ws ! j)] else ws)\<rparr>)"

inductive cd_step :: "cd_system \<Rightarrow> cd_system \<Rightarrow> bool" where
  cd_thread_step: "cd_thread e i st = Some st' \<Longrightarrow> cd_step st st'"
| cd_hash_failed: "\<not> lock_held (cs_threads st) \<Longrightarrow> cd_step st (add_hash_failed_piece p j st)"
| cd_stop: "cd_step st (st\<lparr>cs_obj := cd_StopDownload (cs_obj st)\<rparr>)"
| cd_forgive: "cd_IsStoped (cs_obj st) \<Longrightarrow> cd_step st (st\<lparr>cs_obj := cd_set_retval 0 (cs_obj st)\<rparr>)"
| cd_spurious: "i < length (cs_threads st) \<Longrightarrow>
    cd_step st (st\<lparr>cs_threads := (cs_threads st)[i := wake (cs_threads st ! i)]\<rparr>)"

inductive cd_init :: "cd_system \<Rightarrow> bool" where
  "pr \<noteq> [] \<Longrightarrow> 0 \<le> n \<Longrightarrow> cd_StartDownload True True pr now (ClusterDownloader_new n ign) = (True, s, ws) \<Longrightarrow>
   cd_init \<lparr>cs_obj = s, cs_threads = ws, cs_added = []\<rparr>"

subsection \<open>The search is the group's\<close>

definition as_task :: "cluster_downloader \<Rightarrow> cluster_task" where
  "as_task s = (new_cluster_task (cd_threads_num s) (cd_ignore_error s))\<lparr>
     pieces_have := cd_pieces_have s, pieces_downloading := cd_pieces_downloading s,
     hash_failed_pieces := cd_hash_failed_pieces s\<rparr>"

definition with_task :: "cluster_downloader \<Rightarrow> cluster_task \<Rightarrow> cluster_downloader" where
  "with_task s t = s\<lparr>cd_pieces_have := pieces_have t, cd_pieces_downloading := pieces_downloading t,
     cd_hash_failed_pieces := hash_failed_pieces t\<rparr>"

lemma as_task_simps [simp]:
  "pieces_have (as_task s) = cd_pieces_have s" "pieces_downloading (as_task s) = cd_pieces_downloading s"
  "hash_failed_pieces (as_task s) = cd_hash_failed_pieces s"
  by (simp_all add: as_task_def)

lemma with_task_same: "with_task s (as_task s) = s"
  by (simp add: with_task_def)

lemma as_task_mark: "as_task (cd_mark i b s) = set_downloading i b (as_task s)"
  by (simp add: cd_mark_def set_downloading_def as_task_def)

lemma GetUndownloadedPiece_same:
  "cd_GetUndownloadedPiece hp r s = map_option (\<lambda>(p, t). (p, with_task s t)) (GetUndownloadedPiece hp r (as_task s))"
  by (auto simp: cd_GetUndownloadedPiece_def GetUndownloadedPiece_def Let_def with_task_def option.map_comp comp_def
      intro!: option.map_cong0 split: prod.splits)

text \<open>The copy of the search in the stand-alone program chooses the same piece, with the same effect, as the
  group's.\<close>

theorem GetPieceToDownload_same:
  "cd_GetPieceToDownload hp r l ff s =
     map_option (\<lambda>(p, ff, t). (p, ff, with_task s t)) (GetPieceToDownload hp r l ff (as_task s))"
proof -
  have pop: "cd_pop_hash_failed u = (case take_hash_failed (as_task u) of (p, t) \<Rightarrow> (p, with_task u t))" for u
    by (simp add: cd_pop_hash_failed_def take_hash_failed_def with_task_def split: list.split)
  let ?u = "case l of None \<Rightarrow> s | Some i \<Rightarrow> cd_mark i False s"
  have u: "as_task ?u = (case l of None \<Rightarrow> as_task s | Some i \<Rightarrow> set_downloading i False (as_task s))"
    by (simp add: as_task_mark split: option.split)
  have wu: "with_task ?u t = with_task s t" for t by (simp add: with_task_def cd_mark_def split: option.split)
  show ?thesis
  proof (cases ff)
    case True
    then show ?thesis by (simp add: cd_GetPieceToDownload_def GetPieceToDownload_def pop case_prod_beta)
  next
    case False
    obtain g where g: "GetUndownloadedPiece hp r (as_task ?u) = g" by blast
    note d = False cd_GetPieceToDownload_def GetPieceToDownload_def u [symmetric] GetUndownloadedPiece_same g Let_def
    show ?thesis
    proof (cases g)
      case None
      then show ?thesis by (simp add: d)
    next
      case (Some qt)
      obtain q t where qt: "qt = (q, t)" by force
      show ?thesis
      proof (cases q)
        case None
        then show ?thesis using Some qt
          by (simp add: d wu cd_pop_hash_failed_def take_hash_failed_def, simp add: with_task_def split: list.split)
      next
        case (Some i)
        then show ?thesis using \<open>g = Some qt\<close> qt
          by (simp add: d wu, simp add: with_task_def cd_mark_def set_downloading_def)
      qed
    qed
  qed
qed

subsection \<open>The threads\<close>

definition as_worker :: "cd_worker \<Rightarrow> worker" where
  "as_worker w = \<lparr>w_pc = Looping, w_piece = cw_piece w, w_from_failed = cw_from_failed w\<rparr>"

lemma as_worker_pc [simp]: "as_worker (w\<lparr>cw_pc := p\<rparr>) = as_worker w" "as_worker (wake w) = as_worker w"
  by (simp_all add: as_worker_def wake_def)

definition cd_count :: "cd_pc \<Rightarrow> cd_worker list \<Rightarrow> nat" where
  "cd_count p ws = length (filter (\<lambda>w. cw_pc w = p) ws)"

lemma cd_count_update:
  "i < length ws \<Longrightarrow> int (cd_count p (ws[i := w])) =
     int (cd_count p ws) - of_bool (cw_pc (ws ! i) = p) + of_bool (cw_pc w = p)"
proof (induction ws arbitrary: i)
  case (Cons a ws)
  then show ?case
  proof (cases i)
    case (Suc j)
    then show ?thesis using Cons.prems Cons.IH [of j] by (simp add: cd_count_def)
  qed (simp add: cd_count_def)
qed simp

lemma cd_count_wake: "p \<noteq> Asleep \<Longrightarrow> p \<noteq> Choosing \<Longrightarrow> cd_count p (map wake ws) = cd_count p ws"
  unfolding cd_count_def by (induction ws) (auto simp: wake_def)

lemma lock_held_count: "lock_held ws \<longleftrightarrow> 0 < cd_count Checked ws"
  by (auto simp: lock_held_def list_ex_iff cd_count_def filter_empty_conv)

lemma cd_count_all: "cd_count p ws = length ws \<longleftrightarrow> list_all (\<lambda>w. cw_pc w = p) ws"
proof (induction ws)
  case (Cons w ws)
  have "length (filter (\<lambda>w. cw_pc w = p) ws) \<noteq> Suc (length ws)" by (metis Suc_n_not_le_n length_filter_le)
  then show ?case using Cons by (simp add: cd_count_def)
qed (simp add: cd_count_def)

text \<open>What holds of a thread by itself: it ends only after a stop, fetches only a piece it chose, and
  sleeps only after it has gone over to the retry queue.\<close>

definition cw_ok :: "bool \<Rightarrow> cd_worker \<Rightarrow> bool" where
  "cw_ok stop w \<longleftrightarrow> (cw_pc w \<in> {Failing, AtEnd, Gone} \<longrightarrow> stop) \<and> (cw_pc w = Chosen \<and> cw_piece w = None \<longrightarrow> stop) \<and>
     (cw_pc w \<in> {AtRead, Counting, Hashing} \<longrightarrow> cw_piece w \<noteq> None) \<and>
     (cw_pc w \<in> {Checked, Asleep} \<longrightarrow> cw_from_failed w)"

definition obj_ok :: "cluster_downloader \<Rightarrow> bool" where
  "obj_ok s \<longleftrightarrow> cd_retval s \<in> {0, -1, -2} \<and> (cd_retval s \<noteq> 0 \<longrightarrow> cd_should_stop s \<and> \<not> cd_ignore_error s)"

definition cd_inv :: "cd_system \<Rightarrow> bool" where
  "cd_inv st \<longleftrightarrow> (let s = cs_obj st; ws = cs_threads st in
     cluster_inv (as_task s, map as_worker ws) \<and> obj_ok s \<and> list_all (cw_ok (cd_should_stop s)) ws \<and>
     cd_complete_threads_num s = int (cd_count Gone ws) \<and> cd_threads_num s = int (length ws) \<and>
     cd_count Checked ws \<le> 1)"

lemma cd_StartDownload_started:
  assumes "cd_StartDownload True True pr now (ClusterDownloader_new n ign) = (b, s, ws)"
  shows "b" "cd_pieces_have s = map (\<lambda>p. p = 0) pr" "cd_pieces_downloading s = replicate (length pr) False"
    "cd_retval s = 0" "\<not> cd_should_stop s" "cd_complete_threads_num s = 0" "0 \<le> n \<Longrightarrow> 0 \<le> cd_threads_num s"
    "ws = replicate (nat (cd_threads_num s)) cd_worker_new"
  using assms by (auto simp: cd_StartDownload_def ClusterDownloader_new_def Let_def split: if_splits)

lemma cd_inv_init: "cd_init st \<Longrightarrow> cd_inv st"
proof (induction rule: cd_init.induct)
  case (1 pr n now ign s ws)
  note st = cd_StartDownload_started [OF 1(3)]
  have "cluster_inv (as_task s, map as_worker ws)"
    using 1(1) st(2,3) by (simp add: cluster_inv_def st(8) cd_worker_new_def as_worker_def claims_def)
  moreover have "list_all (cw_ok False) ws" "cd_count Gone ws = 0" "cd_count Checked ws = 0"
    by (simp_all add: st(8) list_all_iff cw_ok_def cd_count_def cd_worker_new_def)
  ultimately show ?case using st(4-7) 1(2) by (simp add: cd_inv_def obj_ok_def st(8))
qed

text \<open>A step of a thread on itself and the object.\<close>

lemma with_task_fields [simp]:
  "cd_should_stop (with_task s t) = cd_should_stop s" "cd_threads_num (with_task s t) = cd_threads_num s"
  "cd_ignore_error (with_task s t) = cd_ignore_error s" "cd_retval (with_task s t) = cd_retval s"
  "cd_complete_threads_num (with_task s t) = cd_complete_threads_num s"
  by (simp_all add: with_task_def)

lemma GetPieceToDownload_none: "GetPieceToDownload hp r l ff t = Some (None, ff', t') \<Longrightarrow> ff'"
proof (cases ff)
  case False
  let ?t = "case l of None \<Rightarrow> t | Some i \<Rightarrow> set_downloading i False t"
  assume "GetPieceToDownload hp r l ff t = Some (None, ff', t')"
  then show ?thesis using False
    by (cases "GetUndownloadedPiece hp r ?t") (simp_all add: GetPieceToDownload_def Let_def split: prod.splits option.splits)
qed (simp add: GetPieceToDownload_def split: prod.splits)

lemma cd_choose_effect:
  assumes "cd_choose e w s = Some (w', s')"
  obtains t where "s' = with_task s t" "cw_pc w' = (if cw_piece w' = None \<and> \<not> cd_should_stop s then Checked else Chosen)"
    "cw_piece w' = None \<longrightarrow> cw_from_failed w'"
proof -
  obtain p ff t where g: "GetPieceToDownload (ce_have_piece e) (ce_random e) (cw_piece w) (cw_from_failed w) (as_task s)
        = Some (p, ff, t)"
      and r: "s' = with_task s t" "cw_piece w' = p" "cw_from_failed w' = ff"
        "cw_pc w' = (if p = None \<and> \<not> cd_should_stop s then Checked else Chosen)"
    using assms by (auto simp: cd_choose_def GetPieceToDownload_same split: option.splits)
  then have "p = None \<longrightarrow> ff" using GetPieceToDownload_none by metis
  then show ?thesis using that r by simp
qed

definition local_ok :: "cd_worker \<Rightarrow> cluster_downloader \<Rightarrow> cd_worker \<Rightarrow> cluster_downloader \<Rightarrow> bool" where
  "local_ok w s w' s' \<longleftrightarrow> cw_ok (cd_should_stop s') w' \<and> obj_ok s' \<and> (cd_should_stop s \<longrightarrow> cd_should_stop s') \<and>
     cd_threads_num s' = cd_threads_num s \<and> cd_ignore_error s' = cd_ignore_error s \<and>
     cd_complete_threads_num s' = cd_complete_threads_num s + of_bool (cw_pc w' = Gone) \<and>
     cw_pc w \<noteq> Gone \<and> (cw_pc w' = Checked \<longrightarrow> cw_pc w = Choosing)"

lemma cd_local_ok:
  assumes "cd_local e w s = Some (w', s')" "cw_ok (cd_should_stop s) w" "obj_ok s"
  shows "local_ok w s w' s'"
proof (cases "cw_pc w = Choosing")
  case True
  then have "cd_choose e w s = Some (w', s')" using assms(1) by (simp add: cd_local.simps)
  then show ?thesis
    by (rule cd_choose_effect) (use True assms(3) in \<open>auto simp: local_ok_def cw_ok_def obj_ok_def\<close>)
next
  case False
  then show ?thesis using assms
    by (cases "cw_pc w";
        clarsimp simp: cd_local.simps local_ok_def cd_fail_def goto_if_stop_def cw_ok_def obj_ok_def split: if_splits)
qed

lemma cd_local_effect:
  assumes "cd_local e w s = Some (w', s')" "cw_ok (cd_should_stop s) w" "obj_ok s"
  shows "cw_ok (cd_should_stop s') w'" "obj_ok s'" "cd_should_stop s \<longrightarrow> cd_should_stop s'"
    "cd_threads_num s' = cd_threads_num s" "cd_ignore_error s' = cd_ignore_error s"
    "cd_complete_threads_num s' = cd_complete_threads_num s + of_bool (cw_pc w' = Gone)"
    "cw_pc w \<noteq> Gone" "cw_pc w' = Checked \<longrightarrow> cw_pc w = Choosing" "cw_pc w = Checked \<longrightarrow> cw_pc w' \<noteq> Checked"
  using cd_local_ok [OF assms] by (auto simp: local_ok_def)

lemma cd_local_pieces:
  assumes "cd_local e (ws ! i) s = Some (w', s')" "i < length ws" "cluster_inv (as_task s, map as_worker ws)"
  shows "cluster_inv (as_task s', map as_worker (ws[i := w']))"
proof (cases "cw_pc (ws ! i) = Choosing")
  case False
  then have "as_worker w' = as_worker (ws ! i)" "cd_pieces_have s' = cd_pieces_have s"
    "cd_pieces_downloading s' = cd_pieces_downloading s"
    using assms(1) by (auto simp: cd_local.simps cd_fail_def goto_if_stop_def split: cd_pc.splits if_splits)
  then show ?thesis using cluster_inv_same [OF assms(3), of i "as_task s'" "as_worker w'"] assms(2)
    by (simp add: map_update)
next
  case True
  let ?w = "as_worker (ws ! i)"
  let ?e = "\<lparr>de_paused = False, de_have_piece = ce_have_piece e, de_random = ce_random e, de_read = GoodPiece, de_piece_size = 0\<rparr>"
  obtain p ff t where g: "GetPieceToDownload (ce_have_piece e) (ce_random e) (cw_piece (ws ! i)) (cw_from_failed (ws ! i)) (as_task s)
        = Some (p, ff, t)"
      and r: "s' = with_task s t" "cw_piece w' = p" "cw_from_failed w' = ff"
    using assms(1) True by (auto simp: cd_local.simps cd_choose_def GetPieceToDownload_same split: option.splits)
  obtain v where c: "choose_piece ?e ?w (as_task s) = Some (v, t)" "w_piece v = p" "w_from_failed v = ff"
    using g by (simp add: choose_piece_def as_worker_def)
  have "cluster_inv (t, (map as_worker ws)[i := v])"
    using assms(2,3) c(1) by (intro cluster_inv_choose) simp_all
  then have "cluster_inv (as_task s', (map as_worker ws)[i := v, i := as_worker w'])"
    using cluster_inv_same [of t "(map as_worker ws)[i := v]" i "as_task s'" "as_worker w'"] assms(2) r c
    by (simp add: with_task_def as_worker_def)
  then show ?thesis by (simp add: map_update)
qed

lemma cw_ok_mono: "cw_ok a w \<Longrightarrow> (a \<longrightarrow> b) \<Longrightarrow> cw_ok b w"
  by (auto simp: cw_ok_def)

lemma cw_ok_wake: "cw_ok a w \<Longrightarrow> cw_ok a (wake w)"
  by (auto simp: cw_ok_def wake_def)

text \<open>Waking threads changes nothing the invariant sees.\<close>

lemma cd_inv_wake_list:
  assumes "cd_inv st" "list_all2 (\<lambda>w v. v = w \<or> v = wake w) (cs_threads st) vs"
  shows "cd_inv (st\<lparr>cs_threads := vs\<rparr>)"
proof -
  have l: "length vs = length (cs_threads st)" using assms(2) by (simp add: list_all2_lengthD)
  have m: "map as_worker vs = map as_worker (cs_threads st)"
    using assms(2) by (induction rule: list_all2_induct) auto
  have c: "cd_count p vs = cd_count p (cs_threads st)" if "p \<noteq> Asleep" "p \<noteq> Choosing" for p
    using assms(2) that unfolding cd_count_def by (induction rule: list_all2_induct) (auto simp: wake_def)
  have "list_all (cw_ok b) vs" if "list_all (cw_ok b) (cs_threads st)" for b
    using assms(2) that by (induction rule: list_all2_induct) (auto intro: cw_ok_wake)
  then show ?thesis using assms(1) l m c by (simp add: cd_inv_def Let_def)
qed

lemma cd_thread_cases:
  assumes "cd_thread e i st = Some st'"
  obtains w' s' vs where "i < length (cs_threads st)" "cd_local e (cs_threads st ! i) (cs_obj st) = Some (w', s')"
    "needs_lock (cw_pc (cs_threads st ! i)) \<longrightarrow> \<not> lock_held (cs_threads st)"
    "vs = (if cw_pc (cs_threads st ! i) = Failing then map wake (cs_threads st) else cs_threads st)"
    "cs_obj st' = s'" "cs_threads st' = vs[i := w']" "vs ! i = cs_threads st ! i"
    "list_all2 (\<lambda>w v. v = w \<or> v = wake w) (cs_threads st) vs"
  using assms
  by (auto simp: cd_thread_def Let_def wake_def list_all2_map2 list_all2_same split: if_splits option.splits)

lemma cd_inv_thread:
  assumes "cd_inv st" "cd_thread e i st = Some st'"
  shows "cd_inv st'"
proof -
  from assms(2) show ?thesis
  proof (cases rule: cd_thread_cases)
    case (1 w' s' vs)
    let ?s = "cs_obj st"
    have "cd_inv (st\<lparr>cs_threads := vs\<rparr>)" by (rule cd_inv_wake_list [OF assms(1) 1(8)])
    then have v: "cluster_inv (as_task ?s, map as_worker vs)" "obj_ok ?s" "list_all (cw_ok (cd_should_stop ?s)) vs"
        "cd_complete_threads_num ?s = int (cd_count Gone vs)" "cd_threads_num ?s = int (length vs)"
        "cd_count Checked vs \<le> 1"
      by (simp_all add: cd_inv_def Let_def)
    have i: "i < length vs" using 1(1,8) by (simp add: list_all2_lengthD [symmetric])
    have l: "cd_local e (vs ! i) ?s = Some (w', s')" using 1(2,7) by simp
    have "cw_ok (cd_should_stop ?s) (vs ! i)" using v(3) i by (simp add: list_all_length)
    note f = cd_local_effect [OF l this v(2)]
    have "\<not> lock_held vs" if "cw_pc w' = Checked"
      using that f(8) 1(3,4,7) by auto
    then have "cd_count Checked (vs[i := w']) \<le> 1"
      using cd_count_update [OF i, of Checked w'] v(6) f(9)
      by (cases "cw_pc w' = Checked"; cases "cw_pc (vs ! i) = Checked") (simp_all add: lock_held_count)
    moreover have "list_all (cw_ok (cd_should_stop s')) (vs[i := w'])"
      using v(3) f(1,3) i by (auto simp: list_all_length nth_list_update intro: cw_ok_mono)
    moreover have "cd_complete_threads_num s' = int (cd_count Gone (vs[i := w']))"
      using cd_count_update [OF i, of Gone w'] f(6,7) v(4) by simp
    ultimately show ?thesis
      using cd_local_pieces [OF l i v(1)] f(2,4) v(5) 1(5,6) by (simp add: cd_inv_def Let_def)
  qed
qed

lemma cluster_inv_task:
  "cluster_inv (t, ws) \<Longrightarrow> pieces_have t' = pieces_have t \<Longrightarrow> pieces_downloading t' = pieces_downloading t \<Longrightarrow>
   cluster_inv (t', ws)"
proof -
  assume "pieces_have t' = pieces_have t" "pieces_downloading t' = pieces_downloading t"
  then have "cluster_inv (t', ws) = cluster_inv (t, ws)" by (simp only: cluster_inv_def prod.case)
  then show "cluster_inv (t, ws) \<Longrightarrow> cluster_inv (t', ws)" by simp
qed

lemma cd_inv_step:
  assumes "cd_inv st" "cd_step st st'"
  shows "cd_inv st'"
  using assms(2,1)
proof cases
  case (cd_hash_failed p j)
  let ?ws = "cs_threads st"
  have "list_all2 (\<lambda>w v. v = w \<or> v = wake w) ?ws (if j < length ?ws then ?ws[j := wake (?ws ! j)] else ?ws)"
    by (auto simp: list_all2_conv_all_nth nth_list_update)
  from cd_inv_wake_list [OF assms(1) this] show ?thesis
    unfolding cd_hash_failed add_hash_failed_piece_def
    by (auto simp: cd_inv_def Let_def obj_ok_def intro: cluster_inv_task)
next
  case cd_stop
  then show ?thesis using assms(1)
    by (auto simp: cd_inv_def Let_def obj_ok_def cd_StopDownload_def list_all_iff intro: cluster_inv_task cw_ok_mono)
next
  case cd_forgive
  then show ?thesis using assms(1)
    by (auto simp: cd_inv_def Let_def obj_ok_def cd_set_retval_def intro: cluster_inv_task)
next
  case (cd_spurious i)
  then show ?thesis
    by (auto intro!: cd_inv_wake_list [OF assms(1)] simp: list_all2_conv_all_nth nth_list_update)
qed (rule cd_inv_thread [OF assms(1)])

interpretation cluster_threads: invariant_system cd_init cd_step cd_inv
  by unfold_locales (auto intro: cd_inv_init cd_inv_step)

text \<open>What the threads have done, in every order of their steps with wake-ups and stops: a thread that has
  ended is counted, so the object says that it has stopped exactly when every thread has ended, which only a stop
  brings about; a failure is never forgotten without a stop; every piece marked as being downloaded is the piece of
  a thread; and threads sleep only when every piece is there.\<close>

theorem cluster_download_reachable:
  assumes "reach cd_init cd_step st"
  shows "(cd_IsStoped (cs_obj st) \<longleftrightarrow> list_all (\<lambda>w. cw_pc w = Gone) (cs_threads st)) \<and>
    (list_ex (\<lambda>w. cw_pc w = Gone) (cs_threads st) \<longrightarrow> cd_should_stop (cs_obj st)) \<and>
    (cd_retval (cs_obj st) \<noteq> 0 \<longrightarrow> cd_should_stop (cs_obj st) \<and> \<not> cd_ignore_error (cs_obj st)) \<and>
    (\<forall>i < length (cd_pieces_downloading (cs_obj st)). cd_pieces_downloading (cs_obj st) ! i \<longrightarrow>
       list_ex (\<lambda>w. cw_piece w = Some i \<and> \<not> cw_from_failed w) (cs_threads st)) \<and>
    (list_ex (\<lambda>w. cw_pc w = Asleep) (cs_threads st) \<longrightarrow> list_all (\<lambda>b. b) (cd_pieces_have (cs_obj st)))"
proof -
  let ?s = "cs_obj st" and ?ws = "cs_threads st"
  from cluster_threads.reach_inv [OF assms]
  have c: "cluster_inv (as_task ?s, map as_worker ?ws)" and o: "obj_ok ?s" and w: "\<forall>w \<in> set ?ws. cw_ok (cd_should_stop ?s) w"
    and n: "cd_complete_threads_num ?s = int (cd_count Gone ?ws)" "cd_threads_num ?s = int (length ?ws)"
    by (simp_all add: cd_inv_def Let_def list_all_iff)
  have "cd_IsStoped ?s \<longleftrightarrow> list_all (\<lambda>w. cw_pc w = Gone) ?ws"
    by (simp add: cd_IsStoped_def n flip: cd_count_all)
  moreover have "\<exists>w \<in> set ?ws. cw_piece w = Some i \<and> \<not> cw_from_failed w"
    if "i < length (cd_pieces_downloading ?s)" "cd_pieces_downloading ?s ! i" for i
    using c that by (auto simp: cluster_inv_def claims_def as_worker_def)
  moreover have "list_all (\<lambda>b. b) (cd_pieces_have ?s)" if "v \<in> set ?ws" "cw_pc v = Asleep" for v
    using c that bspec [OF w that(1)] by (auto simp: cluster_inv_def as_worker_def cw_ok_def list_all_length)
  ultimately show ?thesis using o w by (auto simp: obj_ok_def list_ex_iff cw_ok_def)
qed

subsection \<open>Stopping\<close>

text \<open>Steps of the threads alone, in the order of a schedule.\<close>

fun cd_runs :: "(cd_env \<times> nat) list \<Rightarrow> cd_system \<Rightarrow> cd_system option" where
  "cd_runs [] st = Some st"
| "cd_runs ((e, i) # es) st = (case cd_thread e i st of None \<Rightarrow> None | Some st' \<Rightarrow> cd_runs es st')"

text \<open>How many steps a thread has left after a stop, if it does not sleep.\<close>

fun cd_rank :: "cd_pc \<Rightarrow> nat" where
  "cd_rank AtLoop = 2"
| "cd_rank Choosing = 3"
| "cd_rank Chosen = 2"
| "cd_rank AtRead = 5"
| "cd_rank Counting = 4"
| "cd_rank Hashing = 3"
| "cd_rank Added = 2"
| "cd_rank AtStats = 3"
| "cd_rank Failing = 2"
| "cd_rank AtEnd = 1"
| "cd_rank _ = 0"

definition stopping :: "cd_system \<Rightarrow> bool" where
  "stopping st \<longleftrightarrow> cd_should_stop (cs_obj st) \<and>
     list_all (\<lambda>w. cw_pc w \<noteq> Checked \<and> cw_pc w \<noteq> Asleep) (cs_threads st)"

definition steps_left :: "cd_system \<Rightarrow> nat" where
  "steps_left st = sum_list (map (\<lambda>w. cd_rank (cw_pc w)) (cs_threads st))"

lemma cd_rank_le: "cd_rank p \<le> 5"
  by (cases p) simp_all

lemma steps_left_le: "steps_left st \<le> 5 * length (cs_threads st)"
  using sum_list_mono [of "cs_threads st" "\<lambda>w. cd_rank (cw_pc w)" "\<lambda>w. 5"] cd_rank_le
  by (simp add: steps_left_def sum_list_triv mult.commute)

lemma cd_local_stopping:
  assumes "cd_local e w s = Some (w', s')" "cd_should_stop s" "cw_pc w \<noteq> Checked"
  shows "cd_should_stop s'" "cw_pc w' \<noteq> Checked" "cw_pc w' \<noteq> Asleep" "cd_rank (cw_pc w') < cd_rank (cw_pc w)"
proof -
  have "cd_should_stop s' \<and> cw_pc w' \<noteq> Checked \<and> cw_pc w' \<noteq> Asleep \<and> cd_rank (cw_pc w') < cd_rank (cw_pc w)"
  proof (cases "cw_pc w = Choosing")
    case True
    then have "cd_choose e w s = Some (w', s')" using assms(1) by (simp add: cd_local.simps)
    then show ?thesis by (rule cd_choose_effect) (use True assms(2) in simp)
  next
    case False
    then show ?thesis using assms
      by (cases "cw_pc w"; clarsimp simp: cd_local.simps cd_fail_def goto_if_stop_def split: if_splits)
  qed
  then show "cd_should_stop s'" "cw_pc w' \<noteq> Checked" "cw_pc w' \<noteq> Asleep" "cd_rank (cw_pc w') < cd_rank (cw_pc w)"
    by simp_all
qed

lemma cd_thread_stopping:
  assumes "stopping st" "cd_thread e i st = Some st'"
  shows "stopping st'" "steps_left st' < steps_left st" "length (cs_threads st') = length (cs_threads st)"
proof -
  let ?ws = "cs_threads st"
  from assms(2) have "stopping st' \<and> steps_left st' < steps_left st \<and> length (cs_threads st') = length ?ws"
  proof (cases rule: cd_thread_cases)
    case (1 w' s' vs)
    have p: "cw_pc (?ws ! i) \<noteq> Checked"
      using assms(1) 1(1) by (simp add: stopping_def list_all_length)
    have "map wake ?ws = ?ws" using assms(1) by (auto simp: stopping_def list_all_iff wake_def intro!: map_idI)
    then have v: "vs = ?ws" using 1(4) by (simp split: if_splits)
    have ss: "cd_should_stop (cs_obj st)" using assms(1) by (simp add: stopping_def)
    note f = cd_local_stopping [OF 1(2) ss p]
    have "cd_rank (cw_pc (?ws ! i)) \<le> steps_left st"
      unfolding steps_left_def using 1(1) by (intro member_le_sum_list) auto
    then have "steps_left st' < steps_left st"
      using f(4) 1(1) unfolding steps_left_def 1(6) v map_update by (subst sum_list_update) simp_all
    moreover have "stopping st'"
      using assms(1) f(1-3) 1(1) unfolding stopping_def 1(5,6) v by (simp add: list_all_length nth_list_update)
    ultimately show ?thesis using 1(6) v by simp
  qed
  then show "stopping st'" "steps_left st' < steps_left st" "length (cs_threads st') = length ?ws" by simp_all
qed

lemma cd_runs_stopping:
  "cd_runs es st = Some st' \<Longrightarrow> cd_inv st \<Longrightarrow> stopping st \<Longrightarrow>
   cd_inv st' \<and> stopping st' \<and> length es + steps_left st' \<le> steps_left st \<and> length (cs_threads st') = length (cs_threads st)"
proof (induction es st rule: cd_runs.induct)
  case (2 e i es st)
  then obtain u where u: "cd_thread e i st = Some u" "cd_runs es u = Some st'" by (auto split: option.splits)
  note f = cd_thread_stopping [OF "2.prems"(3) u(1)]
  from "2.IH" [OF u(1) u(2) cd_inv_thread [OF "2.prems"(2) u(1)] f(1)] show ?case using f(2,3) by simp
qed simp

lemma GetPieceToDownload_defined:
  assumes "pieces_downloading t \<noteq> []" "length (pieces_have t) = length (pieces_downloading t)"
  shows "GetPieceToDownload hp r l ff t \<noteq> None"
proof -
  let ?t = "case l of None \<Rightarrow> t | Some i \<Rightarrow> set_downloading i False t"
  have "pieces_downloading ?t \<noteq> []" "length (pieces_have ?t) = length (pieces_downloading ?t)"
    using assms by (auto simp: set_downloading_def split: option.split)
  from GetUndownloadedPiece_spec [OF this, of hp r] show ?thesis
    by (auto simp: GetPieceToDownload_def Let_def split: option.split prod.split)
qed

lemma cd_progress:
  assumes "cd_inv st" "stopping st" "\<not> cd_IsStoped (cs_obj st)"
  shows "\<exists>i < length (cs_threads st). \<forall>e. cd_thread e i st \<noteq> None"
proof -
  let ?s = "cs_obj st" and ?ws = "cs_threads st"
  have n: "cd_complete_threads_num ?s = int (cd_count Gone ?ws)" "cd_threads_num ?s = int (length ?ws)"
    and c: "cluster_inv (as_task ?s, map as_worker ?ws)"
    using assms(1) by (simp_all add: cd_inv_def Let_def)
  have "\<not> list_all (\<lambda>w. cw_pc w = Gone) ?ws"
    using assms(3) unfolding cd_count_all [symmetric] by (simp add: cd_IsStoped_def n)
  then obtain i where i: "i < length ?ws" "cw_pc (?ws ! i) \<noteq> Gone" by (auto simp: list_all_length)
  have a: "cw_pc (?ws ! i) \<noteq> Asleep" and l: "\<not> lock_held ?ws"
    using assms(2) i(1) by (auto simp: stopping_def list_all_iff lock_held_def list_ex_iff)
  have "cd_choose e (?ws ! i) ?s \<noteq> None" for e
    using c GetPieceToDownload_defined [of "as_task ?s"]
    by (auto simp: cd_choose_def GetPieceToDownload_same cluster_inv_def split: option.split)
  then have "cd_local e (?ws ! i) ?s \<noteq> None" for e
    using i(2) a by (cases "cw_pc (?ws ! i)") (simp_all add: cd_local.simps)
  then show ?thesis using i(1) l by (intro exI [of _ i]) (auto simp: cd_thread_def Let_def split: option.split)
qed

lemma missing_stopping:
  assumes "cd_inv st" "cd_should_stop (cs_obj st)" "\<not> list_all (\<lambda>b. b) (cd_pieces_have (cs_obj st))"
  shows "stopping st"
proof -
  have "\<not> cw_from_failed w" if "w \<in> set (cs_threads st)" for w
    using that assms(1,3) by (auto simp: cd_inv_def Let_def cluster_inv_def as_worker_def list_all_length)
  then show ?thesis using assms(1,2) by (fastforce simp: stopping_def cd_inv_def Let_def list_all_iff cw_ok_def)
qed

text \<open>C19: stopping. When a stop was asked for, or a thread failed, while a piece is still missing, the threads are
  done after at most five steps each, in whatever order they run: as long as the object does not say that it has
  stopped, some thread can go on, whatever the torrent and the file system answer.\<close>

theorem cluster_download_stops:
  assumes "reach cd_init cd_step st" "cd_should_stop (cs_obj st)" "\<not> list_all (\<lambda>b. b) (cd_pieces_have (cs_obj st))"
    and "cd_runs es st = Some st'"
  shows "length es \<le> 5 * length (cs_threads st) \<and>
    (cd_IsStoped (cs_obj st') \<or> (\<exists>i < length (cs_threads st'). \<forall>e. cd_thread e i st' \<noteq> None))"
proof -
  have i: "cd_inv st" by (rule cluster_threads.reach_inv [OF assms(1)])
  from cd_runs_stopping [OF assms(4) i missing_stopping [OF i assms(2,3)]]
  show ?thesis using steps_left_le [of st] cd_progress by (metis add_leD1 le_trans)
qed

subsection \<open>Examples\<close>

definition cd_env_ex :: "bool \<Rightarrow> bool \<Rightarrow> cd_env" where
  "cd_env_ex have_all fails = \<lparr>ce_have_piece = (\<lambda>i. have_all), ce_random = 0, ce_read_fails = fails, ce_piece_size = 10,
     ce_hash_ok = True, ce_total_download = 0\<rparr>"

definition cd_ex :: "int list \<Rightarrow> cd_system" where
  "cd_ex pr = (case cd_StartDownload True True pr 0 (ClusterDownloader_new 2 False) of
     (b, s, ws) \<Rightarrow> \<lparr>cs_obj = s, cs_threads = ws, cs_added = []\<rparr>)"

lemma cd_ex_init: "pr \<noteq> [] \<Longrightarrow> cd_init (cd_ex pr)"
proof -
  obtain b s ws where r: "cd_StartDownload True True pr 0 (ClusterDownloader_new 2 False) = (b, s, ws)" by (metis prod_cases3)
  then have "b" by (rule cd_StartDownload_started)
  then show "pr \<noteq> [] \<Longrightarrow> cd_init (cd_ex pr)"
    using r cd_init.intros [of pr 2 0 False s ws] by (simp add: cd_ex_def)
qed

lemma cd_runs_reach: "cd_runs es st = Some st' \<Longrightarrow> reach cd_init cd_step st \<Longrightarrow> reach cd_init cd_step st'"
proof (induction es st rule: cd_runs.induct)
  case (2 e i es st)
  then show ?case by (auto split: option.splits intro: reach_step cd_thread_step)
qed simp

text \<open>The first thread fetches a piece, a read of the second fails.\<close>

definition cd_run_ex :: "(cd_env \<times> nat) list" where
  "cd_run_ex = (let e = cd_env_ex False False; f = cd_env_ex False True in
     [(e, 0), (e, 0), (e, 0), (e, 0), (e, 1), (e, 1), (e, 1), (f, 1)])"

lemma cluster_download_reachable_witness:
  "map_option (\<lambda>st. cd_retval (cs_obj st)) (cd_runs cd_run_ex (cd_ex [1, 1, 1])) = Some (-1) \<and>
   map_option (\<lambda>st. cd_should_stop (cs_obj st)) (cd_runs cd_run_ex (cd_ex [1, 1, 1])) = Some True"
proof -
  let ?r = "cd_runs cd_run_ex (cd_ex [1, 1, 1])"
  have v: "map_option (\<lambda>st. cd_retval (cs_obj st)) ?r = Some (-1)" by code_simp
  then obtain st where st: "?r = Some st" "cd_retval (cs_obj st) = -1" by auto
  have "reach cd_init cd_step st" by (rule cd_runs_reach [OF st(1)]) (rule reach_init, rule cd_ex_init, simp)
  with cluster_download_reachable [OF this] st v show ?thesis by simp
qed

lemma cluster_download_stops_witness:
  "let st = the (cd_runs cd_run_ex (cd_ex [1, 1, 1]));
       es = [(cd_env_ex False False, 1), (cd_env_ex False False, 1), (cd_env_ex False False, 0)]
   in cd_runs es st \<noteq> None \<and> length es \<le> 5 * length (cs_threads st)"
proof -
  let ?r = "cd_runs cd_run_ex (cd_ex [1, 1, 1])"
  let ?es = "[(cd_env_ex False False, 1), (cd_env_ex False False, 1), (cd_env_ex False False, 0)]"
  have v: "map_option (\<lambda>st. (cd_should_stop (cs_obj st), list_all (\<lambda>b. b) (cd_pieces_have (cs_obj st)))) ?r = Some (True, False)"
    and n: "map_option (\<lambda>st. cd_runs ?es st = None) ?r = Some False"
    by code_simp+
  then obtain st where st: "?r = Some st" "cd_should_stop (cs_obj st)" "\<not> list_all (\<lambda>b. b) (cd_pieces_have (cs_obj st))"
    by auto
  obtain st' where e: "cd_runs ?es st = Some st'" using n st(1) by auto
  have "reach cd_init cd_step st" by (rule cd_runs_reach [OF st(1)]) (rule reach_init, rule cd_ex_init, simp)
  from cluster_download_stops [OF this st(2,3) e] show ?thesis using st(1) e by (simp add: Let_def)
qed

text \<open>A stop, or the failure of another thread, between the check and the wait is lost: here every piece has come
  from the peers, the second thread is about to sleep when the first one fails. It sleeps although it was told to
  stop, no thread can go on, and the object never says that it has stopped.\<close>

definition cd_lost_ex :: "(cd_env \<times> nat) list" where
  "cd_lost_ex = (let e = cd_env_ex False True; h = cd_env_ex True True in
     [(e, 0), (e, 0), (e, 0), (h, 1), (h, 1), (e, 0), (e, 0), (e, 1), (e, 0), (e, 2), (e, 2)])"

lemma cd_asleep_blocked:
  "list_all (\<lambda>w. cw_pc w \<in> {Asleep, Gone}) (cs_threads st) \<Longrightarrow> cd_thread e i st = None"
  by (auto simp: cd_thread_def Let_def list_all_length cd_local.simps split: cd_pc.splits)

lemma lost_wakeup:
  "\<exists>st. reach cd_init cd_step st \<and> cd_should_stop (cs_obj st) \<and> cd_retval (cs_obj st) = -1 \<and>
     \<not> cd_IsStoped (cs_obj st) \<and> (\<forall>e i. cd_thread e i st = None)"
proof -
  let ?r = "cd_runs cd_lost_ex (cd_ex [1])"
  have "map_option (\<lambda>st. (cd_should_stop (cs_obj st), cd_retval (cs_obj st), cd_IsStoped (cs_obj st),
      map cw_pc (cs_threads st))) ?r = Some (True, -1, False, [Gone, Asleep, Gone])"
    by code_simp
  then obtain st where st: "?r = Some st" "cd_should_stop (cs_obj st)" "cd_retval (cs_obj st) = -1"
      "\<not> cd_IsStoped (cs_obj st)" "map cw_pc (cs_threads st) = [Gone, Asleep, Gone]"
    by auto
  have "reach cd_init cd_step st" by (rule cd_runs_reach [OF st(1)]) (rule reach_init, rule cd_ex_init, simp)
  moreover have "list_all (\<lambda>w. cw_pc w \<in> {Asleep, Gone}) (cs_threads st)"
    using st(5) by (auto simp: map_eq_Cons_conv)
  ultimately show ?thesis using st(2-4) cd_asleep_blocked by blast
qed

text \<open>\<open>StopDownload\<close> wakes nobody: sleeping threads stay blocked.\<close>

lemma StopDownload_leaves_sleepers:
  "list_all (\<lambda>w. cw_pc w \<in> {Asleep, Gone}) (cs_threads st) \<Longrightarrow>
   cd_thread e i (st\<lparr>cs_obj := cd_StopDownload (cs_obj st)\<rparr>) = None"
  by (rule cd_asleep_blocked) simp

text \<open>A small torrent gets more threads than were configured.\<close>

lemma small_torrent_more_threads: "length (cs_threads (cd_ex [1])) = 3"
  by code_simp

text \<open>A piece of the retry queue whose read fails when errors are ignored is gone: the next choice does not put it
  back.\<close>

lemma retry_piece_dropped:
  assumes "cw_from_failed w" "cw_pc w = AtRead" "cd_ignore_error s" "ce_read_fails e"
    and "cd_hash_failed_pieces s = []" "\<not> cd_should_stop s"
  shows "cd_local e w s = Some (w\<lparr>cw_pc := AtLoop\<rparr>, s)"
    "cd_choose e w s = Some (w\<lparr>cw_piece := None, cw_pc := Checked\<rparr>, s)"
  using assms
  by (simp_all add: cd_local.simps cd_fail_def cd_choose_def cd_GetPieceToDownload_def cd_pop_hash_failed_def)

end
