(* ===== verification/HdfsTool.thy ===== *)
theory HdfsTool
  imports Prelude
begin

text \<open>
  Reading one piece from the cluster's file system (\<open>gko-src/plugin/hdfstool.cpp\<close>), the function the download
  threads call through \<open>Syms::read_pieces_from_cluster_\<close>. The files of a piece come from the torrent's layout;
  opening and reading a file of the cluster are the arguments \<open>opens\<close> and \<open>pread\<close>.
\<close>

record hdfs_slice =
  hs_path :: string
  hs_pad_file :: bool
  hs_offset :: nat
  hs_size :: nat

datatype pread_result = PreadFailed | PreadBytes string

text \<open>The inner loop: from position \<open>readpos\<close>, \<open>no_read_size\<close> bytes are missing; \<open>Inl\<close> is the code returned.\<close>

function hdfs_read_slice ::
  "(string \<Rightarrow> nat \<Rightarrow> int \<Rightarrow> pread_result) \<Rightarrow> string \<Rightarrow> nat \<Rightarrow> int \<Rightarrow> string \<Rightarrow> int + string" where
  "hdfs_read_slice pread file readpos no_read_size buf =
    (if no_read_size > 0 then
       (case pread file readpos no_read_size of
          PreadFailed \<Rightarrow> Inl (-2)
        | PreadBytes bs \<Rightarrow>
            if bs = [] then Inl (-3)
            else hdfs_read_slice pread file (readpos + length bs) (no_read_size - int (length bs)) (buf @ bs))
     else Inr buf)"
  by pat_completeness auto
termination by (relation "measure (\<lambda>(p, f, r, n, b). nat n)") auto

declare hdfs_read_slice.simps [simp del]

fun hdfs_read_slices ::
  "(string \<Rightarrow> bool) \<Rightarrow> (string \<Rightarrow> nat \<Rightarrow> int \<Rightarrow> pread_result) \<Rightarrow> string \<Rightarrow> hdfs_slice list \<Rightarrow> string \<Rightarrow> int + string" where
  "hdfs_read_slices opens pread prefix [] buf = Inr buf"
| "hdfs_read_slices opens pread prefix (f # fs) buf =
    (if hs_pad_file f then hdfs_read_slices opens pread prefix fs (buf @ replicate (hs_size f) (CHR 0x00))
     else
       let filename = prefix @ ''/'' @ hs_path f in
       if \<not> opens filename then Inl (-1)
       else case hdfs_read_slice pread filename (hs_offset f) (int (hs_size f)) buf of
         Inl r \<Rightarrow> Inl r
       | Inr buf \<Rightarrow> hdfs_read_slices opens pread prefix fs buf)"

text \<open>The code returned and, when it is 0, the bytes put into \<open>data\<close>.\<close>

definition GetFileConetnsFromHdfs ::
  "(string \<Rightarrow> bool) \<Rightarrow> (string \<Rightarrow> nat \<Rightarrow> int \<Rightarrow> pread_result) \<Rightarrow> string \<Rightarrow> hdfs_slice list \<Rightarrow> int \<times> string" where
  "GetFileConetnsFromHdfs opens pread prefix files =
    (case hdfs_read_slices opens pread prefix files [] of Inl r \<Rightarrow> (r, []) | Inr data \<Rightarrow> (0, data))"

text \<open>What the file system promises: a read gives a part of the file's content from the position on, not more than
  asked for, and nothing only at its end; \<open>content\<close> are the files.\<close>

definition hdfs_honest :: "(string \<Rightarrow> string) \<Rightarrow> (string \<Rightarrow> nat \<Rightarrow> int \<Rightarrow> pread_result) \<Rightarrow> bool" where
  "hdfs_honest content pread \<longleftrightarrow> (\<forall>f pos n bs. n > 0 \<longrightarrow> pread f pos n = PreadBytes bs \<longrightarrow>
     int (length bs) \<le> n \<and> bs = take (length bs) (drop pos (content f)) \<and> (bs = [] \<longrightarrow> length (content f) \<le> pos))"

definition slice_bytes :: "(string \<Rightarrow> string) \<Rightarrow> string \<Rightarrow> hdfs_slice \<Rightarrow> string" where
  "slice_bytes content prefix f = (if hs_pad_file f then replicate (hs_size f) (CHR 0x00)
     else take (hs_size f) (drop (hs_offset f) (content (prefix @ ''/'' @ hs_path f))))"

definition slice_there :: "(string \<Rightarrow> string) \<Rightarrow> string \<Rightarrow> hdfs_slice \<Rightarrow> bool" where
  "slice_there content prefix f \<longleftrightarrow>
     hs_pad_file f \<or> hs_size f = 0 \<or> hs_offset f + hs_size f \<le> length (content (prefix @ ''/'' @ hs_path f))"

lemma take_part:
  assumes "bs = take (length bs) (drop p c)" "length bs \<le> n"
  shows "take n (drop p c) = bs @ take (n - length bs) (drop (p + length bs) c)"
proof -
  have "take n (drop p c) = take (length bs + (n - length bs)) (drop p c)" using assms(2) by simp
  also have "\<dots> = take (length bs) (drop p c) @ take (n - length bs) (drop (length bs) (drop p c))" by (rule take_add)
  finally show ?thesis using assms(1) by (simp add: add.commute)
qed

lemma hdfs_read_slice_outcome:
  assumes "hdfs_honest content pread"
  shows "case hdfs_read_slice pread f p n b of
      Inr b' \<Rightarrow> b' = b @ take (nat n) (drop p (content f)) \<and> (0 < n \<longrightarrow> p + nat n \<le> length (content f))
    | Inl r \<Rightarrow> r = -2 \<or> r = -3 \<and> 0 < n \<and> length (content f) < p + nat n"
  using assms
proof (induction pread f p n b rule: hdfs_read_slice.induct)
  case (1 pread f p n b)
  show ?case
  proof (cases "n > 0")
    case True
    show ?thesis
    proof (cases "pread f p n")
      case PreadFailed
      then show ?thesis using True by (simp add: hdfs_read_slice.simps [of pread f p n b])
    next
      case (PreadBytes bs)
      have h: "int (length bs) \<le> n" "bs = take (length bs) (drop p (content f))" "bs = [] \<longrightarrow> length (content f) \<le> p"
        using "1.prems" True PreadBytes unfolding hdfs_honest_def by blast+
      show ?thesis
      proof (cases "bs = []")
        case e: True
        then show ?thesis using True PreadBytes h(3) by (simp add: hdfs_read_slice.simps [of pread f p n b])
      next
        case False
        have s: "hdfs_read_slice pread f p n b = hdfs_read_slice pread f (p + length bs) (n - int (length bs)) (b @ bs)"
          using True PreadBytes False by (simp add: hdfs_read_slice.simps [of pread f p n b])
        have t: "take (nat n) (drop p (content f)) = bs @ take (nat n - length bs) (drop (p + length bs) (content f))"
          using h(1,2) by (intro take_part) simp_all
        have m: "nat (n - int (length bs)) = nat n - length bs" "p + length bs + (nat n - length bs) = p + nat n"
          using h(1) by simp_all
        have l: "p + length bs \<le> length (content f)"
          using arg_cong [OF h(2), of length] False by (cases "p \<le> length (content f)") simp_all
        show ?thesis
          using "1.IH" [OF True PreadBytes False "1.prems"] h(1) l unfolding s t m
          by (auto split: sum.splits)
      qed
    qed
  qed (simp add: hdfs_read_slice.simps [of pread f p n b])
qed

lemma hdfs_read_slices_outcome:
  assumes "hdfs_honest content pread"
  shows "case hdfs_read_slices opens pread prefix fs b of
      Inr b' \<Rightarrow> b' = b @ concat (map (slice_bytes content prefix) fs) \<and> list_all (slice_there content prefix) fs \<and>
        list_all (\<lambda>f. hs_pad_file f \<or> opens (prefix @ ''/'' @ hs_path f)) fs
    | Inl r \<Rightarrow> r = -1 \<and> \<not> list_all (\<lambda>f. hs_pad_file f \<or> opens (prefix @ ''/'' @ hs_path f)) fs \<or> r = -2 \<or>
        r = -3 \<and> \<not> list_all (slice_there content prefix) fs"
proof (induction fs arbitrary: b)
  case (Cons f fs)
  let ?file = "prefix @ ''/'' @ hs_path f"
  show ?case
  proof (cases "hs_pad_file f \<or> \<not> opens ?file")
    case True
    then show ?thesis using Cons [of "b @ replicate (hs_size f) (CHR 0x00)"]
      by (auto simp: slice_bytes_def slice_there_def split: sum.splits)
  next
    case False
    show ?thesis
    proof (cases "hdfs_read_slice pread ?file (hs_offset f) (int (hs_size f)) b")
      case (Inl r)
      then show ?thesis using hdfs_read_slice_outcome [OF assms, where f = ?file and p = "hs_offset f" and n = "int (hs_size f)" and b = b]
          False
        by (auto simp: slice_there_def)
    next
      case (Inr b1)
      then show ?thesis
        using hdfs_read_slice_outcome [OF assms, where f = ?file and p = "hs_offset f" and n = "int (hs_size f)" and b = b]
          False Cons [of b1]
        by (auto simp: slice_bytes_def slice_there_def split: sum.splits)
    qed
  qed
qed simp

text \<open>Reading a piece, with an honest file system that may give less than was asked for: the result 0 means that
  every file is there and long enough, and the buffer holds exactly the bytes of the piece's slices in order, with
  zeros for padding; a missing file is reported by -1 and a short one by -3, never without a cause.\<close>

theorem hdfs_piece:
  assumes "hdfs_honest content pread"
  shows "let (r, data) = GetFileConetnsFromHdfs opens pread prefix files;
             openable = list_all (\<lambda>f. hs_pad_file f \<or> opens (prefix @ ''/'' @ hs_path f)) files;
             there = list_all (slice_there content prefix) files
    in (r = 0 \<longrightarrow> data = concat (map (slice_bytes content prefix) files) \<and>
          length data = sum_list (map hs_size files) \<and> openable \<and> there) \<and>
       (r = -1 \<longrightarrow> \<not> openable) \<and> (r = -3 \<longrightarrow> \<not> there) \<and> r \<in> {0, -1, -2, -3}"
proof -
  have "length (concat (map (slice_bytes content prefix) fs)) = sum_list (map hs_size fs)"
    if "list_all (slice_there content prefix) fs" for fs
    using that by (induction fs) (auto simp: slice_bytes_def slice_there_def)
  then show ?thesis
    using hdfs_read_slices_outcome [OF assms, of opens prefix files "[]"]
    by (auto simp: GetFileConetnsFromHdfs_def Let_def split: sum.splits)
qed

definition content_ex :: "string \<Rightarrow> string" where
  "content_ex f = (if f = ''/d/a'' then ''abcde'' else ''xy'')"

text \<open>At most two bytes at a time.\<close>

definition pread_ex :: "string \<Rightarrow> nat \<Rightarrow> int \<Rightarrow> pread_result" where
  "pread_ex f pos n = PreadBytes (take (min 2 (nat n)) (drop pos (content_ex f)))"

definition slices_ex :: "hdfs_slice list" where
  "slices_ex = [\<lparr>hs_path = ''a'', hs_pad_file = False, hs_offset = 2, hs_size = 3\<rparr>,
     \<lparr>hs_path = ''p'', hs_pad_file = True, hs_offset = 0, hs_size = 1\<rparr>,
     \<lparr>hs_path = ''b'', hs_pad_file = False, hs_offset = 0, hs_size = 2\<rparr>]"

lemma hdfs_piece_witness:
  "GetFileConetnsFromHdfs (\<lambda>f. True) pread_ex ''/d'' slices_ex = (0, ''cde'' @ [CHR 0x00] @ ''xy'')"
proof -
  have "hdfs_honest content_ex pread_ex" by (auto simp: hdfs_honest_def pread_ex_def min_def)
  from hdfs_piece [OF this, of "\<lambda>f. True" "''/d''" slices_ex]
  have "fst (GetFileConetnsFromHdfs (\<lambda>f. True) pread_ex ''/d'' slices_ex) = 0 \<Longrightarrow> ?thesis"
    by (auto simp: Let_def slices_ex_def slice_bytes_def content_ex_def)
  moreover have "fst (GetFileConetnsFromHdfs (\<lambda>f. True) pread_ex ''/d'' slices_ex) = 0" by code_simp
  ultimately show ?thesis by simp
qed

end
