(* ===== verification/UnixSocketServer.thy ===== *)
theory UnixSocketServer
  imports UnixSocket
begin

text \<open>
  The handlers of a connection with its two heartbeat timers (\<open>gko-src/src/UnixSocketConnection.cpp\<close>), on top of
  the framing and the write queue of theory \<open>UnixSocket\<close>, and the server that accepts connections
  (\<open>gko-src/src/UnixSocketServer.cpp\<close>). Boost.Asio runs one handler at a time. Cancelling a timer gives its
  waiting handler the error \<open>operation_aborted\<close>; a handler whose timer has expired is in the queue already and
  runs without an error, as the library documents.
\<close>

subsection \<open>Connections\<close>

datatype reading = NotReading | ReadingHead | ReadingData nat

text \<open>A timer handler that is ready to run, with its error.\<close>

datatype timer_handler = RecvHandler bool | SendHandler bool

record unix_connection =
  cn_writer :: writer
  cn_reading :: reading
  cn_delivered :: "string list"
  cn_recv_cycle :: int
  cn_send_cycle :: int
  cn_recv_armed :: bool
  cn_send_armed :: bool
  cn_ready :: "timer_handler list"

definition connection_new :: "int \<Rightarrow> int \<Rightarrow> unix_connection" where
  "connection_new recv send = \<lparr>cn_writer = writer_new, cn_reading = NotReading, cn_delivered = [],
     cn_recv_cycle = recv, cn_send_cycle = send, cn_recv_armed = False, cn_send_armed = False, cn_ready = []\<rparr>"

definition cancel_recv :: "unix_connection \<Rightarrow> unix_connection" where
  "cancel_recv c = (if cn_recv_armed c then c\<lparr>cn_recv_armed := False, cn_ready := cn_ready c @ [RecvHandler True]\<rparr> else c)"

definition cancel_send :: "unix_connection \<Rightarrow> unix_connection" where
  "cancel_send c = (if cn_send_armed c then c\<lparr>cn_send_armed := False, cn_ready := cn_ready c @ [SendHandler True]\<rparr> else c)"

definition CloseConnection :: "unix_connection \<Rightarrow> unix_connection" where
  "CloseConnection c = (let c = cancel_send (cancel_recv c) in c\<lparr>cn_writer := Close (cn_writer c)\<rparr>)"

definition UpdateHeartbeatRecvTimer :: "unix_connection \<Rightarrow> unix_connection" where
  "UpdateHeartbeatRecvTimer c = (if cn_recv_cycle c > 0 then (cancel_recv c)\<lparr>cn_recv_armed := True\<rparr> else c)"

text \<open>\<open>expires_from_now\<close> cancels a wait, too.\<close>

definition UpdateHeartbeatSendTimer :: "unix_connection \<Rightarrow> unix_connection" where
  "UpdateHeartbeatSendTimer c = (if cn_send_cycle c > 0 then (cancel_send c)\<lparr>cn_send_armed := True\<rparr> else c)"

definition HandleHeartbeatRecv :: "bool \<Rightarrow> unix_connection \<Rightarrow> unix_connection" where
  "HandleHeartbeatRecv ec c = (if ec then c else CloseConnection c)"

definition HandleHeartbeatSend :: "bool \<Rightarrow> unix_connection \<Rightarrow> unix_connection" where
  "HandleHeartbeatSend ec c =
    (if ec then c
     else UpdateHeartbeatSendTimer (c\<lparr>cn_writer := AsyncWrite (HEARTBEAT, None) (cn_writer c)\<rparr>))"

definition HandleReadHead :: "bool \<Rightarrow> Header \<Rightarrow> unix_connection \<Rightarrow> unix_connection" where
  "HandleReadHead ec h c =
    (let c = c\<lparr>cn_reading := NotReading\<rparr> in
     if ec then CloseConnection c
     else if \<not> IsValid h then CloseConnection c
     else if hd_type h = type_code HEARTBEAT then (UpdateHeartbeatRecvTimer c)\<lparr>cn_reading := ReadingHead\<rparr>
     else if hd_type h = type_code USERDATA then c\<lparr>cn_reading := ReadingData (unat (hd_length h))\<rparr>
     else CloseConnection c)"

definition HandleReadData :: "nat \<Rightarrow> bool \<Rightarrow> string \<Rightarrow> unix_connection \<Rightarrow> unix_connection" where
  "HandleReadData n ec bytes c =
    (let c = c\<lparr>cn_reading := NotReading\<rparr> in
     if ec then CloseConnection c
     else if n \<noteq> length bytes then CloseConnection c
     else c\<lparr>cn_delivered := cn_delivered c @ [bytes], cn_reading := ReadingHead\<rparr>)"

definition HandleWrite :: "bool \<Rightarrow> unix_connection \<Rightarrow> unix_connection" where
  "HandleWrite ec c =
    (let c = c\<lparr>cn_writer := HandleWriteMessage ec (cn_writer c)\<rparr> in if ec then CloseConnection c else c)"

definition StartConnection :: "unix_connection \<Rightarrow> unix_connection" where
  "StartConnection c = UpdateHeartbeatSendTimer (UpdateHeartbeatRecvTimer (c\<lparr>cn_reading := ReadingHead\<rparr>))"

text \<open>The handlers the bytes of a stream complete.\<close>

function feed_connection :: "string \<Rightarrow> unix_connection \<Rightarrow> unix_connection" where
  "feed_connection s c =
    (case cn_reading c of
       NotReading \<Rightarrow> c
     | ReadingHead \<Rightarrow>
         if length s < 16 then c else feed_connection (drop 16 s) (HandleReadHead False (header_of (take 16 s)) c)
     | ReadingData n \<Rightarrow>
         if length s < n then c else feed_connection (drop n s) (HandleReadData n False (take n s) c))"
  by pat_completeness auto
termination
  by (relation "measure (\<lambda>(s, c). 2 * length s + (case cn_reading c of ReadingData n \<Rightarrow> 1 | _ \<Rightarrow> 0))")
    (auto simp: HandleReadData_def CloseConnection_def cancel_send_def cancel_recv_def Let_def split: reading.splits)

declare feed_connection.simps [simp del]

text \<open>The other events: a timer expires, a ready handler runs, data is written, a write completes.\<close>

datatype connection_event = RecvExpires | SendExpires | RunTimer | Bytes string | ReadFails | Submits "string option"
  | Written bool | ClosedByOwner

fun connection_step :: "connection_event \<Rightarrow> unix_connection \<Rightarrow> unix_connection" where
  "connection_step RecvExpires c =
    (if cn_recv_armed c then c\<lparr>cn_recv_armed := False, cn_ready := cn_ready c @ [RecvHandler False]\<rparr> else c)"
| "connection_step SendExpires c =
    (if cn_send_armed c then c\<lparr>cn_send_armed := False, cn_ready := cn_ready c @ [SendHandler False]\<rparr> else c)"
| "connection_step RunTimer c =
    (case cn_ready c of
       [] \<Rightarrow> c
     | RecvHandler ec # hs \<Rightarrow> HandleHeartbeatRecv ec (c\<lparr>cn_ready := hs\<rparr>)
     | SendHandler ec # hs \<Rightarrow> HandleHeartbeatSend ec (c\<lparr>cn_ready := hs\<rparr>))"
| "connection_step (Bytes s) c = (if closed (cn_writer c) then c else feed_connection s c)"
| "connection_step ReadFails c =
    (case cn_reading c of
       NotReading \<Rightarrow> c
     | ReadingHead \<Rightarrow> HandleReadHead True (header_of []) c
     | ReadingData n \<Rightarrow> HandleReadData n True [] c)"
| "connection_step (Submits d) c = c\<lparr>cn_writer := Write d (cn_writer c)\<rparr>"
| "connection_step (Written ec) c = (if writing (cn_writer c) = None then c else HandleWrite ec c)"
| "connection_step ClosedByOwner c = CloseConnection c"

subsection \<open>Reading\<close>

lemma CloseConnection_fields [simp]:
  "cn_reading (CloseConnection c) = cn_reading c" "cn_delivered (CloseConnection c) = cn_delivered c"
  "closed (cn_writer (CloseConnection c))" "cn_recv_armed (CloseConnection c) = False"
  "cn_send_armed (CloseConnection c) = False" "cn_recv_cycle (CloseConnection c) = cn_recv_cycle c"
  "cn_send_cycle (CloseConnection c) = cn_send_cycle c"
  by (simp_all add: CloseConnection_def cancel_send_def cancel_recv_def Let_def Close_def)

lemma UpdateHeartbeatRecvTimer_fields [simp]:
  "cn_delivered (UpdateHeartbeatRecvTimer c) = cn_delivered c" "cn_writer (UpdateHeartbeatRecvTimer c) = cn_writer c"
  "cn_recv_cycle (UpdateHeartbeatRecvTimer c) = cn_recv_cycle c"
  "cn_recv_armed (UpdateHeartbeatRecvTimer c) = (cn_recv_cycle c > 0 \<or> cn_recv_armed c)"
  by (simp_all add: UpdateHeartbeatRecvTimer_def cancel_recv_def)

lemma header_of_take: "header_of (take 16 s) = header_of s"
  by (simp add: header_of_def drop_take min_def)

lemma feed_stopped: "cn_reading c = NotReading \<Longrightarrow> feed_connection s c = c"
  by (simp add: feed_connection.simps)



text \<open>One message.\<close>

lemma feed_empty: "cn_reading c = ReadingHead \<Longrightarrow> feed_connection [] c = c"
  by (subst feed_connection.simps) simp

lemma feed_heartbeat:
  assumes "cn_reading c = ReadingHead"
  shows "feed_connection (WriteMessage (HEARTBEAT, None)) c =
    (UpdateHeartbeatRecvTimer (c\<lparr>cn_reading := NotReading\<rparr>))\<lparr>cn_reading := ReadingHead\<rparr>"
proof -
  have "HandleReadHead False (Assign 0 0) c = (UpdateHeartbeatRecvTimer (c\<lparr>cn_reading := NotReading\<rparr>))\<lparr>cn_reading := ReadingHead\<rparr>"
    by (simp add: HandleReadHead_def Let_def) (simp add: Assign_def)
  then show ?thesis using assms by (subst feed_connection.simps) (simp add: WriteMessage_def feed_empty)
qed

lemma feed_data:
  assumes "cn_reading c = ReadingHead" "length p < 2 ^ 32"
  shows "feed_connection (WriteMessage (USERDATA, Some p)) c =
    c\<lparr>cn_delivered := cn_delivered c @ [p], cn_reading := ReadingHead\<rparr>"
proof -
  have "unat (of_nat (length p) :: u32) = length p" using assms(2) by (simp add: unat_of_nat)
  then have "HandleReadHead False (Assign 1 (of_nat (length p))) c = c\<lparr>cn_reading := ReadingData (length p)\<rparr>"
    by (simp add: HandleReadHead_def Let_def) (simp add: Assign_def)
  moreover have "feed_connection p (c\<lparr>cn_reading := ReadingData (length p)\<rparr>) =
      c\<lparr>cn_delivered := cn_delivered c @ [p], cn_reading := ReadingHead\<rparr>"
    by (subst feed_connection.simps) (simp add: HandleReadData_def feed_empty)
  ultimately show ?thesis
    using assms(1) by (subst feed_connection.simps) (simp add: WriteMessage_def header_of_append)
qed

subsection \<open>Heartbeats\<close>

text \<open>While the connection is open, the timer that watches the other side is running, or its handler is ready to
  close the connection.\<close>

definition watched :: "unix_connection \<Rightarrow> bool" where
  "watched c \<longleftrightarrow> closed (cn_writer c) \<or> cn_recv_armed c \<or> RecvHandler False \<in> set (cn_ready c)"

lemma watched_closed: "closed (cn_writer c) \<Longrightarrow> watched c"
  by (simp add: watched_def)

lemma watched_feed: "cn_recv_cycle c > 0 \<Longrightarrow> watched c \<Longrightarrow> watched (feed_connection s c) \<and> cn_recv_cycle (feed_connection s c) > 0"
proof (induction s c rule: feed_connection.induct)
  case (1 s c)
  show ?case
  proof (cases "cn_reading c")
    case ReadingHead
    have "watched (HandleReadHead False (header_of (take 16 s)) c)" "cn_recv_cycle (HandleReadHead False (header_of (take 16 s)) c) > 0"
      using "1.prems" by (auto simp: HandleReadHead_def Let_def watched_def)
    then show ?thesis using ReadingHead 1 by (auto simp: feed_connection.simps [of s c])
  next
    case (ReadingData n)
    have "watched (HandleReadData n False (take n s) c)" "cn_recv_cycle (HandleReadData n False (take n s) c) > 0"
      using "1.prems" by (auto simp: HandleReadData_def Let_def watched_def)
    then show ?thesis using ReadingData 1 by (auto simp: feed_connection.simps [of s c])
  qed (use "1.prems" in \<open>simp add: feed_stopped\<close>)
qed

lemma AsyncWrite_closed [simp]: "closed (AsyncWrite m w) = closed w"
  by (simp add: AsyncWrite_def Let_def)

lemma HandleWriteMessage_closed: "closed w \<Longrightarrow> closed (HandleWriteMessage ec w)"
  by (simp add: HandleWriteMessage_def Close_def Let_def)

lemma UpdateHeartbeatSendTimer_recv [simp]:
  "cn_writer (UpdateHeartbeatSendTimer c) = cn_writer c" "cn_recv_cycle (UpdateHeartbeatSendTimer c) = cn_recv_cycle c"
  "cn_recv_armed (UpdateHeartbeatSendTimer c) = cn_recv_armed c"
  "RecvHandler ec \<in> set (cn_ready (UpdateHeartbeatSendTimer c)) \<longleftrightarrow> RecvHandler ec \<in> set (cn_ready c)"
  by (auto simp: UpdateHeartbeatSendTimer_def cancel_send_def)

lemma watched_step:
  assumes "cn_recv_cycle c > 0" "watched c"
  shows "watched (connection_step e c) \<and> cn_recv_cycle (connection_step e c) > 0"
proof (cases e)
  case RunTimer
  then show ?thesis
    using assms
    by (auto simp: watched_def HandleHeartbeatRecv_def HandleHeartbeatSend_def split: list.split timer_handler.split)
next
  case (Bytes s)
  then show ?thesis using assms watched_feed by simp
next
  case (Written ec)
  then show ?thesis
    using assms by (auto simp: watched_def HandleWrite_def Let_def intro: HandleWriteMessage_closed)
qed (use assms in \<open>auto simp: watched_def HandleReadHead_def HandleReadData_def Write_def Let_def split: reading.split\<close>)

text \<open>Heartbeats: whatever happens after the start, a connection with a receive cycle is closed, or its timer runs,
  or the handler that closes it is ready.\<close>

theorem connection_watched:
  assumes "0 < recv"
  shows "let c = fold connection_step es (StartConnection (connection_new recv send)) in
    closed (cn_writer c) \<or> cn_recv_armed c \<or> RecvHandler False \<in> set (cn_ready c)"
proof -
  have "watched c \<and> cn_recv_cycle c > 0 \<Longrightarrow>
      watched (fold connection_step es c) \<and> cn_recv_cycle (fold connection_step es c) > 0" for c
    by (induction es arbitrary: c) (auto dest: watched_step)
  moreover have "watched (StartConnection (connection_new recv send)) \<and>
      cn_recv_cycle (StartConnection (connection_new recv send)) > 0"
    using assms by (simp add: watched_def StartConnection_def connection_new_def)
  ultimately show ?thesis unfolding watched_def Let_def by blast
qed

lemma connection_watched_witness:
  "cn_recv_armed (fold connection_step [SendExpires, RunTimer, Bytes (WriteMessage (HEARTBEAT, None))]
     (StartConnection (connection_new 120 0)))"
proof -
  let ?c = "fold connection_step [SendExpires, RunTimer, Bytes (WriteMessage (HEARTBEAT, None))]
     (StartConnection (connection_new 120 0))"
  have "closed (cn_writer ?c) = False" "cn_ready ?c = [RecvHandler True]"
    by (simp_all add: StartConnection_def connection_new_def feed_heartbeat UpdateHeartbeatRecvTimer_def
        UpdateHeartbeatSendTimer_def cancel_recv_def writer_new_def)
  then show ?thesis
    using connection_watched [of 120 "[SendExpires, RunTimer, Bytes (WriteMessage (HEARTBEAT, None))]" 0]
    by (simp add: Let_def)
qed

text \<open>A handler that is ready closes the connection even when a heartbeat has come meanwhile: cancelling the timer
  no longer reaches it.\<close>

lemma late_heartbeat_closes:
  assumes "cn_recv_armed c" "cn_ready c = []" "cn_reading c = ReadingHead"
  shows "closed (cn_writer (fold connection_step [RecvExpires, Bytes (WriteMessage (HEARTBEAT, None)), RunTimer] c))"
  using assms by (simp add: feed_heartbeat UpdateHeartbeatRecvTimer_def cancel_recv_def HandleHeartbeatRecv_def)

text \<open>Data does not renew the timer, only a heartbeat does: the side that only sends data is closed one cycle after
  its start.\<close>

lemma data_is_no_heartbeat:
  assumes "cn_recv_armed c" "cn_ready c = []" "cn_reading c = ReadingHead" "length p < 2 ^ 32"
  shows "closed (cn_writer (fold connection_step [Bytes (WriteMessage (USERDATA, Some p)), RecvExpires, RunTimer] c))"
  using assms by (simp add: feed_data HandleHeartbeatRecv_def)

text \<open>A connection that was closed by a failed write while its send handler was ready: the failed message stays in
  the queue, so that no write is ever started again, and the timer is set for ever; every cycle adds a heartbeat to
  the queue of the dead connection.\<close>

definition undead :: "unix_connection \<Rightarrow> bool" where
  "undead c \<longleftrightarrow> closed (cn_writer c) \<and> writing (cn_writer c) = None \<and> write_message_queue (cn_writer c) \<noteq> [] \<and>
     cn_send_cycle c > 0 \<and> cn_send_armed c \<and> cn_ready c = []"

lemma undead_forever:
  assumes "undead c"
  shows "undead (fold connection_step [SendExpires, RunTimer] c)"
    "length (write_message_queue (cn_writer (fold connection_step [SendExpires, RunTimer] c))) =
       Suc (length (write_message_queue (cn_writer c)))"
  using assms
  by (simp_all add: undead_def HandleHeartbeatSend_def AsyncWrite_def UpdateHeartbeatSendTimer_def cancel_send_def Let_def)

lemma undead_reached:
  "undead (fold connection_step [Submits (Some ''a''), SendExpires, Written True, RunTimer] (StartConnection (connection_new 0 10)))"
  by code_simp

subsection \<open>The server\<close>

text \<open>Who answers on the socket's path: nobody (no file, or a stale one), this server or another process.\<close>

datatype path_state = NoSocket | StaleFile | OwnSocket | OtherServer

datatype accept_result = Accepted unix_connection | AcceptAborted | AcceptError

record unix_server =
  us_path :: path_state
  us_open :: bool
  us_pending :: nat
  us_recv_cycle :: int
  us_send_cycle :: int
  us_connections :: "unix_connection list"

definition unix_server_new :: "path_state \<Rightarrow> int \<Rightarrow> int \<Rightarrow> unix_server" where
  "unix_server_new p recv send = \<lparr>us_path = p, us_open = False, us_pending = 0, us_recv_cycle = recv,
     us_send_cycle = send, us_connections = []\<rparr>"

record serve_env =
  se_connects :: bool
  se_opens :: bool
  se_path :: path_state
  se_binds :: bool
  se_nonblocking :: bool
  se_listens :: bool

definition AsyncAccept :: "unix_server \<Rightarrow> unix_server" where
  "AsyncAccept s = s\<lparr>us_pending := us_pending s + 1\<rparr>"

text \<open>Closing unlinks the path and cancels the accept in progress.\<close>

definition CloseServer :: "unix_server \<Rightarrow> unix_server" where
  "CloseServer s = (if us_open s then s\<lparr>us_path := NoSocket, us_open := False\<rparr> else s)"

definition CanConnect :: "serve_env \<Rightarrow> unix_server \<Rightarrow> bool \<times> unix_server" where
  "CanConnect e s = (if se_connects e then (True, s) else (False, s\<lparr>us_path := NoSocket\<rparr>))"

text \<open>\<open>se_path\<close>: the path just before the bind, which another process may have taken since the check. Opening an
  open acceptor fails.\<close>

definition Serve :: "serve_env \<Rightarrow> unix_server \<Rightarrow> bool \<times> unix_server" where
  "Serve e s =
    (case CanConnect e s of
       (True, s) \<Rightarrow> (False, s)
     | (False, s) \<Rightarrow>
         if us_open s \<or> \<not> se_opens e then (False, s)
         else
           let s = s\<lparr>us_open := True, us_path := se_path e\<rparr>
           in if us_path s \<noteq> NoSocket \<or> \<not> se_binds e then (False, s)
              else
                let s = s\<lparr>us_path := OwnSocket\<rparr>
                in if \<not> se_nonblocking e then (False, s)
                   else if \<not> se_listens e then (False, s)
                   else (True, AsyncAccept s))"

definition HandleAccepted :: "accept_result \<Rightarrow> unix_server \<Rightarrow> unix_server" where
  "HandleAccepted r s =
    (let s = s\<lparr>us_pending := us_pending s - 1\<rparr> in
     case r of
       AcceptAborted \<Rightarrow> s
     | AcceptError \<Rightarrow> if \<not> us_open s then s else AsyncAccept s
     | Accepted c \<Rightarrow> AsyncAccept (s\<lparr>us_connections := us_connections s @ [StartConnection c]\<rparr>))"

text \<open>After a successful \<open>Serve\<close>: an accept completes, with \<open>operation_aborted\<close> only if the acceptor was closed,
  or the owner closes the server.\<close>

inductive server_step :: "unix_server \<Rightarrow> unix_server \<Rightarrow> bool" where
  server_accept: "0 < us_pending s \<Longrightarrow> r = AcceptAborted \<longrightarrow> \<not> us_open s \<Longrightarrow> server_step s (HandleAccepted r s)"
| server_close: "server_step s (CloseServer s)"

inductive server_init :: "unix_server \<Rightarrow> bool" where
  "Serve e (unix_server_new p recv send) = (True, s) \<Longrightarrow> server_init s"

definition server_inv :: "unix_server \<Rightarrow> bool" where
  "server_inv s \<longleftrightarrow> us_pending s \<le> 1 \<and> (us_open s \<longrightarrow> us_pending s = 1 \<and> us_path s = OwnSocket) \<and>
     (\<not> us_open s \<longrightarrow> us_path s = NoSocket)"

lemma Serve_outcome:
  "Serve e s = (ok, s') \<Longrightarrow> \<not> us_open s \<Longrightarrow>
   (ok \<longleftrightarrow> \<not> se_connects e \<and> se_opens e \<and> se_path e = NoSocket \<and> se_binds e \<and> se_nonblocking e \<and> se_listens e) \<and>
   (ok \<longrightarrow> us_open s' \<and> us_path s' = OwnSocket \<and> us_pending s' = us_pending s + 1) \<and>
   (se_connects e \<longrightarrow> s' = s)"
  by (auto simp: Serve_def CanConnect_def AsyncAccept_def Let_def split: if_splits)

interpretation server: invariant_system server_init server_step server_inv
proof
  fix s assume "server_init s"
  then show "server_inv s"
    by cases (drule Serve_outcome, simp_all add: unix_server_new_def server_inv_def)
next
  fix s t assume "server_inv s" "server_step s t"
  from this(2,1) show "server_inv t"
    by (induction rule: server_step.induct)
      (auto simp: server_inv_def HandleAccepted_def AsyncAccept_def CloseServer_def Let_def split: accept_result.split)
qed

text \<open>Serving: as long as the acceptor is open exactly one accept is in progress and the path is the server's; once
  it is closed the path is gone and no more than the accept that was in progress is left.\<close>

theorem server_accepts:
  assumes "reach server_init server_step s"
  shows "us_pending s \<le> 1 \<and> (if us_open s then us_pending s = 1 \<and> us_path s = OwnSocket else us_path s = NoSocket)"
  using server.reach_inv [OF assms] by (simp add: server_inv_def)

definition serve_env_ok :: serve_env where
  "serve_env_ok = \<lparr>se_connects = False, se_opens = True, se_path = NoSocket, se_binds = True, se_nonblocking = True, se_listens = True\<rparr>"

lemma server_accepts_witness:
  "let s = snd (Serve serve_env_ok (unix_server_new StaleFile 120 0));
       t = CloseServer (HandleAccepted (Accepted (connection_new 120 0)) s)
   in us_pending t \<le> 1 \<and> us_path t = NoSocket"
proof -
  let ?s = "snd (Serve serve_env_ok (unix_server_new StaleFile 120 0))"
  let ?u = "HandleAccepted (Accepted (connection_new 120 0)) ?s"
  have "fst (Serve serve_env_ok (unix_server_new StaleFile 120 0))" by code_simp
  then have "server_init ?s"
    using server_init.intros [of serve_env_ok StaleFile 120 0 ?s] by (metis (full_types) prod.collapse)
  then have "reach server_init server_step ?s" by (rule reach_init)
  moreover have "us_pending ?s = 1" by code_simp
  then have "server_step ?s ?u" by (intro server_accept) simp_all
  ultimately have "reach server_init server_step ?u" by (rule reach_step)
  then have "reach server_init server_step (CloseServer ?u)" by (rule reach_step) (rule server_close)
  from server_accepts [OF this] show ?thesis by (simp add: Let_def CloseServer_def split: if_splits)
qed

text \<open>A failed bind leaves the acceptor open: when another process took the path in between, closing unlinks the
  path of that process; and a second \<open>Serve\<close> cannot succeed.\<close>

lemma failed_serve_unlinks:
  "let s = snd (Serve (serve_env_ok\<lparr>se_path := OtherServer\<rparr>) (unix_server_new NoSocket 120 0))
   in us_open s \<and> us_path s = OtherServer \<and> us_path (CloseServer s) = NoSocket \<and> \<not> fst (Serve serve_env_ok s)"
  by code_simp

text \<open>Any failure to connect removes the path, not only that of a socket nobody serves.\<close>

lemma CanConnect_unlinks: "us_path (snd (CanConnect (e\<lparr>se_connects := False\<rparr>) s)) = NoSocket"
  by (simp add: CanConnect_def)

end
