(* ===== verification/Spec2Isabelle.thy ===== *)
theory Spec2Isabelle
  imports PathUtil Crc32 TrackerSystem StatusManager AnnounceHandler RedisManager UnixSocket AgentUtil EventLoop MiniHttpd TaskManagerRestart ThriftTracker GroupCluster GroupManagerProps CommandLine
    ClusterDownloader HdfsTool UnixSocketServer
begin

text \<open>
  Verification library for gingko (\<open>gko3\<close>), a peer-to-peer file distribution system: a tracker that tells clients
  about each other, an agent and a group daemon that run downloads on a machine, a command line tool that runs one
  download itself, and the tools that make and delete by torrents. The BitTorrent protocol itself is done by a patched
  libtorrent, which is not under \<open>src/\<close>.

  \<^bold>\<open>Parts and how they interact.\<close> A client announces a torrent to a tracker, chosen by a consistent-hash ring; the tracker
  files the peer under the info hash, publishes it in Redis for the other trackers, and answers with peers. Its
  background threads drop old peers and read the peers other trackers published. The agent keeps a database of seeding
  tasks and serves requests on a Unix socket; a group keeps download tasks, serves requests by Thrift and writes a
  resume file per task. Downloads prepare directories, allocate files piece by piece and may fetch pieces from a
  cluster's file system with threads of their own.

  \<^bold>\<open>Theories and sources\<close> (paths below \<open>src/\<close>).
  \<^item> \<open>Prelude\<close>: machine integers, association lists for \<open>std::map\<close> and \<open>boost::unordered_map\<close>, and three interfaces as
    locales: \<open>keyed_store\<close> (what a lookup returns after an insertion and a removal), \<open>invariant_system\<close> (a transition
    system with an inductive invariant) and \<open>codec\<close> (a decoder inverts an encoder). Every component with state
    interprets one of them on its own definitions, and its properties rest on the interpretation's facts.
  \<^item> Shared helpers: \<open>Encode\<close> (\<open>encode.cpp\<close>), \<open>PathUtil\<close> (\<open>path.cpp\<close>, \<open>string_util.cpp\<close>), \<open>AgentUtil\<close>
    (\<open>subnet_mask.cpp\<close>, \<open>SpeedLimit.cpp\<close>, \<open>number_util.cpp\<close>, \<open>host_info_util.cpp\<close>), \<open>Crc32\<close> (\<open>hash_crc32.cpp\<close>).
  \<^item> The tracker (\<open>gko-tracker-src\<close>): \<open>PeerInfo\<close> (\<open>PeerInfo.cpp\<close>, \<open>inner_types.h\<close>), \<open>ChoosePeers\<close> and \<open>PeerHandler\<close>
    (\<open>PeerHandler.cpp\<close>; peer objects in a heap, so that weak references can dangle), \<open>PeerInv\<close> and \<open>PeerProps\<close> (the
    invariant of one info hash and what one announce does), \<open>AnnounceHandler\<close> (\<open>AnnounceHandler.cpp\<close>), \<open>TrackerSystem\<close>
    (\<open>InfoHashGarbageCleaner.cpp\<close>, \<open>RemotePeersSyncronizer.cpp\<close>, interleaved with announces), \<open>RedisManager\<close>
    (\<open>RedisManager.cpp\<close>), \<open>StatusManager\<close> (\<open>StatusManager.cpp\<close>), \<open>EventLoop\<close> and \<open>MiniHttpd\<close> (\<open>minihttpd/src\<close>).
  \<^item> The agent (\<open>gko-src/src\<close>): \<open>AgentTask\<close> (\<open>Task.cpp\<close>, \<open>TaskDB.cpp\<close>), \<open>TaskManager\<close>, \<open>TaskManagerInv\<close>,
    \<open>TaskManagerProps\<close> and \<open>TaskManagerRestart\<close> (\<open>TaskManager.cpp\<close>), \<open>UnixSocket\<close> (\<open>UnixSocketConnection.cpp\<close>:
    framing and write queue), \<open>UnixSocketServer\<close> (its handlers with the heartbeat timers, and \<open>UnixSocketServer.cpp\<close>),
    \<open>AgentClient\<close> (\<open>BBTSClient.cpp\<close>, \<open>UnixSocketClient.cpp\<close>; a request from the client to the agent and back),
    \<open>HashRing\<close> (\<open>ConsistentHashRing.hpp\<close>) and \<open>ThriftTracker\<close> (\<open>ThriftTracker.cpp\<close>).
  \<^item> The group (\<open>gko-src/group\<close>): \<open>GroupConf\<close> and \<open>GroupParam\<close> (\<open>utils.cpp\<close>, \<open>conf_range.h\<close>, the interface files),
    \<open>GroupTask\<close> (\<open>group_task.cpp\<close>), \<open>GroupManager\<close>, \<open>GroupManagerInv\<close> and \<open>GroupManagerProps\<close> (\<open>group_manager.cpp\<close>),
    \<open>GroupCluster\<close> (\<open>group_cluster_task.cpp\<close> and the thread that starts it), \<open>GroupRpc\<close> (\<open>group_client.cpp\<close>,
    \<open>group_manager_service_handler.cpp\<close>; a request from the client to the daemon and back, with retries).
  \<^item> The tools (\<open>gko-src/src\<close>): \<open>TorrentFiles\<close> and \<open>Downloader\<close> (\<open>Downloader.cpp\<close>, with the copies of the same code in
    \<open>group_task.cpp\<close>), \<open>MakeTorrent\<close> (\<open>make_torrent.cpp\<close>, \<open>delete_files.cpp\<close>), \<open>CommandLine\<close> (\<open>gko3.cpp\<close>: the options of
    every operation, composed with the models of the client, the group, the downloader and the torrent tools),
    \<open>ClusterDownloader\<close> (\<open>ClusterDownloader.cpp\<close>: the same search for a piece as the group's, and the threads access by
    access with mutex and condition variable), \<open>HdfsTool\<close> (\<open>plugin/hdfstool.cpp\<close>: reading one piece).

  \<^bold>\<open>How the code is represented.\<close> A class is a record with the code's fields, an operation a function from the old state
  to the new one with its result and, where it acts on the outside, a list of effects in order. Objects that are
  shared live in a heap of the model and pointers are numbers. Libraries, the file system, the clock and random
  numbers are arguments or fields of an environment record. An exception, an assertion that fails and undefined
  behaviour (an iterator read past the end, a signed overflow) are \<open>None\<close>; error codes are values. Threads are step
  relations whose steps are the code's critical sections, or single accesses where the code holds no lock. Machine
  integers are words or integers with the range written out where a limit matters.

  \<^bold>\<open>What the lemmas show.\<close> Each component has: the behaviour of its operations on every branch; its invariant and a
  lemma per operation that keeps it; for the systems of several operations, a step relation and what holds in every
  reachable state. The group manager refines an abstract specification. Lemmas named in the findings of the manifest
  show where the code departs from what it means to do, on concrete inputs. The numbered properties, each followed by
  a witness that applies it to a concrete input, are in the theory of the component they are about.

  \<^bold>\<open>Bounds and loops.\<close> Loops over containers are structural. Loops over an index are functions with a measure. Three
  loops whose end is not obvious are \<open>partial_function (option)\<close> and proved to return: the walk around the ring
  (\<open>two_loop\<close>), the circular search for a piece (\<open>undownloaded_loop\<close>) and the allocation of a file (\<open>allocate_loop\<close>).
  Fuel is used once, for the group list that polls until all tasks have finished (\<open>list_daemon\<close>): it ends with the first
  poll that fails or finds nothing unfinished, whatever fuel is left (\<open>list_daemon_ends\<close>). Infinite loops of threads are
  the repetition of their steps.

  \<^bold>\<open>Not modelled.\<close> Generated code (protocol buffers, Thrift), SQLite and the closure templates of the HTTP library are
  not the program's own; their behaviour enters through arguments. The process inspector of the HTTP server, the
  logging, the host information and the start-up code of the daemons are calls of the system with no logic of
  their own. Text that is only printed for people is left out. Floating-point numbers are reals, and memory
  exhaustion is not considered.
\<close>

end
